(* ===== verification/Prelude.thy ===== *)
theory Prelude
  imports Main "HOL-Library.Word"
begin

section \<open>Shared vocabulary: C integers, stopping reasons, results, loops\<close>

text \<open>
  The kernel is C for a 32-bit machine.  Both \<^verbatim>\<open>int\<close> and \<^verbatim>\<open>uint\<close> are 32-bit
  words here; \<open>sint\<close> reads one as the signed and \<open>unat\<close> as the unsigned value, and
  arithmetic wraps.  A function of the source that may fail to return normally has a result
  of type \<open>'a res\<close>: \<open>Inr\<close> of what it returns, or \<open>Inl\<close> of why it does not return.
\<close>

type_synonym cint = "32 word"
type_synonym cuint = "32 word"
type_synonym cchar = "8 word"

text \<open>
  \<open>Panic\<close> is a call of \<^verbatim>\<open>panic(msg)\<close>, which never returns; \<open>Undefined\<close> is an
  access C leaves undefined (a null dereference, an index outside its array); \<open>Spins\<close> is
  \<^verbatim>\<open>acquire\<close> waiting for a lock another CPU holds; \<open>Blocks\<close> is a call of
  \<^verbatim>\<open>sleep\<close> in code whose continuation is not followed; \<open>Diverges\<close> is a loop over a
  linked structure that does not end within the number of nodes there are.
\<close>

datatype stop = Panic string | Undefined string | Spins | Blocks | Diverges

type_synonym 'a res = "stop + 'a"

definition bindR :: "'a res \<Rightarrow> ('a \<Rightarrow> 'b res) \<Rightarrow> 'b res" where
  "bindR m f = (case m of Inl e \<Rightarrow> Inl e | Inr x \<Rightarrow> f x)"

lemma bindR_Inl [simp]: "bindR (Inl e) f = Inl e"
  by (simp add: bindR_def)

lemma bindR_Inr [simp]: "bindR (Inr x) f = f x"
  by (simp add: bindR_def)

lemma bindR_eq_Inr: "bindR m f = Inr y \<longleftrightarrow> (\<exists>x. m = Inr x \<and> f x = Inr y)"
  by (cases m) auto

lemma bindR_assoc: "bindR (bindR m f) g = bindR m (\<lambda>x. bindR (f x) g)"
  by (cases m) auto

lemma bindR_cong [fundef_cong]:
  "m = m' \<Longrightarrow> (\<And>x. m' = Inr x \<Longrightarrow> f x = f' x) \<Longrightarrow> bindR m f = bindR m' f'"
  by (cases m') auto

text \<open>A \<^verbatim>\<open>for\<close> loop over the elements of a table, stopping at the first failure.\<close>

fun foldR :: "('a \<Rightarrow> 's \<Rightarrow> 's res) \<Rightarrow> 'a list \<Rightarrow> 's \<Rightarrow> 's res" where
  "foldR f [] s = Inr s"
| "foldR f (x # xs) s = bindR (f x s) (foldR f xs)"

lemma foldR_append: "foldR f (xs @ ys) s = bindR (foldR f xs s) (foldR f ys)"
proof (induction xs arbitrary: s)
  case (Cons x xs)
  then have "foldR f (xs @ ys) = (\<lambda>s. bindR (foldR f xs s) (foldR f ys))" by auto
  then show ?case by (simp add: bindR_assoc)
qed simp

text \<open>An invariant of the body that also makes it succeed is an invariant of the loop.\<close>

lemma foldR_inv:
  assumes "I s"
    and "\<And>x s. x \<in> set xs \<Longrightarrow> I s \<Longrightarrow> \<exists>s'. f x s = Inr s' \<and> I s'"
  shows "\<exists>s'. foldR f xs s = Inr s' \<and> I s'"
  using assms
proof (induction xs arbitrary: s)
  case Nil
  then show ?case by simp
next
  case (Cons x xs)
  from Cons.prems(2)[of x s] Cons.prems(1) obtain s1 where "f x s = Inr s1" "I s1" by auto
  with Cons.IH[of s1] Cons.prems(2) show ?case by simp
qed

lemma foldR_inv_partial:
  assumes "foldR f xs s = Inr t" and "I s"
    and "\<And>x s s'. x \<in> set xs \<Longrightarrow> I s \<Longrightarrow> f x s = Inr s' \<Longrightarrow> I s'"
  shows "I t"
  using assms
  by (induction xs arbitrary: s) (auto simp: bindR_eq_Inr)

subsection \<open>Collections\<close>

text \<open>
  \<open>frame\<close> collects, for each operation, which parts of the kernel state it leaves alone;
  \<open>kdefs\<close> collects the definitions of small accessors that proofs unfold on sight.
\<close>

named_theorems frame
named_theorems kdefs

subsection \<open>Linear search, as the kernel's table scans do it\<close>

lemma find_upt_Some:
  "List.find P [0..<n] = Some i \<longleftrightarrow> i < n \<and> P i \<and> (\<forall>j<i. \<not> P j)"
proof -
  have "List.find P [0..<n] = Some i \<longleftrightarrow>
    (\<exists>k < length [0..<n]. P ([0..<n] ! k) \<and> i = [0..<n] ! k \<and> (\<forall>j<k. \<not> P ([0..<n] ! j)))"
    by (rule find_Some_iff)
  also have "\<dots> \<longleftrightarrow> i < n \<and> P i \<and> (\<forall>j<i. \<not> P j)"
    by (auto intro: exI[where x = i])
  finally show ?thesis .
qed

lemma find_upt_None: "List.find P [0..<n] = None \<longleftrightarrow> (\<forall>i<n. \<not> P i)"
  by (auto simp: find_None_iff)

subsection \<open>Words\<close>

text \<open>Small numbers are themselves as C integers.\<close>

lemma sint_of_nat32: "n < 2 ^ 31 \<Longrightarrow> sint (of_nat n :: 32 word) = int n"
  by (simp add: sint_uint uint_nat unat_of_nat signed_take_bit_int_eq_self)

lemma unat_of_nat32: "n < 2 ^ 32 \<Longrightarrow> unat (of_nat n :: 32 word) = n"
  by (simp add: unat_of_nat)

subsection \<open>Lists\<close>

lemma distinct_bounded_length:
  assumes "distinct xs" and "\<forall>x\<in>set xs. x < (n::nat)"
  shows "length xs \<le> n"
proof -
  have "length xs = card (set xs)" using assms(1) by (simp add: distinct_card)
  also have "\<dots> \<le> card {..<n}" by (rule card_mono) (use assms(2) in auto)
  finally show ?thesis by simp
qed

end
