(* ===== verification/Spinlock.thy ===== *)
theory Spinlock
  imports Prelude
begin

section \<open>Spin locks and interrupt nesting (spinlock.c, mycpu of proc.c)\<close>

text \<open>
  The CPUs, their interrupt flags and the spin locks.  A function of the kernel runs on the
  CPU whose local APIC id is its first argument \<open>a\<close> (what \<^verbatim>\<open>lapicid()\<close> reads);
  \<^verbatim>\<open>mycpu\<close> looks that id up in \<^verbatim>\<open>cpus[]\<close>.  \<open>hw_if\<close> is the interrupt flag
  \<^verbatim>\<open>readeflags() & FL_IF\<close> of each CPU.  The call stacks that \<^verbatim>\<open>acquire\<close> records
  in \<^verbatim>\<open>pcs\<close> for debugging are not part of the model.
\<close>

subsection \<open>State\<close>

record cpu =
  apicid :: "8 word"
  ts_ss0 :: "16 word"
  ts_esp0 :: cuint
  ts_iomb :: "16 word"
  started :: cuint
  ncli :: cint
  intena :: cint
  cpu_proc :: "nat option"

record spinlock =
  locked :: cuint
  lk_name :: string
  lk_cpu :: "nat option"

text \<open>The spin locks of the kernel, by the variable that holds them.\<close>

datatype lockid =
    L_ptable | L_ticks | L_kmem | L_cons | L_bcache | L_log | L_icache | L_ftable | L_ide
  | L_pipe cuint | L_buf nat | L_inode nat

record machine =
  cpus :: "nat \<Rightarrow> cpu"
  ncpu :: nat
  hw_if :: "8 word \<Rightarrow> bool"
  locks :: "lockid \<Rightarrow> spinlock"

definition FL_IF :: cuint where
  "FL_IF = 0x200"

definition readeflags_IF :: "8 word \<Rightarrow> 'a machine_scheme \<Rightarrow> cuint" where
  "readeflags_IF a m = (if hw_if m a then FL_IF else 0)"

definition cli :: "8 word \<Rightarrow> 'a machine_scheme \<Rightarrow> 'a machine_scheme" where
  "cli a m = m\<lparr>hw_if := (hw_if m)(a := False)\<rparr>"

definition sti :: "8 word \<Rightarrow> 'a machine_scheme \<Rightarrow> 'a machine_scheme" where
  "sti a m = m\<lparr>hw_if := (hw_if m)(a := True)\<rparr>"

definition upd_cpu :: "nat \<Rightarrow> (cpu \<Rightarrow> cpu) \<Rightarrow> 'a machine_scheme \<Rightarrow> 'a machine_scheme" where
  "upd_cpu c f m = m\<lparr>cpus := (cpus m)(c := f (cpus m c))\<rparr>"

definition upd_lock :: "lockid \<Rightarrow> (spinlock \<Rightarrow> spinlock) \<Rightarrow> 'a machine_scheme \<Rightarrow> 'a machine_scheme" where
  "upd_lock L f m = m\<lparr>locks := (locks m)(L := f (locks m L))\<rparr>"

subsection \<open>Operations\<close>

definition mycpu :: "8 word \<Rightarrow> 'a machine_scheme \<Rightarrow> nat res" where
  "mycpu a m =
     (if readeflags_IF a m \<noteq> 0 then Inl (Panic ''mycpu called with interrupts enabled\<newline>'')
      else case List.find (\<lambda>i. apicid (cpus m i) = a) [0..<ncpu m] of
             Some i \<Rightarrow> Inr i
           | None \<Rightarrow> Inl (Panic ''unknown apicid\<newline>''))"

definition initlock :: "lockid \<Rightarrow> string \<Rightarrow> 'a machine_scheme \<Rightarrow> 'a machine_scheme" where
  "initlock L nm = upd_lock L (\<lambda>lk. lk\<lparr>lk_name := nm, locked := 0, lk_cpu := None\<rparr>)"

definition pushcli :: "8 word \<Rightarrow> 'a machine_scheme \<Rightarrow> 'a machine_scheme res" where
  "pushcli a m =
     (let eflags = readeflags_IF a m; m1 = cli a m in
      bindR (mycpu a m1) (\<lambda>c.
        let m2 = (if ncli (cpus m1 c) = 0
                  then upd_cpu c (\<lambda>k. k\<lparr>intena := eflags\<rparr>) m1 else m1)
        in Inr (upd_cpu c (\<lambda>k. k\<lparr>ncli := ncli k + 1\<rparr>) m2)))"

definition popcli :: "8 word \<Rightarrow> 'a machine_scheme \<Rightarrow> 'a machine_scheme res" where
  "popcli a m =
     (if readeflags_IF a m \<noteq> 0 then Inl (Panic ''popcli - interruptible'')
      else bindR (mycpu a m) (\<lambda>c.
        let m1 = upd_cpu c (\<lambda>k. k\<lparr>ncli := ncli k - 1\<rparr>) m in
        if sint (ncli (cpus m1 c)) < 0 then Inl (Panic ''popcli'')
        else if ncli (cpus m1 c) = 0 \<and> intena (cpus m1 c) \<noteq> 0 then Inr (sti a m1)
        else Inr m1))"

definition holding :: "8 word \<Rightarrow> lockid \<Rightarrow> 'a machine_scheme \<Rightarrow> (bool \<times> 'a machine_scheme) res" where
  "holding a L m =
     bindR (pushcli a m) (\<lambda>m1.
     bindR (mycpu a m1) (\<lambda>c.
       let r = (locked (locks m1 L) \<noteq> 0 \<and> lk_cpu (locks m1 L) = Some c) in
       bindR (popcli a m1) (\<lambda>m2. Inr (r, m2))))"

text \<open>
  \<^verbatim>\<open>xchg(&lk->locked, 1)\<close> returns the old value and stores 1.  When it returns a
  non-zero value the loop goes round again: on this CPU nothing changes until another CPU
  releases the lock, which is the result \<open>Spins\<close>.
\<close>

definition acquire :: "8 word \<Rightarrow> lockid \<Rightarrow> 'a machine_scheme \<Rightarrow> 'a machine_scheme res" where
  "acquire a L m =
     bindR (pushcli a m) (\<lambda>m1.
     bindR (holding a L m1) (\<lambda>(h, m2).
       if h then Inl (Panic ''acquire'')
       else if locked (locks m2 L) \<noteq> 0 then Inl Spins
       else
         let m3 = upd_lock L (\<lambda>lk. lk\<lparr>locked := 1\<rparr>) m2 in
         bindR (mycpu a m3) (\<lambda>c. Inr (upd_lock L (\<lambda>lk. lk\<lparr>lk_cpu := Some c\<rparr>) m3))))"

definition release :: "8 word \<Rightarrow> lockid \<Rightarrow> 'a machine_scheme \<Rightarrow> 'a machine_scheme res" where
  "release a L m =
     bindR (holding a L m) (\<lambda>(h, m1).
       if \<not> h then Inl (Panic ''release'')
       else
         let m2 = upd_lock L (\<lambda>lk. lk\<lparr>lk_cpu := None\<rparr>) m1;
             m3 = upd_lock L (\<lambda>lk. lk\<lparr>locked := 0\<rparr>) m2
         in popcli a m3)"

subsection \<open>The CPU a function runs on\<close>

definition cpu_at :: "8 word \<Rightarrow> 'a machine_scheme \<Rightarrow> nat option" where
  "cpu_at a m = List.find (\<lambda>i. apicid (cpus m i) = a) [0..<ncpu m]"

lemma cpu_at_apicid: "cpu_at a m = Some c \<Longrightarrow> c < ncpu m \<and> apicid (cpus m c) = a"
  by (auto simp: cpu_at_def find_upt_Some)

lemma cpu_at_inj: "cpu_at a m = Some c \<Longrightarrow> cpu_at b m = Some c \<Longrightarrow> a = b"
  by (auto dest: cpu_at_apicid)

lemma cpu_at_cong:
  assumes "ncpu m' = ncpu m" and "\<And>i. apicid (cpus m' i) = apicid (cpus m i)"
  shows "cpu_at a m' = cpu_at a m"
  by (simp add: cpu_at_def assms)

lemma mycpu_eq:
  "mycpu a m = (if hw_if m a then Inl (Panic ''mycpu called with interrupts enabled\<newline>'')
     else case cpu_at a m of Some i \<Rightarrow> Inr i | None \<Rightarrow> Inl (Panic ''unknown apicid\<newline>''))"
  by (simp add: mycpu_def readeflags_IF_def FL_IF_def cpu_at_def)

lemma machine_sel [simp]:
  "cpus (upd_cpu c f m) = (cpus m)(c := f (cpus m c))"
  "ncpu (upd_cpu c f m) = ncpu m" "hw_if (upd_cpu c f m) = hw_if m"
  "locks (upd_cpu c f m) = locks m" "machine.more (upd_cpu c f m) = machine.more m"
  "cpus (upd_lock L g m) = cpus m" "ncpu (upd_lock L g m) = ncpu m"
  "hw_if (upd_lock L g m) = hw_if m"
  "locks (upd_lock L g m) = (locks m)(L := g (locks m L))"
  "machine.more (upd_lock L g m) = machine.more m"
  "cpus (cli a m) = cpus m" "ncpu (cli a m) = ncpu m" "locks (cli a m) = locks m"
  "hw_if (cli a m) = (hw_if m)(a := False)" "machine.more (cli a m) = machine.more m"
  "cpus (sti a m) = cpus m" "ncpu (sti a m) = ncpu m" "locks (sti a m) = locks m"
  "hw_if (sti a m) = (hw_if m)(a := True)" "machine.more (sti a m) = machine.more m"
  by (simp_all add: upd_cpu_def upd_lock_def cli_def sti_def)

lemma upd_cpu_upd: "upd_cpu c g (upd_cpu c f m) = upd_cpu c (\<lambda>k. g (f k)) m"
  by (simp add: upd_cpu_def)

lemma upd_cpu_cong: "f (cpus m c) = g (cpus m c) \<Longrightarrow> upd_cpu c f m = upd_cpu c g m"
  by (simp add: upd_cpu_def)

lemma upd_lock_upd: "upd_lock L g (upd_lock L f m) = upd_lock L (\<lambda>k. g (f k)) m"
  by (simp add: upd_lock_def)

lemma cpu_at_upd [simp]:
  "(\<And>k. apicid (f k) = apicid k) \<Longrightarrow> cpu_at a (upd_cpu c f m) = cpu_at a m"
  "cpu_at a (upd_lock L g m) = cpu_at a m"
  "cpu_at a (cli b m) = cpu_at a m" "cpu_at a (sti b m) = cpu_at a m"
  by (auto intro!: cpu_at_cong)

subsection \<open>Nesting depth\<close>

text \<open>
  \<^verbatim>\<open>ncli\<close> is a C \<^verbatim>\<open>int\<close>; \<open>depth_ok\<close> says that it is not negative and that one
  more \<^verbatim>\<open>pushcli\<close> cannot overflow it.
\<close>

lemma sint_plus_one: "sint (w :: 32 word) + 1 < 2 ^ 31 \<Longrightarrow> sint (w + 1) = sint w + 1"
proof -
  assume h: "sint w + 1 < 2 ^ 31"
  have "- (2 ^ 31) \<le> sint w" using sint_greater_eq[of w] by simp
  with h have "signed_take_bit 31 (sint w + 1) = sint w + 1"
    by (intro signed_take_bit_int_eq_self) auto
  then show ?thesis by (simp add: sint_word_ariths)
qed

definition depth_ok :: "nat \<Rightarrow> 'a machine_scheme \<Rightarrow> bool" where
  "depth_ok c m \<longleftrightarrow> 0 \<le> sint (ncli (cpus m c)) \<and> sint (ncli (cpus m c)) + 2 < 2 ^ 31"

lemma depth_ok_Suc: "depth_ok c m \<Longrightarrow> sint (ncli (cpus m c) + 1) = sint (ncli (cpus m c)) + 1"
  unfolding depth_ok_def by (intro sint_plus_one) linarith

lemma depth_ok_Suc_neq: "depth_ok c m \<Longrightarrow> ncli (cpus m c) + 1 \<noteq> 0"
proof
  assume d: "depth_ok c m" and "ncli (cpus m c) + 1 = 0"
  then have "sint (ncli (cpus m c) + 1) = 0" by simp
  with d show False using depth_ok_Suc[OF d] unfolding depth_ok_def by linarith
qed

lemma pushcli_eq:
  "cpu_at a m = Some c \<Longrightarrow>
   pushcli a m = Inr (upd_cpu c (\<lambda>k. k\<lparr>intena := (if ncli k = 0 then readeflags_IF a m else intena k),
                                      ncli := ncli k + 1\<rparr>) (cli a m))"
  by (auto simp: pushcli_def mycpu_eq Let_def upd_cpu_upd intro!: upd_cpu_cong)

lemma popcli_eq:
  "cpu_at a m = Some c \<Longrightarrow> \<not> hw_if m a \<Longrightarrow> 0 \<le> sint (ncli (cpus m c) - 1) \<Longrightarrow>
   popcli a m = Inr (let m1 = upd_cpu c (\<lambda>k. k\<lparr>ncli := ncli k - 1\<rparr>) m
                     in if ncli (cpus m c) = 1 \<and> intena (cpus m c) \<noteq> 0 then sti a m1 else m1)"
  by (auto simp: popcli_def mycpu_eq Let_def readeflags_IF_def)

text \<open>
  \<^verbatim>\<open>holding\<close> itself nests once, so it leaves the machine as it was when interrupts are
  already off and the depth is positive, which is how \<^verbatim>\<open>acquire\<close> and
  \<^verbatim>\<open>release\<close> call it.
\<close>

lemma upd_cpu_id: "f (cpus m c) = cpus m c \<Longrightarrow> upd_cpu c f m = m"
  by (simp add: upd_cpu_def)

lemma cli_id: "\<not> hw_if m a \<Longrightarrow> cli a m = m"
  by (simp add: cli_def fun_upd_idem)

lemma holding_eq:
  assumes c: "cpu_at a m = Some c" and "\<not> hw_if m a" and "0 \<le> sint (ncli (cpus m c))"
    and "ncli (cpus m c) \<noteq> 0"
  shows "holding a L m = Inr (locked (locks m L) \<noteq> 0 \<and> lk_cpu (locks m L) = Some c, m)"
proof -
  let ?m1 = "upd_cpu c (\<lambda>k. k\<lparr>intena := (if ncli k = 0 then readeflags_IF a m else intena k),
                             ncli := ncli k + 1\<rparr>) (cli a m)"
  have p: "pushcli a m = Inr ?m1" by (rule pushcli_eq[OF c])
  have q: "popcli a ?m1 = Inr m"
    using assms
    by (subst popcli_eq[of a _ c]) (auto simp: Let_def upd_cpu_upd cli_id upd_cpu_id)
  show ?thesis using assms p q by (simp add: holding_def mycpu_eq)
qed

subsection \<open>Acquire and release\<close>

text \<open>The state after a successful \<^verbatim>\<open>acquire\<close> and after \<^verbatim>\<open>release\<close>, in closed form.\<close>

definition taken :: "8 word \<Rightarrow> nat \<Rightarrow> lockid \<Rightarrow> 'a machine_scheme \<Rightarrow> 'a machine_scheme" where
  "taken a c L m =
     upd_lock L (\<lambda>lk. lk\<lparr>locked := 1, lk_cpu := Some c\<rparr>)
       (upd_cpu c (\<lambda>k. k\<lparr>intena := (if ncli k = 0 then readeflags_IF a m else intena k),
                           ncli := ncli k + 1\<rparr>) (cli a m))"

definition dropped :: "8 word \<Rightarrow> nat \<Rightarrow> lockid \<Rightarrow> 'a machine_scheme \<Rightarrow> 'a machine_scheme" where
  "dropped a c L m =
     (let m1 = upd_cpu c (\<lambda>k. k\<lparr>ncli := ncli k - 1\<rparr>)
                 (upd_lock L (\<lambda>lk. lk\<lparr>lk_cpu := None, locked := 0\<rparr>) m)
      in if ncli (cpus m c) = 1 \<and> intena (cpus m c) \<noteq> 0 then sti a m1 else m1)"

definition held :: "8 word \<Rightarrow> nat \<Rightarrow> lockid \<Rightarrow> 'a machine_scheme \<Rightarrow> bool" where
  "held a c L m \<longleftrightarrow> cpu_at a m = Some c \<and> \<not> hw_if m a \<and> 1 \<le> sint (ncli (cpus m c))
     \<and> locked (locks m L) \<noteq> 0 \<and> lk_cpu (locks m L) = Some c"

lemma sint_minus_one: "1 \<le> sint (w :: 32 word) \<Longrightarrow> sint (w - 1) = sint w - 1"
proof -
  assume h: "1 \<le> sint w"
  have "sint w < 2 ^ 31" using sint_less[of w] by simp
  with h have "signed_take_bit 31 (sint w - 1) = sint w - 1"
    by (intro signed_take_bit_int_eq_self) auto
  then show ?thesis by (simp add: sint_word_ariths)
qed

lemma acquire_after_push:
  assumes c: "cpu_at a m = Some c" and d: "depth_ok c m"
  shows "acquire a L m =
    (if locked (locks m L) \<noteq> 0
     then (if lk_cpu (locks m L) = Some c then Inl (Panic ''acquire'') else Inl Spins)
     else Inr (taken a c L m))"
proof -
  let ?m1 = "upd_cpu c (\<lambda>k. k\<lparr>intena := (if ncli k = 0 then readeflags_IF a m else intena k),
                             ncli := ncli k + 1\<rparr>) (cli a m)"
  have p: "pushcli a m = Inr ?m1" by (rule pushcli_eq[OF c])
  have "0 \<le> sint (ncli (cpus m c) + 1)" "ncli (cpus m c) + 1 \<noteq> 0"
    using depth_ok_Suc[OF d] depth_ok_Suc_neq[OF d] d by (auto simp: depth_ok_def)
  then have h: "holding a L ?m1 =
      Inr (locked (locks m L) \<noteq> 0 \<and> lk_cpu (locks m L) = Some c, ?m1)"
    using c by (subst holding_eq[of a _ c]) auto
  have "mycpu a (upd_lock L g ?m1) = Inr c" for g using c by (simp add: mycpu_eq)
  then show ?thesis by (simp add: acquire_def p h Let_def taken_def upd_lock_upd)
qed

lemma acquire_free:
  "cpu_at a m = Some c \<Longrightarrow> depth_ok c m \<Longrightarrow> locked (locks m L) = 0 \<Longrightarrow>
   acquire a L m = Inr (taken a c L m)"
  by (simp add: acquire_after_push)

lemma release_eq:
  assumes c: "cpu_at a m = Some c" and "\<not> hw_if m a" and n: "1 \<le> sint (ncli (cpus m c))"
  shows "release a L m =
    (if locked (locks m L) \<noteq> 0 \<and> lk_cpu (locks m L) = Some c then Inr (dropped a c L m)
     else Inl (Panic ''release''))"
proof -
  have "ncli (cpus m c) \<noteq> 0" using n by auto
  then have h: "holding a L m = Inr (locked (locks m L) \<noteq> 0 \<and> lk_cpu (locks m L) = Some c, m)"
    using assms by (intro holding_eq) auto
  have "popcli a (upd_lock L (\<lambda>lk. lk\<lparr>lk_cpu := None, locked := 0\<rparr>) m) = Inr (dropped a c L m)"
    using assms sint_minus_one[OF n] by (subst popcli_eq[of a _ c]) (auto simp: dropped_def Let_def)
  then show ?thesis by (simp add: release_def h upd_lock_upd Let_def)
qed

lemma release_held: "held a c L m \<Longrightarrow> release a L m = Inr (dropped a c L m)"
  by (simp add: held_def release_eq)

lemma taken_held: "cpu_at a m = Some c \<Longrightarrow> depth_ok c m \<Longrightarrow> held a c L (taken a c L m)"
  using depth_ok_Suc[of c m] by (auto simp: held_def taken_def depth_ok_def)

lemma taken_sel [simp]:
  "ncpu (taken a c L m) = ncpu m" "machine.more (taken a c L m) = machine.more m"
  "hw_if (taken a c L m) = (hw_if m)(a := False)" "cpu_at b (taken a c L m) = cpu_at b m"
  "cpu_proc (cpus (taken a c L m) i) = cpu_proc (cpus m i)"
  "ncli (cpus (taken a c L m) c) = ncli (cpus m c) + 1"
  by (simp_all add: taken_def)

lemma dropped_sel [simp]:
  "ncpu (dropped a c L m) = ncpu m" "machine.more (dropped a c L m) = machine.more m"
  "cpu_at b (dropped a c L m) = cpu_at b m" "locked (locks (dropped a c L m) L) = 0"
  "cpu_proc (cpus (dropped a c L m) i) = cpu_proc (cpus m i)"
  "ncli (cpus (dropped a c L m) c) = ncli (cpus m c) - 1"
  by (simp_all add: dropped_def Let_def)

subsection \<open>What a successful call did, from any state\<close>

lemma pushcli_Inr:
  "pushcli a m = Inr m' \<Longrightarrow> locks m' = locks m \<and> (\<forall>b. cpu_at b m' = cpu_at b m) \<and> machine.more m' = machine.more m"
  by (auto simp: pushcli_def bindR_eq_Inr Let_def)

lemma popcli_Inr:
  "popcli a m = Inr m' \<Longrightarrow> locks m' = locks m \<and> (\<forall>b. cpu_at b m' = cpu_at b m) \<and> machine.more m' = machine.more m"
  by (auto simp: popcli_def bindR_eq_Inr Let_def split: if_splits)

lemma mycpu_Inr: "mycpu a m = Inr c \<longleftrightarrow> \<not> hw_if m a \<and> cpu_at a m = Some c"
  by (auto simp: mycpu_eq split: option.splits)

lemma holding_Inr:
  assumes "holding a L m = Inr (h, m')"
  shows "locks m' = locks m \<and> (\<forall>b. cpu_at b m' = cpu_at b m) \<and> machine.more m' = machine.more m \<and>
    (h \<longleftrightarrow> locked (locks m L) \<noteq> 0 \<and> (\<exists>c. cpu_at a m = Some c \<and> lk_cpu (locks m L) = Some c))"
proof -
  from assms obtain m1 c m2 where
    "pushcli a m = Inr m1" "mycpu a m1 = Inr c" "popcli a m1 = Inr m2" "m' = m2"
    "h = (locked (locks m1 L) \<noteq> 0 \<and> lk_cpu (locks m1 L) = Some c)"
    by (auto simp: holding_def bindR_eq_Inr Let_def)
  then show ?thesis using pushcli_Inr[of a m m1] popcli_Inr[of a m1 m2] by (auto simp: mycpu_Inr)
qed

lemma acquire_Inr:
  assumes "acquire a L m = Inr m'"
  shows "locked (locks m L) = 0 \<and> (\<forall>b. cpu_at b m' = cpu_at b m) \<and> machine.more m' = machine.more m \<and>
    (\<exists>c. cpu_at a m = Some c \<and>
       locks m' = (locks m)(L := (locks m L)\<lparr>locked := 1, lk_cpu := Some c\<rparr>))"
proof -
  from assms obtain m1 h m2 c where s: "pushcli a m = Inr m1" "holding a L m1 = Inr (h, m2)"
    "locked (locks m2 L) = 0" "mycpu a (upd_lock L (\<lambda>lk. lk\<lparr>locked := 1\<rparr>) m2) = Inr c"
    "m' = upd_lock L (\<lambda>lk. lk\<lparr>lk_cpu := Some c\<rparr>) (upd_lock L (\<lambda>lk. lk\<lparr>locked := 1\<rparr>) m2)"
    by (auto simp: acquire_def bindR_eq_Inr Let_def split: if_splits)
  show ?thesis
    using s pushcli_Inr[OF s(1)] holding_Inr[OF s(2)] by (auto simp: mycpu_Inr)
qed

lemma release_Inr:
  assumes "release a L m = Inr m'"
  shows "locked (locks m L) \<noteq> 0 \<and> (\<forall>b. cpu_at b m' = cpu_at b m) \<and> machine.more m' = machine.more m \<and>
    (\<exists>c. cpu_at a m = Some c \<and> lk_cpu (locks m L) = Some c) \<and>
    locks m' = (locks m)(L := (locks m L)\<lparr>lk_cpu := None, locked := 0\<rparr>)"
proof -
  from assms obtain m1 where s: "holding a L m = Inr (True, m1)"
    "popcli a (upd_lock L (\<lambda>lk. lk\<lparr>locked := 0\<rparr>) (upd_lock L (\<lambda>lk. lk\<lparr>lk_cpu := None\<rparr>) m1)) = Inr m'"
    by (auto simp: release_def bindR_eq_Inr Let_def split: if_splits)
  show ?thesis using holding_Inr[OF s(1)] popcli_Inr[OF s(2)] by auto
qed

subsection \<open>Several CPUs\<close>

text \<open>
  CPUs interleave calls of \<^verbatim>\<open>acquire\<close> and \<^verbatim>\<open>release\<close> on any locks.  The second part
  of the configuration is the set of CPUs that returned from \<^verbatim>\<open>acquire(L)\<close> and have
  not called \<^verbatim>\<open>release(L)\<close> since.  A CPU whose \<^verbatim>\<open>acquire\<close> spins makes no step.
\<close>

inductive lock_step :: "lockid \<Rightarrow> machine \<times> 8 word set \<Rightarrow> machine \<times> 8 word set \<Rightarrow> bool"
  for L :: lockid where
  enter: "acquire a L m = Inr m' \<Longrightarrow> lock_step L (m, C) (m', insert a C)"
| leave: "a \<in> C \<Longrightarrow> release a L m = Inr m' \<Longrightarrow> lock_step L (m, C) (m', C - {a})"
| enter_other: "K \<noteq> L \<Longrightarrow> acquire a K m = Inr m' \<Longrightarrow> lock_step L (m, C) (m', C)"
| leave_other: "K \<noteq> L \<Longrightarrow> release a K m = Inr m' \<Longrightarrow> lock_step L (m, C) (m', C)"

definition lock_inv :: "lockid \<Rightarrow> machine \<times> 8 word set \<Rightarrow> bool" where
  "lock_inv L x \<longleftrightarrow> (\<forall>a \<in> snd x. locked (locks (fst x) L) \<noteq> 0 \<and>
     (\<exists>c. cpu_at a (fst x) = Some c \<and> lk_cpu (locks (fst x) L) = Some c))"

lemma lock_inv_unique: "lock_inv L (m, C) \<Longrightarrow> a \<in> C \<Longrightarrow> b \<in> C \<Longrightarrow> a = b"
  by (auto simp: lock_inv_def) (metis cpu_at_inj option.inject)

lemma lock_step_inv: "lock_step L x y \<Longrightarrow> lock_inv L x \<Longrightarrow> lock_inv L y"
proof (induction rule: lock_step.induct)
  case (enter a m m' C)
  from enter.prems acquire_Inr[OF enter.hyps] have "C = {}" by (auto simp: lock_inv_def)
  with acquire_Inr[OF enter.hyps] show ?case by (auto simp: lock_inv_def)
next
  case (leave a C m m')
  from leave.prems leave.hyps(1) have "C = {a}" by (auto dest: lock_inv_unique)
  then show ?case by (simp add: lock_inv_def)
next
  case (enter_other K a m m' C)
  with acquire_Inr[OF enter_other.hyps(2)] show ?case by (auto simp: lock_inv_def)
next
  case (leave_other K a m m' C)
  with release_Inr[OF leave_other.hyps(2)] show ?case by (auto simp: lock_inv_def)
qed


text \<open>
  C22. A critical section with no lock inside it returns the machine to where it was:
  \<^verbatim>\<open>acquire\<close> of a free lock followed by \<^verbatim>\<open>release\<close> succeeds, frees the lock,
  touches no other lock, restores the nesting depth, and, at depth 0, restores the interrupt
  flag, which is off in between.
\<close>

theorem acquire_release_roundtrip:
  assumes c: "cpu_at a m = Some c" and d: "depth_ok c m" and f: "locked (locks m L) = 0"
  shows "\<exists>m1 m2. acquire a L m = Inr m1 \<and> \<not> hw_if m1 a \<and> held a c L m1 \<and> release a L m1 = Inr m2 \<and>
    locked (locks m2 L) = 0 \<and> (\<forall>K. K \<noteq> L \<longrightarrow> locks m2 K = locks m K) \<and>
    ncli (cpus m2 c) = ncli (cpus m c) \<and>
    hw_if m2 = (hw_if m)(a := (ncli (cpus m c) = 0 \<and> hw_if m a)) \<and>
    machine.more m2 = machine.more m"
proof -
  let ?m1 = "taken a c L m"
  have h: "held a c L ?m1" by (rule taken_held[OF c d])
  have "ncli (cpus m c) + 1 \<noteq> 0" by (rule depth_ok_Suc_neq[OF d])
  moreover have "ncli (cpus m c) + 1 = 1 \<longleftrightarrow> ncli (cpus m c) = 0" by simp
  ultimately have "hw_if (dropped a c L ?m1) = (hw_if m)(a := (ncli (cpus m c) = 0 \<and> hw_if m a))"
    by (auto simp: dropped_def taken_def readeflags_IF_def FL_IF_def Let_def fun_eq_iff)
  then show ?thesis
    using acquire_free[OF c d f] release_held[OF h] h
    by (auto simp: held_def dropped_def taken_def Let_def)
qed


subsection \<open>A two-CPU machine for the witnesses\<close>

definition two_cpus :: machine where
  "two_cpus =
     \<lparr>cpus = (\<lambda>i. \<lparr>apicid = of_nat i, ts_ss0 = 0, ts_esp0 = 0, ts_iomb = 0, started = 1, ncli = 0,
                    intena = 0, cpu_proc = None\<rparr>),
      ncpu = 2, hw_if = (\<lambda>_. True),
      locks = (\<lambda>_. \<lparr>locked = 0, lk_name = '''', lk_cpu = None\<rparr>)\<rparr>"

lemma two_cpus_at: "cpu_at 0 two_cpus = Some 0" "cpu_at 1 two_cpus = Some 1"
  by (simp_all add: cpu_at_def two_cpus_def upt_rec numeral_2_eq_2)

lemma two_cpus_depth: "depth_ok c two_cpus"
  by (simp add: depth_ok_def two_cpus_def)

lemma two_cpus_free: "locked (locks two_cpus L) = 0"
  by (simp add: two_cpus_def)


theorem acquire_release_roundtrip_witness:
  "\<exists>m1 m2. acquire 1 L_kmem two_cpus = Inr m1 \<and> release 1 L_kmem m1 = Inr m2 \<and> hw_if m2 1"
proof -
  have "ncli (cpus two_cpus 1) = 0" "hw_if two_cpus 1" by (simp_all add: two_cpus_def)
  then show ?thesis
    using acquire_release_roundtrip[OF two_cpus_at(2) two_cpus_depth two_cpus_free, of L_kmem]
    by auto
qed


subsection \<open>Critical sections for the other components\<close>

text \<open>
  \<open>quiet_eq m m'\<close>: the machines differ at most in the saved interrupt state that
  \<^verbatim>\<open>pushcli\<close> rewrites at depth 0.  This is what a balanced critical section leaves
  behind.  \<open>can_acquire\<close> says that the lock is free and the CPU may take it.
\<close>

definition quiet_eq :: "'a machine_scheme \<Rightarrow> 'a machine_scheme \<Rightarrow> bool" where
  "quiet_eq m m' \<longleftrightarrow> ncpu m' = ncpu m \<and> hw_if m' = hw_if m \<and> locks m' = locks m \<and>
     (\<forall>i. (cpus m' i)\<lparr>intena := 0\<rparr> = (cpus m i)\<lparr>intena := 0\<rparr>)"

definition can_acquire :: "8 word \<Rightarrow> lockid \<Rightarrow> 'a machine_scheme \<Rightarrow> bool" where
  "can_acquire a L m \<longleftrightarrow> (\<exists>c. cpu_at a m = Some c \<and> depth_ok c m \<and>
      (ncli (cpus m c) = 0 \<or> \<not> hw_if m a)) \<and>
     locked (locks m L) = 0 \<and> lk_cpu (locks m L) = None"

definition same_machine :: "'a machine_scheme \<Rightarrow> 'a machine_scheme \<Rightarrow> bool" where
  "same_machine m m' \<longleftrightarrow>
     cpus m' = cpus m \<and> ncpu m' = ncpu m \<and> hw_if m' = hw_if m \<and> locks m' = locks m"

lemma quiet_eq_refl [simp]: "quiet_eq m m"
  by (simp add: quiet_eq_def)

lemma quiet_eq_fields:
  "quiet_eq m m' \<Longrightarrow> ncli (cpus m' i) = ncli (cpus m i)"
  "quiet_eq m m' \<Longrightarrow> apicid (cpus m' i) = apicid (cpus m i)"
  "quiet_eq m m' \<Longrightarrow> cpu_proc (cpus m' i) = cpu_proc (cpus m i)"
proof -
  have e: "(cpus m' i)\<lparr>intena := 0\<rparr> = (cpus m i)\<lparr>intena := 0\<rparr>" if "quiet_eq m m'"
    using that unfolding quiet_eq_def by blast
  show "quiet_eq m m' \<Longrightarrow> ncli (cpus m' i) = ncli (cpus m i)"
    "quiet_eq m m' \<Longrightarrow> apicid (cpus m' i) = apicid (cpus m i)"
    "quiet_eq m m' \<Longrightarrow> cpu_proc (cpus m' i) = cpu_proc (cpus m i)"
    using arg_cong[OF e, of ncli] arg_cong[OF e, of apicid] arg_cong[OF e, of cpu_proc] by simp_all
qed

lemma quiet_eq_trans [trans]: "quiet_eq m m' \<Longrightarrow> quiet_eq m' m'' \<Longrightarrow> quiet_eq m m''"
  by (simp add: quiet_eq_def)

lemma quiet_eq_cpu_at: "quiet_eq m m' \<Longrightarrow> cpu_at a m' = cpu_at a m"
  by (rule cpu_at_cong) (simp add: quiet_eq_def, rule quiet_eq_fields)

lemma quiet_eq_can_acquire: "quiet_eq m m' \<Longrightarrow> can_acquire a L m' \<longleftrightarrow> can_acquire a L m"
  by (simp add: can_acquire_def depth_ok_def quiet_eq_cpu_at quiet_eq_fields)
     (simp add: quiet_eq_def)

lemma same_machine_quiet: "same_machine m m' \<Longrightarrow> quiet_eq m m'"
  by (simp add: same_machine_def quiet_eq_def)

lemma same_machine_held: "same_machine m m' \<Longrightarrow> held a c L m' \<longleftrightarrow> held a c L m"
  by (simp add: same_machine_def held_def cpu_at_def)

text \<open>
  The one fact about locks the other components use: a free lock can be taken, and whatever
  the section does to the rest of the state, the lock can be released again.
\<close>

lemma critical_section:
  assumes "can_acquire a L s"
  shows "\<exists>s1. acquire a L s = Inr s1 \<and> machine.more s1 = machine.more s \<and>
    (\<forall>s2. same_machine s1 s2 \<longrightarrow>
       (\<exists>s3. release a L s2 = Inr s3 \<and> machine.more s3 = machine.more s2 \<and> quiet_eq s s3))"
proof -
  from assms obtain c where c: "cpu_at a s = Some c" "depth_ok c s"
    and q: "ncli (cpus s c) = 0 \<or> \<not> hw_if s a"
    and l: "locked (locks s L) = 0" "lk_cpu (locks s L) = None"
    by (auto simp: can_acquire_def)
  let ?s1 = "taken a c L s"
  have h: "held a c L ?s1" by (rule taken_held[OF c])
  show ?thesis
  proof (rule exI[of _ ?s1], intro conjI allI impI)
    show "acquire a L s = Inr ?s1" by (rule acquire_free[OF c l(1)])
    show "machine.more ?s1 = machine.more s" by simp
  next
    fix s2 assume sm: "same_machine ?s1 s2"
    then have "held a c L s2" using h by (simp add: same_machine_held)
    then have r: "release a L s2 = Inr (dropped a c L s2)" by (rule release_held)
    have n: "ncli (cpus s c) + 1 = 1 \<longleftrightarrow> ncli (cpus s c) = 0" by simp
    have eq: "cpus s2 = cpus ?s1" "ncpu s2 = ncpu s" "hw_if s2 = hw_if ?s1" "locks s2 = locks ?s1"
      using sm by (simp_all add: same_machine_def)
    have lk: "locks (dropped a c L s2) = locks s"
      using l by (auto simp: dropped_def taken_def Let_def eq fun_eq_iff)
    have iff: "hw_if (dropped a c L s2) = hw_if s"
      using q n by (auto simp: dropped_def taken_def Let_def eq readeflags_IF_def FL_IF_def fun_eq_iff)
    have "(cpus (dropped a c L s2) i)\<lparr>intena := 0\<rparr> = (cpus s i)\<lparr>intena := 0\<rparr>" for i
      by (auto simp: dropped_def taken_def Let_def eq)
    then have "quiet_eq s (dropped a c L s2)" using lk iff eq(2) by (simp add: quiet_eq_def)
    with r show "\<exists>s3. release a L s2 = Inr s3 \<and> machine.more s3 = machine.more s2 \<and> quiet_eq s s3"
      by simp
  qed
qed


subsection \<open>Processes on CPUs are not touched by locking\<close>

definition same_procs :: "'a machine_scheme \<Rightarrow> 'a machine_scheme \<Rightarrow> bool" where
  "same_procs m m' \<longleftrightarrow> ncpu m' = ncpu m \<and> (\<forall>i. cpu_proc (cpus m' i) = cpu_proc (cpus m i)) \<and>
     (\<forall>b. cpu_at b m' = cpu_at b m) \<and> machine.more m' = machine.more m"

lemma same_procs_refl [simp]: "same_procs m m"
  by (simp add: same_procs_def)

lemma same_procs_trans [trans]: "same_procs m m' \<Longrightarrow> same_procs m' m'' \<Longrightarrow> same_procs m m''"
  by (simp add: same_procs_def)

lemma pushcli_same_procs: "pushcli a m = Inr m' \<Longrightarrow> same_procs m m'"
  by (auto simp: pushcli_def same_procs_def bindR_eq_Inr Let_def)

lemma popcli_same_procs: "popcli a m = Inr m' \<Longrightarrow> same_procs m m'"
  by (auto simp: popcli_def same_procs_def bindR_eq_Inr Let_def split: if_splits)

lemma holding_same_procs: "holding a L m = Inr (h, m') \<Longrightarrow> same_procs m m'"
  by (auto simp: holding_def bindR_eq_Inr Let_def
      dest!: pushcli_same_procs popcli_same_procs intro: same_procs_trans)

lemma acquire_same_procs:
  assumes "acquire a L m = Inr m'"
  shows "same_procs m m'"
proof -
  from assms obtain m1 h m2 c where s: "pushcli a m = Inr m1" "holding a L m1 = Inr (h, m2)"
    "m' = upd_lock L (\<lambda>lk. lk\<lparr>lk_cpu := Some c\<rparr>) (upd_lock L (\<lambda>lk. lk\<lparr>locked := 1\<rparr>) m2)"
    by (auto simp: acquire_def bindR_eq_Inr Let_def split: if_splits)
  have "same_procs m2 m'" unfolding s(3) by (simp add: same_procs_def)
  with pushcli_same_procs[OF s(1)] holding_same_procs[OF s(2)] show ?thesis
    by (blast intro: same_procs_trans)
qed

lemma release_same_procs:
  assumes "release a L m = Inr m'"
  shows "same_procs m m'"
proof -
  from assms obtain m1 h where s: "holding a L m = Inr (h, m1)"
    "popcli a (upd_lock L (\<lambda>lk. lk\<lparr>locked := 0\<rparr>) (upd_lock L (\<lambda>lk. lk\<lparr>lk_cpu := None\<rparr>) m1)) = Inr m'"
    by (auto simp: release_def bindR_eq_Inr Let_def split: if_splits)
  have "same_procs m1 (upd_lock L (\<lambda>lk. lk\<lparr>locked := 0\<rparr>) (upd_lock L (\<lambda>lk. lk\<lparr>lk_cpu := None\<rparr>) m1))"
    by (simp add: same_procs_def)
  with holding_same_procs[OF s(1)] popcli_same_procs[OF s(2)] show ?thesis
    by (blast intro: same_procs_trans)
qed

text \<open>A critical section run from a state in which the lock can be taken.\<close>

lemma critical_run:
  assumes "can_acquire a L s"
    and "\<And>s1. machine.more s1 = machine.more s \<Longrightarrow> \<exists>s2. body s1 = Inr s2 \<and> same_machine s1 s2 \<and> Q s2"
  shows "\<exists>s2 s3. bindR (acquire a L s) (\<lambda>s1. bindR (body s1) (release a L)) = Inr s3 \<and>
    quiet_eq s s3 \<and> machine.more s3 = machine.more s2 \<and> Q s2"
proof -
  from critical_section[OF assms(1)] obtain s1 where s1: "acquire a L s = Inr s1"
    "machine.more s1 = machine.more s" "\<forall>s2. same_machine s1 s2 \<longrightarrow>
       (\<exists>s3. release a L s2 = Inr s3 \<and> machine.more s3 = machine.more s2 \<and> quiet_eq s s3)" by blast
  from assms(2)[OF s1(2)] obtain s2 where s2: "body s1 = Inr s2" "same_machine s1 s2" "Q s2" by blast
  from s1(3) s2(2) obtain s3 where "release a L s2 = Inr s3" "machine.more s3 = machine.more s2" "quiet_eq s s3"
    by blast
  with s1(1) s2 show ?thesis by (intro exI[of _ s2] exI[of _ s3]) simp
qed

end
