(* ===== verification/KString.thy ===== *)
theory KString
  imports Prelude
begin

unbundle bit_operations_syntax

section \<open>Memory and string routines (string.c)\<close>

text \<open>
  Kernel memory is a function from 32-bit addresses to bytes.  The routines of string.c work
  on addresses, as the C code does, so aliasing and address wrap-around are in the model.  A
  \<^verbatim>\<open>while (n-- > 0)\<close> loop is a recursion on the number of turns left.
\<close>

type_synonym memory = "cuint \<Rightarrow> cchar"

subsection \<open>Words in memory (little-endian)\<close>

definition store32 :: "cuint \<Rightarrow> cuint \<Rightarrow> memory \<Rightarrow> memory" where
  "store32 a w m = m(a := ucast w, a + 1 := ucast (drop_bit 8 w),
                     a + 2 := ucast (drop_bit 16 w), a + 3 := ucast (drop_bit 24 w))"

definition load32 :: "memory \<Rightarrow> cuint \<Rightarrow> cuint" where
  "load32 m a = ucast (m a) OR push_bit 8 (ucast (m (a + 1)))
                OR push_bit 16 (ucast (m (a + 2))) OR push_bit 24 (ucast (m (a + 3)))"

text \<open>Copying given bytes to an address.\<close>

definition put_bytes :: "cuint \<Rightarrow> cchar list \<Rightarrow> memory \<Rightarrow> memory" where
  "put_bytes d cs m = (\<lambda>x. if unat (x - d) < length cs then cs ! unat (x - d) else m x)"

subsection \<open>memset\<close>

fun stosb :: "nat \<Rightarrow> cuint \<Rightarrow> cchar \<Rightarrow> memory \<Rightarrow> memory" where
  "stosb 0 a d m = m"
| "stosb (Suc k) a d m = stosb k (a + 1) d (m(a := d))"

fun stosl :: "nat \<Rightarrow> cuint \<Rightarrow> cuint \<Rightarrow> memory \<Rightarrow> memory" where
  "stosl 0 a w m = m"
| "stosl (Suc k) a w m = stosl k (a + 4) w (store32 a w m)"

text \<open>\<^verbatim>\<open>(int)dst%4 == 0\<close> holds of a negative \<^verbatim>\<open>int\<close> exactly when it holds of the word.\<close>

definition memset :: "cuint \<Rightarrow> cint \<Rightarrow> cuint \<Rightarrow> memory \<Rightarrow> memory" where
  "memset dst c n m =
     (if dst mod 4 = 0 \<and> n mod 4 = 0 then
        let c' = c AND 0xFF in
        stosl (unat (n div 4)) dst
          (push_bit 24 c' OR push_bit 16 c' OR push_bit 8 c' OR c') m
      else stosb (unat n) dst (ucast c) m)"

subsection \<open>memcmp, memmove, memcpy\<close>

fun memcmp_loop :: "nat \<Rightarrow> cuint \<Rightarrow> cuint \<Rightarrow> memory \<Rightarrow> int" where
  "memcmp_loop 0 s1 s2 m = 0"
| "memcmp_loop (Suc k) s1 s2 m =
     (if m s1 \<noteq> m s2 then uint (m s1) - uint (m s2) else memcmp_loop k (s1 + 1) (s2 + 1) m)"

definition memcmp :: "cuint \<Rightarrow> cuint \<Rightarrow> cuint \<Rightarrow> memory \<Rightarrow> int" where
  "memcmp v1 v2 n m = memcmp_loop (unat n) v1 v2 m"

fun copy_up :: "nat \<Rightarrow> cuint \<Rightarrow> cuint \<Rightarrow> memory \<Rightarrow> memory" where
  "copy_up 0 d s m = m"
| "copy_up (Suc k) d s m = copy_up k (d + 1) (s + 1) (m(d := m s))"

fun copy_down :: "nat \<Rightarrow> cuint \<Rightarrow> cuint \<Rightarrow> memory \<Rightarrow> memory" where
  "copy_down 0 d s m = m"
| "copy_down (Suc k) d s m = copy_down k (d - 1) (s - 1) (m(d - 1 := m (s - 1)))"

definition memmove :: "cuint \<Rightarrow> cuint \<Rightarrow> cuint \<Rightarrow> memory \<Rightarrow> memory" where
  "memmove dst src n m =
     (if src < dst \<and> src + n > dst then copy_down (unat n) (dst + n) (src + n) m
      else copy_up (unat n) dst src m)"

definition memcpy :: "cuint \<Rightarrow> cuint \<Rightarrow> cuint \<Rightarrow> memory \<Rightarrow> memory" where
  "memcpy dst src n m = memmove dst src n m"

subsection \<open>Strings\<close>

fun strncmp_loop :: "nat \<Rightarrow> cuint \<Rightarrow> cuint \<Rightarrow> memory \<Rightarrow> int" where
  "strncmp_loop 0 p q m = 0"
| "strncmp_loop (Suc k) p q m =
     (if m p \<noteq> 0 \<and> m p = m q then strncmp_loop k (p + 1) (q + 1) m
      else uint (m p) - uint (m q))"

definition strncmp :: "cuint \<Rightarrow> cuint \<Rightarrow> cuint \<Rightarrow> memory \<Rightarrow> int" where
  "strncmp p q n m = strncmp_loop (unat n) p q m"

fun zero_loop :: "nat \<Rightarrow> cuint \<Rightarrow> memory \<Rightarrow> memory" where
  "zero_loop 0 s m = m"
| "zero_loop (Suc k) s m = zero_loop k (s + 1) (m(s := 0))"

fun strncpy_loop :: "nat \<Rightarrow> cuint \<Rightarrow> cuint \<Rightarrow> memory \<Rightarrow> memory" where
  "strncpy_loop 0 s t m = m"
| "strncpy_loop (Suc k) s t m =
     (let m1 = m(s := m t) in
      if m t \<noteq> 0 then strncpy_loop k (s + 1) (t + 1) m1 else zero_loop k (s + 1) m1)"

definition strncpy :: "cuint \<Rightarrow> cuint \<Rightarrow> cint \<Rightarrow> memory \<Rightarrow> memory" where
  "strncpy s t n m = strncpy_loop (nat (sint n)) s t m"

fun safestrcpy_loop :: "nat \<Rightarrow> cuint \<Rightarrow> cuint \<Rightarrow> memory \<Rightarrow> memory" where
  "safestrcpy_loop 0 s t m = m(s := 0)"
| "safestrcpy_loop (Suc k) s t m =
     (let m1 = m(s := m t) in
      if m t \<noteq> 0 then safestrcpy_loop k (s + 1) (t + 1) m1 else m1(s + 1 := 0))"

definition safestrcpy :: "cuint \<Rightarrow> cuint \<Rightarrow> cint \<Rightarrow> memory \<Rightarrow> memory" where
  "safestrcpy s t n m =
     (if sint n \<le> 0 then m else safestrcpy_loop (nat (sint n - 1)) s t m)"

text \<open>A string with no NUL anywhere makes \<^verbatim>\<open>strlen\<close> run forever, hence \<open>option\<close>.\<close>

partial_function (option) strlen_from :: "memory \<Rightarrow> cuint \<Rightarrow> cint \<Rightarrow> cint option" where
  "strlen_from m s n = (if m (s + n) = 0 then Some n else strlen_from m s (n + 1))"

definition strlen :: "memory \<Rightarrow> cuint \<Rightarrow> cint option" where
  "strlen m s = strlen_from m s 0"

subsection \<open>Address arithmetic\<close>

lemma unat_diff_succ: "x \<noteq> a \<Longrightarrow> unat (x - (a + 1)) = unat (x - a) - 1" for x a :: cuint
proof -
  assume "x \<noteq> a"
  then have "x - a \<noteq> 0" by simp
  then have "unat (x - a - 1) = unat (x - a) - 1" by (simp add: unat_minus_one)
  then show ?thesis by (simp add: algebra_simps)
qed

lemma unat_diff_pos: "x \<noteq> a \<Longrightarrow> 0 < unat (x - a)" for x a :: cuint
  by (simp add: unat_gt_0)

lemma unat_lt_2_32: "unat (x :: cuint) < 2 ^ 32"
  by (rule order_less_le_trans[OF unsigned_less]) simp

subsection \<open>memset fills\<close>

lemma stosb_eq: "k \<le> 2 ^ 32 \<Longrightarrow> stosb k a d m = (\<lambda>x. if unat (x - a) < k then d else m x)"
proof (induction k arbitrary: a m)
  case 0
  then show ?case by simp
next
  case (Suc k)
  have "(if unat (x - (a + 1)) < k then d else (m(a := d)) x) = (if unat (x - a) < Suc k then d else m x)"
    for x
  proof (cases "x = a")
    case True
    then show ?thesis by simp
  next
    case False
    then show ?thesis using unat_diff_succ[OF False] unat_diff_pos[OF False] by auto
  qed
  with Suc show ?case by simp
qed

lemma stosb_add: "stosb (j + k) a d m = stosb k (a + of_nat j) d (stosb j a d m)"
  by (induction j arbitrary: a m) (simp_all add: algebra_simps)

lemma stosb_4: "stosb 4 a d m = m(a := d, a + 1 := d, a + 2 := d, a + 3 := d)"
  by (simp add: eval_nat_numeral add.assoc)

lemma stosl_stosb:
  assumes "ucast w = d" "ucast (drop_bit 8 w) = d" "ucast (drop_bit 16 w) = d"
    "ucast (drop_bit 24 w) = (d :: cchar)"
  shows "stosl k a w m = stosb (4 * k) a d m"
proof (induction k arbitrary: a m)
  case 0
  then show ?case by simp
next
  case (Suc k)
  have "store32 a w m = stosb 4 a d m"
    by (simp only: store32_def assms stosb_4)
  moreover have "4 * Suc k = 4 + 4 * k" by simp
  ultimately show ?case by (simp only: stosl.simps Suc.IH stosb_add) simp
qed

lemma mask_255: "(0xFF :: cuint) = mask 8"
  by (simp add: mask_eq_exp_minus_1)

lemma fill_word_bytes:
  fixes c :: cint
  defines "w \<equiv> push_bit 24 (c AND 0xFF) OR push_bit 16 (c AND 0xFF) OR push_bit 8 (c AND 0xFF) OR (c AND 0xFF)"
  shows "(ucast w :: cchar) = ucast c" "(ucast (drop_bit 8 w) :: cchar) = ucast c"
    "(ucast (drop_bit 16 w) :: cchar) = ucast c" "(ucast (drop_bit 24 w) :: cchar) = ucast c"
  unfolding w_def mask_255 take_bit_eq_mask[symmetric]
  by (rule bit_word_eqI; auto simp: bit_simps)+

lemma unat_div4: "n mod 4 = 0 \<Longrightarrow> 4 * unat (n div 4) = unat n" for n :: cuint
proof -
  assume "n mod 4 = 0"
  then have "unat n mod 4 = 0" using unat_mod[of n 4] by simp
  then show ?thesis by (simp add: unat_div) presburger
qed

text \<open>
  Both paths of \<^verbatim>\<open>memset\<close>, the byte loop and the word loop for aligned regions,
  store the low byte of \<open>c\<close> in exactly the \<open>n\<close> bytes from \<open>dst\<close> (modulo the address
  space) and nothing else.
\<close>

lemma memset_fills:
  "memset dst c n m = (\<lambda>x. if unat (x - dst) < unat n then ucast c else m x)"
proof -
  have u: "unat n \<le> 2 ^ 32" using unat_lt_2_32[of n] by simp
  show ?thesis
    using stosb_eq[OF u] stosl_stosb[OF fill_word_bytes] unat_div4[of n]
    by (simp add: memset_def Let_def)
qed

subsection \<open>memmove copies, overlap or not\<close>

lemma copy_up_eq:
  assumes "d = s \<or> k \<le> unat (d - s)"
  shows "copy_up k d s m = (\<lambda>x. if unat (x - d) < k then m (s + (x - d)) else m x)"
  using assms
proof (induction k arbitrary: d s m)
  case 0
  then show ?case by simp
next
  case (Suc k)
  from Suc.prems have "d + 1 = s + 1 \<or> k \<le> unat ((d + 1) - (s + 1))" by auto
  note IH = Suc.IH[OF this, of "m(d := m s)"]
  have "(if unat (x - (d + 1)) < k then (m(d := m s)) (s + 1 + (x - (d + 1))) else (m(d := m s)) x)
      = (if unat (x - d) < Suc k then m (s + (x - d)) else m x)" for x
  proof (cases "x = d")
    case True
    have "s + 1 + (d - (d + 1)) = s" by simp
    with True show ?thesis by simp
  next
    case False
    have e: "s + 1 + (x - (d + 1)) = s + (x - d)" by (simp add: algebra_simps)
    have ne: "s + (x - d) \<noteq> d \<or> d = s" if "unat (x - d) < Suc k"
    proof (rule ccontr)
      assume "\<not> ?thesis"
      then have "x - d = d - s" "d \<noteq> s" by (auto simp: algebra_simps)
      with that Suc.prems show False by simp
    qed
    show ?thesis
      using ne unat_diff_succ[OF False] unat_diff_pos[OF False] False
      by (auto simp: e)
  qed
  then show ?case unfolding copy_up.simps IH by (rule ext)
qed

lemma unat_of_nat_lt: "k < 2 ^ 32 \<Longrightarrow> unat (of_nat k :: cuint) = k"
  by (simp add: unat_of_nat)

lemma copy_down_eq:
  assumes "d = s \<or> k \<le> unat (s - d)" and "k \<le> 2 ^ 32"
  shows "copy_down k (d + of_nat k) (s + of_nat k) m =
    (\<lambda>x. if unat (x - d) < k then m (s + (x - d)) else m x)"
  using assms
proof (induction k arbitrary: m)
  case 0
  then show ?case by simp
next
  case (Suc k)
  let ?k = "of_nat k :: cuint"
  have k: "unat ?k = k" using Suc.prems(2) by (intro unat_of_nat_lt) simp
  have dd: "d + of_nat (Suc k) - 1 = d + ?k" "s + of_nat (Suc k) - 1 = s + ?k" by simp_all
  have IH: "copy_down k (d + ?k) (s + ?k) m' =
    (\<lambda>x. if unat (x - d) < k then m' (s + (x - d)) else m' x)" for m'
    using Suc by auto
  have "(if unat (x - d) < k then (m(d + ?k := m (s + ?k))) (s + (x - d)) else (m(d + ?k := m (s + ?k))) x)
      = (if unat (x - d) < Suc k then m (s + (x - d)) else m x)" for x
  proof (cases "x = d + ?k")
    case True
    then show ?thesis using k by simp
  next
    case False
    have nk: "unat (x - d) \<noteq> k"
    proof
      assume "unat (x - d) = k"
      then have "x - d = ?k" by auto
      with False show False by (simp add: algebra_simps)
    qed
    have "s + (x - d) \<noteq> d + ?k" if h: "unat (x - d) < k"
    proof
      assume "s + (x - d) = d + ?k"
      then have e: "s - d = ?k - (x - d)" by (simp add: algebra_simps)
      have "x - d \<le> ?k" using h k by (simp add: word_le_nat_alt)
      then have "unat (s - d) = k - unat (x - d)" unfolding e by (simp only: unat_sub k)
      then show False using Suc.prems(1) h by auto
    qed
    then show ?thesis using nk False by auto
  qed
  with IH show ?case by (simp add: dd)
qed

text \<open>
  C24. \<^verbatim>\<open>memmove\<close> copies the \<open>n\<close> bytes at \<open>src\<close> to \<open>dst\<close> as they were before the
  call, whether or not the two regions overlap, and changes no other byte, for regions that
  do not run past the top of the address space.
\<close>

theorem memmove_copies:
  assumes "unat src + unat n < 2 ^ 32" and "unat dst + unat n < 2 ^ 32"
  shows "memmove dst src n m =
    (\<lambda>x. if unat (x - dst) < unat n then m (src + (x - dst)) else m x)"
proof -
  have sn: "unat (src + n) = unat src + unat n"
    using assms(1) by (simp add: unat_word_ariths)
  have sub: "unat (b - a) = 2 ^ 32 + unat b - unat a" if "b < a" for a b :: cuint
    using that by (simp add: unat_sub_if' word_less_nat_alt word_le_nat_alt)
  show ?thesis
  proof (cases "src < dst \<and> src + n > dst")
    case True
    then have "unat n \<le> unat (src - dst)" using sub[of src dst] assms(2) by simp
    then show ?thesis
      using True copy_down_eq[of dst src "unat n" m] unat_lt_2_32[of n] by (simp add: memmove_def)
  next
    case False
    then have "dst = src \<or> unat n \<le> unat (dst - src)"
    proof (cases "dst < src")
      case True
      then have "unat (dst - src) = 2 ^ 32 + unat dst - unat src" by (rule sub)
      then show ?thesis using assms(1) by linarith
    next
      case nlt: False
      show ?thesis
      proof (cases "dst = src")
        case ne: False
        with nlt False have "src \<le> dst" "\<not> src + n > dst" by auto
        then have "unat (dst - src) = unat dst - unat src" "unat src + unat n \<le> unat dst"
          using sn by (auto simp: unat_sub word_less_nat_alt)
        then show ?thesis by linarith
      qed simp
    qed
    then show ?thesis using False copy_up_eq[of dst src "unat n" m] by (auto simp: memmove_def)
  qed
qed

subsection \<open>Loads and stores\<close>

lemma addr_neq [simp]:
  "a + 1 \<noteq> a" "a + 2 \<noteq> a" "a + 3 \<noteq> a" "a \<noteq> a + 1" "a \<noteq> a + 2" "a \<noteq> a + 3"
  "a + 1 \<noteq> a + 2" "a + 1 \<noteq> a + 3" "a + 2 \<noteq> a + 3" "a + 2 \<noteq> a + 1" "a + 3 \<noteq> a + 1" "a + 3 \<noteq> a + 2"
  for a :: cuint
  by simp_all

lemma load32_store32: "load32 (store32 a w m) a = w"
proof (rule bit_word_eqI)
  fix n assume "n < LENGTH(32)"
  then consider "n < 8" | "8 \<le> n" "n < 16" | "16 \<le> n" "n < 24" | "24 \<le> n" "n < 32" by fastforce
  then show "bit (load32 (store32 a w m) a) n = bit w n"
    by cases (auto simp: load32_def store32_def bit_simps)
qed

lemma store32_other: "4 \<le> unat (x - a) \<Longrightarrow> store32 a w m x = m x"
proof -
  assume h: "4 \<le> unat (x - a)"
  have "x \<noteq> a + of_nat i" if "i < 4" for i
  proof
    assume "x = a + of_nat i"
    then have "unat (x - a) = i" using that by (simp add: unat_of_nat_lt)
    with h that show False by simp
  qed
  from this[of 0] this[of 1] this[of 2] this[of 3] show ?thesis by (simp add: store32_def)
qed

lemma load32_cong: "(\<And>i. i < 4 \<Longrightarrow> m (a + of_nat i) = m' (a + of_nat i)) \<Longrightarrow> load32 m a = load32 m' a"
proof -
  assume h: "\<And>i. i < 4 \<Longrightarrow> m (a + of_nat i) = m' (a + of_nat i)"
  from h[of 0] h[of 1] h[of 2] h[of 3] show ?thesis by (simp add: load32_def)
qed

subsection \<open>Bounded strings\<close>

lemma of_nat_Suc_addr: "s + 1 + of_nat i = s + of_nat (Suc i)" for s :: cuint
  by simp

text \<open>
  C25. \<^verbatim>\<open>strncmp(p, q, n)\<close> is zero exactly when the two strings agree on their first
  \<open>n\<close> bytes or up to the first NUL of \<open>p\<close>; \<^verbatim>\<open>namecmp\<close> of fs.c relies on this for
  directory entries that fill all \<^verbatim>\<open>DIRSIZ\<close> bytes and have no NUL.
\<close>

theorem strncmp_zero_iff:
  "strncmp p q n m = 0 \<longleftrightarrow>
     (\<forall>i < unat n. (\<forall>j < i. m (p + of_nat j) \<noteq> 0) \<longrightarrow> m (p + of_nat i) = m (q + of_nat i))"
proof -
  have "strncmp_loop k p q m = 0 \<longleftrightarrow>
     (\<forall>i < k. (\<forall>j < i. m (p + of_nat j) \<noteq> 0) \<longrightarrow> m (p + of_nat i) = m (q + of_nat i))" for k
  proof (induction k arbitrary: p q)
    case 0
    then show ?case by simp
  next
    case (Suc k)
    have all: "(\<forall>i < Suc k. P i) \<longleftrightarrow> P 0 \<and> (\<forall>i < k. P (Suc i))" for P :: "nat \<Rightarrow> bool"
      by (auto simp: less_Suc_eq_0_disj)
    have ex: "(\<forall>j < Suc i. P j) \<longleftrightarrow> P 0 \<and> (\<forall>j < i. P (Suc j))" for P :: "nat \<Rightarrow> bool" and i
      by (auto simp: less_Suc_eq_0_disj)
    have diff: "uint (m p) - uint (m q) = 0 \<longleftrightarrow> m p = m q" by (simp add: word_uint_eq_iff)
    have "(\<forall>i < Suc k. (\<forall>j < i. m (p + of_nat j) \<noteq> 0) \<longrightarrow> m (p + of_nat i) = m (q + of_nat i))
        \<longleftrightarrow> m p = m q \<and> (m p \<noteq> 0 \<longrightarrow> strncmp_loop k (p + 1) (q + 1) m = 0)"
      unfolding Suc.IH all ex by (simp add: add.assoc) blast
    then show ?case using diff by (cases "m p \<noteq> 0 \<and> m p = m q") auto
  qed
  then show ?thesis by (simp add: strncmp_def)
qed

lemma safestrcpy_loop_ok:
  assumes "k < 2 ^ 32 - 1"
  shows "(\<exists>i \<le> k. safestrcpy_loop k s t m (s + of_nat i) = 0) \<and>
    (\<forall>x. k < unat (x - s) \<longrightarrow> safestrcpy_loop k s t m x = m x)"
  using assms
proof (induction k arbitrary: s t m)
  case 0
  then show ?case by auto
next
  case (Suc k)
  show ?case
  proof (cases "m t = 0")
    case True
    have "x \<noteq> s \<and> x \<noteq> s + 1" if "Suc k < unat (x - s)" for x using that by auto
    with True show ?thesis by (auto simp: Let_def intro: exI[where x = 0])
  next
    case False
    define m1 where "m1 = m(s := m t)"
    let ?r = "safestrcpy_loop k (s + 1) (t + 1) m1"
    from Suc.prems have "k < 2 ^ 32 - 1" by simp
    from Suc.IH[OF this, of "s + 1" "t + 1" m1] obtain i where
      i: "i \<le> k" "?r (s + 1 + of_nat i) = 0" and
      o: "\<And>x. k < unat (x - (s + 1)) \<Longrightarrow> ?r x = m1 x" by blast
    have "?r x = m x" if "Suc k < unat (x - s)" for x
    proof -
      from that have "x \<noteq> s" by auto
      with that show ?thesis using o[of x] unat_diff_succ[of x s] by (auto simp: m1_def)
    qed
    moreover have "\<exists>j \<le> Suc k. ?r (s + of_nat j) = 0"
      using i by (intro exI[of _ "Suc i"]) (auto simp: of_nat_Suc_addr simp del: of_nat_Suc)
    ultimately show ?thesis using False by (simp add: Let_def m1_def)
  qed
qed

text \<open>
  C26. \<^verbatim>\<open>safestrcpy\<close> always leaves a NUL-terminated string in its \<open>n\<close>-byte buffer and
  writes nothing outside the buffer, whatever the source string is.
\<close>

theorem safestrcpy_terminates:
  assumes "0 < sint n"
  shows "(\<exists>i < nat (sint n). safestrcpy s t n m (s + of_nat i) = 0) \<and>
    (\<forall>x. nat (sint n) \<le> unat (x - s) \<longrightarrow> safestrcpy s t n m x = m x)"
proof -
  have "sint n < 2 ^ 31" using sint_less[of n] by simp
  with assms have k: "nat (sint n - 1) < 2 ^ 32 - 1" "Suc (nat (sint n - 1)) = nat (sint n)" by auto
  have "i < nat (sint n) \<longleftrightarrow> i \<le> nat (sint n - 1)" "nat (sint n) \<le> i \<longleftrightarrow> nat (sint n - 1) < i" for i
    using k(2) by auto
  with safestrcpy_loop_ok[OF k(1), of s t m] assms show ?thesis by (simp add: safestrcpy_def)
qed

lemma strlen_from_hit:
  assumes "m (s + n + of_nat k) = 0" and "\<forall>i < k. m (s + n + of_nat i) \<noteq> 0"
  shows "strlen_from m s n = Some (n + of_nat k)"
  using assms
proof (induction k arbitrary: n)
  case 0
  then show ?case by (subst strlen_from.simps) simp
next
  case (Suc k)
  from Suc.prems(2)[rule_format, of 0] have "m (s + n) \<noteq> 0" by simp
  moreover have "\<forall>i < k. m (s + (n + 1) + of_nat i) \<noteq> 0"
  proof (intro allI impI)
    fix i assume "i < k"
    with Suc.prems(2) have "m (s + n + of_nat (Suc i)) \<noteq> 0" by blast
    then show "m (s + (n + 1) + of_nat i) \<noteq> 0" by (simp add: algebra_simps)
  qed
  moreover have "m (s + (n + 1) + of_nat k) = 0" using Suc.prems(1) by (simp add: algebra_simps)
  ultimately have "strlen_from m s (n + 1) = Some (n + 1 + of_nat k)" by (intro Suc.IH)
  with \<open>m (s + n) \<noteq> 0\<close> show ?case by (subst strlen_from.simps) (simp add: algebra_simps)
qed

text \<open>
  \<^verbatim>\<open>strlen\<close> of a NUL-terminated string returns, and returns the distance to the
  first NUL.
\<close>

lemma strlen_first_nul:
  assumes "m (s + of_nat k) = 0" and "\<forall>i < k. m (s + of_nat i) \<noteq> 0"
  shows "strlen m s = Some (of_nat k)"
  using strlen_from_hit[of m s 0 k] assms by (simp add: strlen_def)

subsection \<open>Witnesses\<close>

theorem memmove_copies_witness:
  "memmove 0x1001 0x1000 3 (\<lambda>x. ucast x) 0x1003 = (2 :: cchar)"
  using memmove_copies[of "0x1000" 3 "0x1001" "\<lambda>x. ucast x"] by simp

theorem strncmp_zero_iff_witness:
  "strncmp 0x100 0x200 2 ((\<lambda>_. 0)(0x100 := 97, 0x200 := 97)) = 0 \<and>
   strncmp 0x100 0x200 2 ((\<lambda>_. 0)(0x100 := 97)) \<noteq> 0"
proof -
  have two: "(\<forall>i < unat (2 :: cuint). P i) \<longleftrightarrow> P 0 \<and> P 1" for P :: "nat \<Rightarrow> bool"
  proof -
    have "i < unat (2 :: cuint) \<longleftrightarrow> i = 0 \<or> i = 1" for i by auto
    then show ?thesis by auto
  qed
  show ?thesis unfolding strncmp_zero_iff two by simp
qed

theorem safestrcpy_terminates_witness:
  "\<exists>i < 16. safestrcpy 0x100 0x200 16 (\<lambda>_. 65) (0x100 + of_nat i) = 0"
  using safestrcpy_terminates[of 16 "0x100" "0x200" "\<lambda>_. 65"] by auto

end
