(* ===== verification/Memlayout.thy ===== *)
theory Memlayout
  imports KString
begin

unbundle bit_operations_syntax

section \<open>Address arithmetic of memlayout.h and mmu.h\<close>

text \<open>The constants and macros that kalloc.c and vm.c use, on 32-bit words.\<close>

definition EXTMEM :: cuint where "EXTMEM = 0x100000"
definition PHYSTOP :: cuint where "PHYSTOP = 0xE000000"
definition DEVSPACE :: cuint where "DEVSPACE = 0xFE000000"
definition KERNBASE :: cuint where "KERNBASE = 0x80000000"
definition KERNLINK :: cuint where "KERNLINK = KERNBASE + EXTMEM"

definition V2P :: "cuint \<Rightarrow> cuint" where "V2P a = a - KERNBASE"
definition P2V :: "cuint \<Rightarrow> cuint" where "P2V a = a + KERNBASE"

definition PGSIZE :: cuint where "PGSIZE = 4096"
definition NPDENTRIES :: nat where "NPDENTRIES = 1024"

definition PDX :: "cuint \<Rightarrow> cuint" where "PDX va = drop_bit 22 va AND 0x3FF"
definition PTX :: "cuint \<Rightarrow> cuint" where "PTX va = drop_bit 12 va AND 0x3FF"
definition PGADDR :: "cuint \<Rightarrow> cuint \<Rightarrow> cuint \<Rightarrow> cuint" where
  "PGADDR d t off = push_bit 22 d OR push_bit 12 t OR off"

definition PGROUNDUP :: "cuint \<Rightarrow> cuint" where
  "PGROUNDUP sz = (sz + PGSIZE - 1) AND NOT (PGSIZE - 1)"
definition PGROUNDDOWN :: "cuint \<Rightarrow> cuint" where
  "PGROUNDDOWN a = a AND NOT (PGSIZE - 1)"

definition PTE_P :: cuint where "PTE_P = 0x001"
definition PTE_W :: cuint where "PTE_W = 0x002"
definition PTE_U :: cuint where "PTE_U = 0x004"
definition PTE_ADDR :: "cuint \<Rightarrow> cuint" where "PTE_ADDR pte = pte AND NOT 0xFFF"
definition PTE_FLAGS :: "cuint \<Rightarrow> cuint" where "PTE_FLAGS pte = pte AND 0xFFF"

subsection \<open>Rounding\<close>

lemma mask_12: "(0xFFF :: cuint) = mask 12" "PGSIZE - 1 = mask 12"
  by (simp_all add: mask_eq_exp_minus_1 PGSIZE_def)

lemma unat_and_not_mask12: "unat (a AND NOT (mask 12)) = 4096 * (unat a div 4096)" for a :: cuint
proof -
  have "a AND NOT (mask 12) = push_bit 12 (drop_bit 12 a)"
    by (rule bit_word_eqI) (auto simp: bit_simps)
  moreover have "unat (push_bit 12 (drop_bit 12 a)) = 4096 * (unat a div 4096)"
  proof -
    have "unat (drop_bit 12 a) = unat a div 4096" by (simp add: drop_bit_eq_div unat_div)
    moreover have "unat a div 4096 * 4096 < 2 ^ 32"
      using unat_lt_2_32[of a] by (meson div_times_less_eq_dividend le_less_trans)
    ultimately show ?thesis
      by (simp add: push_bit_eq_mult unat_word_ariths mult.commute)
  qed
  ultimately show ?thesis by simp
qed

lemma unat_PGROUNDDOWN: "unat (PGROUNDDOWN a) = 4096 * (unat a div 4096)"
  unfolding PGROUNDDOWN_def mask_12 by (rule unat_and_not_mask12)

lemma unat_PGROUNDUP:
  assumes "unat a + 4095 < 2 ^ 32"
  shows "unat (PGROUNDUP a) = 4096 * ((unat a + 4095) div 4096)"
proof -
  have e: "a + PGSIZE - 1 = a + 4095" by (simp add: PGSIZE_def)
  have "unat (a + 4095) = unat a + 4095" using assms by (simp add: unat_word_ariths)
  then show ?thesis unfolding PGROUNDUP_def mask_12 e by (simp add: unat_and_not_mask12)
qed

definition page_aligned :: "cuint \<Rightarrow> bool" where
  "page_aligned a \<longleftrightarrow> a mod PGSIZE = 0"

lemma page_aligned_unat: "page_aligned a \<longleftrightarrow> unat a mod 4096 = 0"
proof -
  have "a mod 4096 = 0 \<longleftrightarrow> unat (a mod 4096) = 0" by (simp add: unat_eq_0)
  then show ?thesis by (simp add: page_aligned_def PGSIZE_def unat_mod)
qed

lemma page_aligned_PGROUNDDOWN [simp]: "page_aligned (PGROUNDDOWN a)"
  by (simp add: page_aligned_unat unat_PGROUNDDOWN)

lemma page_aligned_PGROUNDUP [simp]: "page_aligned (PGROUNDUP a)"
proof -
  have "unat ((a + PGSIZE - 1) AND NOT (PGSIZE - 1)) = 4096 * (unat (a + PGSIZE - 1) div 4096)"
    unfolding mask_12 by (rule unat_and_not_mask12)
  then show ?thesis by (simp add: page_aligned_unat PGROUNDUP_def)
qed

text \<open>Distinct pages are disjoint.\<close>

lemma page_disjoint:
  assumes "page_aligned p" and "page_aligned q" and "p \<noteq> q" and "unat (x - p) < 4096"
  shows "4096 \<le> unat (x - q)"
proof (rule ccontr)
  assume "\<not> ?thesis"
  then have xq: "unat (x - q) < 4096" by simp
  obtain i where i: "unat p = 4096 * i" using assms(1) by (auto simp: page_aligned_unat)
  obtain j where j: "unat q = 4096 * j" using assms(2) by (auto simp: page_aligned_unat)
  have add: "unat (b + d) = unat b + unat d" if "unat b = 4096 * n" "unat d < 4096" for b d :: cuint and n
  proof -
    have "unat b < 2 ^ 32" by (rule unat_lt_2_32)
    with that have "unat b + unat d < 2 ^ 32" by simp
    then show ?thesis by (simp add: unat_word_ariths)
  qed
  have "unat x = unat (x - p) + 4096 * i" using add[of p i "x - p"] i assms(4) by simp
  then have "unat x div 4096 = i" using assms(4) by simp
  moreover have "unat x = unat (x - q) + 4096 * j" using add[of q j "x - q"] j xq by simp
  then have "unat x div 4096 = j" using xq by simp
  ultimately have "i = j" by simp
  then have "unat p = unat q" using i j by simp
  then show False using assms(3) by (simp add: word_unat_eq_iff)
qed

lemma unat_add_PGSIZE: "unat x + 4096 < 2 ^ 32 \<Longrightarrow> unat (x + PGSIZE) = unat x + 4096"
  by (simp add: PGSIZE_def unat_word_ariths)

end
