(* ===== verification/Kalloc.thy ===== *)
theory Kalloc
  imports Spinlock Memlayout
begin

section \<open>Physical page allocator (kalloc.c)\<close>

text \<open>
  The allocator keeps free pages on a list threaded through the pages themselves: the first
  word of a free page is the address of the next one.  The state adds kernel memory, the list
  head \<^verbatim>\<open>kmem.freelist\<close>, \<^verbatim>\<open>kmem.use_lock\<close> and \<^verbatim>\<open>end\<close>, the first address
  after the kernel image, which the linker provides.
\<close>

subsection \<open>State and operations\<close>

record kmem_state = machine +
  mem :: memory
  freelist :: cuint
  use_lock :: cint
  kend :: cuint

definition kmem_acquire :: "8 word \<Rightarrow> 'a kmem_state_scheme \<Rightarrow> 'a kmem_state_scheme res" where
  "kmem_acquire a s = (if use_lock s \<noteq> 0 then acquire a L_kmem s else Inr s)"

definition kmem_release :: "8 word \<Rightarrow> 'a kmem_state_scheme \<Rightarrow> 'a kmem_state_scheme res" where
  "kmem_release a s = (if use_lock s \<noteq> 0 then release a L_kmem s else Inr s)"

definition kfree :: "8 word \<Rightarrow> cuint \<Rightarrow> 'a kmem_state_scheme \<Rightarrow> 'a kmem_state_scheme res" where
  "kfree a v s =
     (if v mod PGSIZE \<noteq> 0 \<or> v < kend s \<or> V2P v \<ge> PHYSTOP then Inl (Panic ''kfree'')
      else
        let s1 = s\<lparr>mem := memset v 1 PGSIZE (mem s)\<rparr> in
        bindR (kmem_acquire a s1) (\<lambda>s2.
        let s3 = s2\<lparr>mem := store32 v (freelist s2) (mem s2)\<rparr>;
            s4 = s3\<lparr>freelist := v\<rparr>
        in kmem_release a s4))"

definition kalloc :: "8 word \<Rightarrow> 'a kmem_state_scheme \<Rightarrow> (cuint \<times> 'a kmem_state_scheme) res" where
  "kalloc a s =
     bindR (kmem_acquire a s) (\<lambda>s1.
       let r = freelist s1;
           s2 = (if r \<noteq> 0 then s1\<lparr>freelist := load32 (mem s1) r\<rparr> else s1)
       in bindR (kmem_release a s2) (\<lambda>s3. Inr (r, s3)))"

text \<open>
  \<^verbatim>\<open>for(; p + PGSIZE <= vend; p += PGSIZE) kfree(p)\<close>.  Each turn that does not panic
  freed a page below \<^verbatim>\<open>P2V(PHYSTOP)\<close>, so the address grows and the loop ends.
\<close>

lemma kfree_Inr_bound: "kfree a v s = Inr s' \<Longrightarrow> V2P v < PHYSTOP \<and> kend s \<le> v \<and> v mod PGSIZE = 0"
  by (auto simp: kfree_def split: if_splits)

function freerange_loop ::
  "8 word \<Rightarrow> cuint \<Rightarrow> cuint \<Rightarrow> 'a kmem_state_scheme \<Rightarrow> 'a kmem_state_scheme res" where
  "freerange_loop a p vend s =
     (if p + PGSIZE \<le> vend
      then bindR (kfree a p s) (\<lambda>s'. freerange_loop a (p + PGSIZE) vend s') else Inr s)"
  by pat_completeness auto
termination
proof (relation "measure (\<lambda>(a, p, vend, s). 2 ^ 32 - unat (p - KERNBASE))", goal_cases)
  case 1
  then show ?case by simp
next
  case (2 a p vend s s')
  from kfree_Inr_bound[OF 2(2)] have "p - KERNBASE < 0xE000000"
    by (simp add: V2P_def PHYSTOP_def)
  then have "unat (p - KERNBASE) < 0xE000000" by (simp add: word_less_nat_alt)
  moreover have "p + PGSIZE - KERNBASE = (p - KERNBASE) + PGSIZE" by simp
  moreover have "unat ((p - KERNBASE) + PGSIZE) = unat (p - KERNBASE) + 4096"
    by (rule unat_add_PGSIZE) (use calculation(1) in simp)
  ultimately show ?case by (simp only: in_measure split_conv) simp
qed

definition freerange ::
  "8 word \<Rightarrow> cuint \<Rightarrow> cuint \<Rightarrow> 'a kmem_state_scheme \<Rightarrow> 'a kmem_state_scheme res" where
  "freerange a vstart vend s = freerange_loop a (PGROUNDUP vstart) vend s"

definition kinit1 ::
  "8 word \<Rightarrow> cuint \<Rightarrow> cuint \<Rightarrow> 'a kmem_state_scheme \<Rightarrow> 'a kmem_state_scheme res" where
  "kinit1 a vstart vend s = freerange a vstart vend ((initlock L_kmem ''kmem'' s)\<lparr>use_lock := 0\<rparr>)"

definition kinit2 ::
  "8 word \<Rightarrow> cuint \<Rightarrow> cuint \<Rightarrow> 'a kmem_state_scheme \<Rightarrow> 'a kmem_state_scheme res" where
  "kinit2 a vstart vend s = bindR (freerange a vstart vend s) (\<lambda>s'. Inr (s'\<lparr>use_lock := 1\<rparr>))"

subsection \<open>The free list\<close>

fun fl_rep :: "memory \<Rightarrow> cuint \<Rightarrow> cuint list \<Rightarrow> bool" where
  "fl_rep m h [] \<longleftrightarrow> h = 0"
| "fl_rep m h (p # ps) \<longleftrightarrow> h = p \<and> p \<noteq> 0 \<and> fl_rep m (load32 m p) ps"

definition page_ok :: "cuint \<Rightarrow> cuint \<Rightarrow> bool" where
  "page_ok e p \<longleftrightarrow> page_aligned p \<and> e \<le> p \<and> V2P p < PHYSTOP"

definition kmem_inv :: "'a kmem_state_scheme \<Rightarrow> cuint list \<Rightarrow> bool" where
  "kmem_inv s ps \<longleftrightarrow> fl_rep (mem s) (freelist s) ps \<and> distinct ps \<and>
     (\<forall>p \<in> set ps. page_ok (kend s) p) \<and> 0 < kend s"

definition kmem_ready :: "8 word \<Rightarrow> 'a kmem_state_scheme \<Rightarrow> bool" where
  "kmem_ready a s \<longleftrightarrow> (use_lock s \<noteq> 0 \<longrightarrow> can_acquire a L_kmem s)"

lemma kmem_more_eq:
  assumes "machine.more s' = machine.more (s :: 'a kmem_state_scheme)"
  shows "mem s' = mem s" "freelist s' = freelist s" "use_lock s' = use_lock s" "kend s' = kend s"
    "kmem_state.more s' = kmem_state.more s"
  using assms by (cases s, cases s', simp)+

lemma same_machine_kmem [simp]:
  "same_machine s (mem_update f s)" "same_machine s (freelist_update g s)"
  by (simp_all add: same_machine_def)

lemma page_addr_in: "i < 4 \<Longrightarrow> unat (p + of_nat i - p) < 4096" for p :: cuint
  by (simp add: unat_of_nat_lt)

lemma fl_rep_frame:
  assumes "fl_rep m h ps" and "\<forall>p \<in> set ps. page_aligned p \<and> p \<noteq> v" and "page_aligned v"
    and "\<And>x. 4096 \<le> unat (x - v) \<Longrightarrow> m' x = m x"
  shows "fl_rep m' h ps"
  using assms(1,2)
proof (induction ps arbitrary: h)
  case Nil
  then show ?case by simp
next
  case (Cons p ps)
  have "load32 m' p = load32 m p"
  proof (rule load32_cong)
    fix i :: nat assume "i < 4"
    then have "4096 \<le> unat (p + of_nat i - v)"
      using page_disjoint[of p v "p + of_nat i"] page_addr_in[of i p] Cons.prems(2) assms(3) by auto
    then show "m' (p + of_nat i) = m (p + of_nat i)" by (rule assms(4))
  qed
  with Cons show ?case by simp
qed

text \<open>A page-sized critical section of the allocator, with or without its lock.\<close>

lemma kmem_critical:
  assumes "kmem_ready a s"
  shows "\<exists>s1. kmem_acquire a s = Inr s1 \<and> machine.more s1 = machine.more s \<and>
    (\<forall>s2. same_machine s1 s2 \<and> use_lock s2 = use_lock s1 \<longrightarrow>
       (\<exists>s3. kmem_release a s2 = Inr s3 \<and> machine.more s3 = machine.more s2 \<and> quiet_eq s s3))"
proof (cases "use_lock s \<noteq> 0")
  case True
  then have "can_acquire a L_kmem s" using assms by (simp add: kmem_ready_def)
  from critical_section[OF this] obtain s1 where s1: "acquire a L_kmem s = Inr s1"
    "machine.more s1 = machine.more s"
    "\<forall>s2. same_machine s1 s2 \<longrightarrow>
       (\<exists>s3. release a L_kmem s2 = Inr s3 \<and> machine.more s3 = machine.more s2 \<and> quiet_eq s s3)"
    by blast
  have "use_lock s1 \<noteq> 0" using kmem_more_eq(3)[OF s1(2)] True by simp
  with True s1 show ?thesis by (intro exI[of _ s1]) (simp add: kmem_acquire_def kmem_release_def)
next
  case False
  then show ?thesis
    by (intro exI[of _ s]) (simp add: kmem_acquire_def kmem_release_def same_machine_quiet)
qed

lemma kfree_pushes:
  assumes inv: "kmem_inv s ps" and r: "kmem_ready a s" and v: "page_ok (kend s) v" "v \<notin> set ps"
  shows "\<exists>s'. kfree a v s = Inr s' \<and> kmem_inv s' (v # ps) \<and> quiet_eq s s' \<and>
    (\<forall>x. 4096 \<le> unat (x - v) \<longrightarrow> mem s' x = mem s x) \<and> use_lock s' = use_lock s \<and>
    kend s' = kend s \<and> kmem_state.more s' = kmem_state.more s"
proof -
  let ?m1 = "memset v 1 PGSIZE (mem s)"
  let ?s0 = "s\<lparr>mem := ?m1\<rparr>"
  have "kmem_ready a ?s0" using r by (simp add: kmem_ready_def can_acquire_def cpu_at_def depth_ok_def)
  from kmem_critical[OF this] obtain s1 where s1: "kmem_acquire a ?s0 = Inr s1"
    "machine.more s1 = machine.more ?s0"
    "\<forall>s2. same_machine s1 s2 \<and> use_lock s2 = use_lock s1 \<longrightarrow>
       (\<exists>s3. kmem_release a s2 = Inr s3 \<and> machine.more s3 = machine.more s2 \<and> quiet_eq ?s0 s3)"
    by blast
  note f1 = kmem_more_eq[OF s1(2)]
  let ?m2 = "store32 v (freelist s) ?m1"
  let ?s2 = "s1\<lparr>mem := ?m2, freelist := v\<rparr>"
  have "same_machine s1 ?s2 \<and> use_lock ?s2 = use_lock s1" by (simp add: same_machine_def)
  from s1(3)[rule_format, OF this] obtain s3 where s3: "kmem_release a ?s2 = Inr s3"
    "machine.more s3 = machine.more ?s2" "quiet_eq ?s0 s3" by auto
  note f3 = kmem_more_eq[OF s3(2)]
  have pc: "\<not> (v mod PGSIZE \<noteq> 0 \<or> v < kend s \<or> V2P v \<ge> PHYSTOP)"
    using v(1) by (auto simp: page_ok_def page_aligned_def)
  have k: "kfree a v s = Inr s3" using pc s1(1) f1 s3(1) by (simp add: kfree_def Let_def)
  have out: "?m2 x = mem s x" if "4096 \<le> unat (x - v)" for x
    using that by (simp add: store32_other memset_fills PGSIZE_def)
  have "fl_rep ?m2 (freelist s) ps"
    by (rule fl_rep_frame[of "mem s" _ _ v]) (use inv v out in \<open>auto simp: kmem_inv_def page_ok_def\<close>)
  moreover have "v \<noteq> 0" using v(1) inv by (auto simp: page_ok_def kmem_inv_def word_le_nat_alt word_less_nat_alt)
  ultimately have "kmem_inv s3 (v # ps)"
    using inv v f3 f1 by (auto simp: kmem_inv_def load32_store32)
  moreover have "quiet_eq s s3" using s3(3) by (simp add: quiet_eq_def)
  ultimately show ?thesis using k f1 f3 out by auto
qed

lemma kalloc_pops:
  assumes inv: "kmem_inv s ps" and r: "kmem_ready a s"
  shows "\<exists>s'. kalloc a s = Inr ((case ps of [] \<Rightarrow> 0 | p # _ \<Rightarrow> p), s') \<and> kmem_inv s' (tl ps) \<and>
    quiet_eq s s' \<and> mem s' = mem s \<and> use_lock s' = use_lock s \<and> kend s' = kend s \<and>
    kmem_state.more s' = kmem_state.more s"
proof -
  from kmem_critical[OF r] obtain s1 where s1: "kmem_acquire a s = Inr s1"
    "machine.more s1 = machine.more s"
    "\<forall>s2. same_machine s1 s2 \<and> use_lock s2 = use_lock s1 \<longrightarrow>
       (\<exists>s3. kmem_release a s2 = Inr s3 \<and> machine.more s3 = machine.more s2 \<and> quiet_eq s s3)"
    by blast
  note f1 = kmem_more_eq[OF s1(2)]
  let ?s2 = "if freelist s \<noteq> 0 then s1\<lparr>freelist := load32 (mem s) (freelist s)\<rparr> else s1"
  have "same_machine s1 ?s2 \<and> use_lock ?s2 = use_lock s1" by (simp add: same_machine_def)
  from s1(3)[rule_format, OF this] obtain s3 where s3: "kmem_release a ?s2 = Inr s3"
    "machine.more s3 = machine.more ?s2" "quiet_eq s s3" by auto
  note f3 = kmem_more_eq[OF s3(2)]
  have k: "kalloc a s = Inr (freelist s, s3)"
    using s1(1) f1 s3(1) by (auto simp: kalloc_def Let_def)
  show ?thesis
  proof (cases ps)
    case Nil
    then have "freelist s = 0" using inv by (simp add: kmem_inv_def)
    then show ?thesis using k f1 f3 inv s3(3) Nil by (auto simp: kmem_inv_def)
  next
    case (Cons p qs)
    then have "freelist s = p" "p \<noteq> 0" "fl_rep (mem s) (load32 (mem s) p) qs"
      using inv by (auto simp: kmem_inv_def)
    then show ?thesis using k f1 f3 inv s3(3) Cons by (auto simp: kmem_inv_def)
  qed
qed

subsection \<open>Filling the list: freerange\<close>

definition whole_pages :: "cuint \<Rightarrow> cuint \<Rightarrow> cuint set" where
  "whole_pages lo hi = {q. page_aligned q \<and> unat lo \<le> unat q \<and> unat q + 4096 \<le> unat hi}"

lemma whole_pages_step:
  assumes "page_aligned p" and "unat p + 4096 \<le> unat hi"
  shows "whole_pages p hi = insert p (whole_pages (p + PGSIZE) hi)"
    and "p \<notin> whole_pages (p + PGSIZE) hi"
proof -
  have "unat hi < 2 ^ 32" by (rule unat_lt_2_32)
  with assms(2) have u: "unat (p + PGSIZE) = unat p + 4096" by (intro unat_add_PGSIZE) linarith
  have step: "unat p + 4096 \<le> unat q" if h: "page_aligned q" "unat p \<le> unat q" "q \<noteq> p" for q
  proof -
    obtain i where i: "unat p = 4096 * i" using assms(1) by (auto simp: page_aligned_unat)
    obtain j where j: "unat q = 4096 * j" using h(1) by (auto simp: page_aligned_unat)
    have "unat p \<noteq> unat q" using h(3) by (auto simp: word_unat_eq_iff)
    with h(2) i j show ?thesis by simp
  qed
  show "whole_pages p hi = insert p (whole_pages (p + PGSIZE) hi)"
    unfolding whole_pages_def u using assms step by auto
  show "p \<notin> whole_pages (p + PGSIZE) hi" by (simp add: whole_pages_def u)
qed

lemma page_aligned_add: "page_aligned p \<Longrightarrow> unat p + 4096 < 2 ^ 32 \<Longrightarrow> page_aligned (p + PGSIZE)"
  by (simp add: page_aligned_unat unat_add_PGSIZE)

lemma freerange_loop_ok:
  assumes "kmem_inv s ps" and "kmem_ready a s" and "page_aligned p" and "kend s \<le> p"
    and "KERNBASE \<le> kend s" and "unat vend \<le> 0x8E000000" and "unat p < unat vend + 4096"
    and "set ps \<inter> whole_pages p vend = {}"
  shows "\<exists>s' qs. freerange_loop a p vend s = Inr s' \<and> kmem_inv s' (qs @ ps) \<and>
    set qs = whole_pages p vend \<and> quiet_eq s s' \<and> kend s' = kend s \<and> use_lock s' = use_lock s"
  using assms
proof (induction a p vend s arbitrary: ps rule: freerange_loop.induct)
  case (1 a p vend s)
  have u: "unat (p + PGSIZE) = unat p + 4096"
    using "1.prems"(6,7) by (intro unat_add_PGSIZE) simp
  show ?case
  proof (cases "p + PGSIZE \<le> vend")
    case True
    then have le: "unat p + 4096 \<le> unat vend" using u by (simp add: word_le_nat_alt)
    have lo: "unat KERNBASE \<le> unat p" using "1.prems"(4,5) by (simp add: word_le_nat_alt)
    then have "unat (V2P p) = unat p - 0x80000000"
      by (simp add: V2P_def unat_sub word_le_nat_alt KERNBASE_def)
    with le "1.prems"(6) lo have "V2P p < PHYSTOP"
      by (simp add: word_less_nat_alt PHYSTOP_def KERNBASE_def)
    then have ok: "page_ok (kend s) p" using "1.prems"(3,4) by (simp add: page_ok_def)
    note wp = whole_pages_step[OF "1.prems"(3) le]
    have "p \<notin> set ps" using "1.prems"(8) wp(1) by auto
    from kfree_pushes[OF "1.prems"(1,2) ok this] obtain s1 where s1:
      "kfree a p s = Inr s1" "kmem_inv s1 (p # ps)" "quiet_eq s s1" "use_lock s1 = use_lock s"
      "kend s1 = kend s" by blast
    have "kmem_ready a s1"
      using "1.prems"(2) s1(3,4) by (simp add: kmem_ready_def quiet_eq_can_acquire)
    moreover have "page_aligned (p + PGSIZE)"
      using "1.prems"(3) le unat_lt_2_32[of vend] by (intro page_aligned_add) auto
    moreover have "kend s1 \<le> p + PGSIZE"
      using s1(5) "1.prems"(4) u by (simp add: word_le_nat_alt)
    moreover have "set (p # ps) \<inter> whole_pages (p + PGSIZE) vend = {}"
      using "1.prems"(8) wp by auto
    ultimately obtain s' qs where r: "freerange_loop a (p + PGSIZE) vend s1 = Inr s'"
      "kmem_inv s' (qs @ p # ps)" "set qs = whole_pages (p + PGSIZE) vend" "quiet_eq s1 s'"
      "kend s' = kend s1" "use_lock s' = use_lock s1"
      using "1.IH"[OF True s1(1), of "p # ps"] s1 u le "1.prems"(5,6) by auto
    have "freerange_loop a p vend s = Inr s'" using True s1(1) r(1) by (subst freerange_loop.simps) simp
    moreover have "kmem_inv s' ((qs @ [p]) @ ps)" using r(2) by simp
    moreover have "set (qs @ [p]) = whole_pages p vend" using r(3) wp(1) by auto
    ultimately show ?thesis using quiet_eq_trans[OF s1(3) r(4)] r(5,6) s1(4,5) by metis
  next
    case False
    then have "whole_pages p vend = {}" using u by (auto simp: whole_pages_def word_le_nat_alt)
    moreover have "freerange_loop a p vend s = Inr s" using False by (subst freerange_loop.simps) simp
    ultimately show ?thesis using "1.prems"(1) by (intro exI[of _ s] exI[of _ "[]"]) simp
  qed
qed

text \<open>
  C15. \<^verbatim>\<open>freerange(vstart, vend)\<close> (and so \<^verbatim>\<open>kinit1\<close> and \<^verbatim>\<open>kinit2\<close>) ends, never
  panics, and puts exactly the whole pages between \<open>vstart\<close> and \<open>vend\<close> on the free list,
  each once, on top of what was there.
\<close>

theorem freerange_frees_pages:
  assumes "kmem_inv s ps" and "kmem_ready a s" and "KERNBASE \<le> kend s" and "kend s \<le> vstart"
    and "vstart \<le> vend" and "unat vend \<le> 0x8E000000"
    and "set ps \<inter> whole_pages (PGROUNDUP vstart) vend = {}"
  shows "\<exists>s' qs. freerange a vstart vend s = Inr s' \<and> kmem_inv s' (qs @ ps) \<and>
    set qs = whole_pages (PGROUNDUP vstart) vend \<and> quiet_eq s s'"
proof -
  have le: "unat vstart \<le> unat vend" using assms(5) by (simp add: word_le_nat_alt)
  then have up: "unat (PGROUNDUP vstart) = 4096 * ((unat vstart + 4095) div 4096)"
    using assms(6) by (intro unat_PGROUNDUP) simp
  have "unat vstart \<le> unat (PGROUNDUP vstart)" "unat (PGROUNDUP vstart) < unat vstart + 4096"
    unfolding up by linarith+
  then have "kend s \<le> PGROUNDUP vstart" "unat (PGROUNDUP vstart) < unat vend + 4096"
    using assms(4) le by (auto simp: word_le_nat_alt)
  with freerange_loop_ok[OF assms(1,2), of "PGROUNDUP vstart" vend] assms show ?thesis
    unfolding freerange_def by fastforce
qed

subsection \<open>The interface the rest of the kernel uses\<close>

text \<open>
  A pool of pages: \<open>inv s ps\<close> says that \<open>ps\<close> are the free pages, the next one to be
  handed out first.  Clients (page tables, kernel stacks, pipes) reason from these laws.
\<close>

locale page_pool =
  fixes ready :: "'s \<Rightarrow> bool" and inv :: "'s \<Rightarrow> cuint list \<Rightarrow> bool"
    and ok :: "'s \<Rightarrow> cuint \<Rightarrow> bool"
    and alloc :: "'s \<Rightarrow> (cuint \<times> 's) res" and free :: "cuint \<Rightarrow> 's \<Rightarrow> 's res"
  assumes inv_distinct: "inv s ps \<Longrightarrow> distinct ps \<and> 0 \<notin> set ps \<and> (\<forall>p \<in> set ps. ok s p)"
    and alloc_law: "inv s ps \<Longrightarrow> ready s \<Longrightarrow>
      \<exists>s'. alloc s = Inr ((case ps of [] \<Rightarrow> 0 | p # _ \<Rightarrow> p), s') \<and> inv s' (tl ps) \<and> ready s' \<and> ok s' = ok s"
    and free_law: "inv s ps \<Longrightarrow> ready s \<Longrightarrow> ok s v \<Longrightarrow> v \<notin> set ps \<Longrightarrow>
      \<exists>s'. free v s = Inr s' \<and> inv s' (v # ps) \<and> ready s' \<and> ok s' = ok s"
begin

lemma free_then_alloc:
  assumes "inv s ps" and "ready s" and "ok s v" and "v \<notin> set ps"
  shows "\<exists>s1 s2. free v s = Inr s1 \<and> alloc s1 = Inr (v, s2) \<and> inv s2 ps"
proof -
  from free_law[OF assms] obtain s1 where s1: "free v s = Inr s1" "inv s1 (v # ps)" "ready s1" by blast
  from alloc_law[OF s1(2,3)] s1(1) show ?thesis by auto
qed

lemma alloc_then_free:
  assumes "inv s (p # ps)" and "ready s"
  shows "\<exists>s1 s2. alloc s = Inr (p, s1) \<and> free p s1 = Inr s2 \<and> inv s2 (p # ps)"
proof -
  from alloc_law[OF assms] obtain s1 where s1: "alloc s = Inr (p, s1)" "inv s1 ps" "ready s1"
    "ok s1 = ok s" by auto
  have "p \<notin> set ps" "ok s1 p" using inv_distinct[OF assms(1)] s1(4) by auto
  from free_law[OF s1(2,3) this(2,1)] s1(1) show ?thesis by auto
qed

end

text \<open>\<open>n\<close> calls of an allocator in a row.\<close>

fun alloc_many :: "('s \<Rightarrow> (cuint \<times> 's) res) \<Rightarrow> nat \<Rightarrow> 's \<Rightarrow> (cuint list \<times> 's) res" where
  "alloc_many f 0 s = Inr ([], s)"
| "alloc_many f (Suc n) s =
     bindR (f s) (\<lambda>(p, s1). bindR (alloc_many f n s1) (\<lambda>(ps, s2). Inr (p # ps, s2)))"

context page_pool
begin

lemma alloc_many_prefix:
  "inv s ps \<Longrightarrow> ready s \<Longrightarrow> n \<le> length ps \<Longrightarrow>
   \<exists>s'. alloc_many alloc n s = Inr (take n ps, s') \<and> inv s' (drop n ps) \<and> ready s'"
proof (induction n arbitrary: s ps)
  case 0
  then show ?case by simp
next
  case (Suc n)
  then obtain p qs where ps: "ps = p # qs" by (cases ps) auto
  from alloc_law[OF Suc.prems(1,2)] ps obtain s1 where s1: "alloc s = Inr (p, s1)" "inv s1 qs"
    "ready s1" by auto
  from Suc.IH[OF s1(2,3)] Suc.prems(3) ps s1(1) show ?case by auto
qed

end

interpretation kpool: page_pool "kmem_ready a" kmem_inv "\<lambda>s. page_ok (kend s)" "kalloc a" "kfree a"
  for a :: "8 word"
proof (unfold_locales, goal_cases)
  case (1 s ps)
  then have "0 \<notin> set ps"
    by (auto simp: kmem_inv_def page_ok_def word_le_nat_alt word_less_nat_alt)
  with 1 show ?case by (simp add: kmem_inv_def)
next
  case (2 s ps)
  from kalloc_pops[OF 2] 2(2) show ?case by (fastforce simp: kmem_ready_def quiet_eq_can_acquire)
next
  case (3 s ps v)
  from kfree_pushes[OF 3] 3(2) show ?case by (fastforce simp: kmem_ready_def quiet_eq_can_acquire)
qed

text \<open>
  C16. The allocator never hands out the same page twice: as long as there are free pages,
  \<open>n\<close> calls of \<^verbatim>\<open>kalloc\<close> in a row succeed and return \<open>n\<close> different, non-null,
  page-aligned pages that lie between the end of the kernel and the top of physical memory,
  and those pages are no longer free.
\<close>

theorem kalloc_distinct_pages:
  assumes "kmem_inv s ps" and "kmem_ready a s" and "n \<le> length ps"
  shows "\<exists>qs s'. alloc_many (kalloc a) n s = Inr (qs, s') \<and> length qs = n \<and> distinct qs \<and> 0 \<notin> set qs \<and>
    (\<forall>q \<in> set qs. page_ok (kend s) q) \<and> kmem_inv s' (drop n ps) \<and> set qs \<inter> set (drop n ps) = {}"
proof -
  from kpool.alloc_many_prefix[OF assms] obtain s' where
    s': "alloc_many (kalloc a) n s = Inr (take n ps, s')" "kmem_inv s' (drop n ps)" by blast
  have d: "distinct ps" "0 \<notin> set ps" "\<forall>p \<in> set ps. page_ok (kend s) p"
    using kpool.inv_distinct[OF assms(1)] by auto
  have "set (take n ps) \<inter> set (drop n ps) = {}" by (rule set_take_disj_set_drop_if_distinct[OF d(1)]) simp
  moreover have "set (take n ps) \<subseteq> set ps" by (rule set_take_subset)
  ultimately show ?thesis using s' d assms(3) by (intro exI[of _ "take n ps"] exI[of _ s']) auto
qed

text \<open>
  C17. Freeing a page and allocating again gives that page back and leaves the other free
  pages as they were; allocating and freeing restores the free list.
\<close>

theorem kfree_kalloc_roundtrip:
  assumes "kmem_inv s ps" and "kmem_ready a s" and "page_ok (kend s) v" and "v \<notin> set ps"
  shows "\<exists>s1 s2 s3. kfree a v s = Inr s1 \<and> kalloc a s1 = Inr (v, s2) \<and> kmem_inv s2 ps \<and>
    kfree a v s2 = Inr s3 \<and> kmem_inv s3 (v # ps)"
proof -
  from kpool.free_law[OF assms] obtain s1 where
    s1: "kfree a v s = Inr s1" "kmem_inv s1 (v # ps)" "kmem_ready a s1" by blast
  from kpool.alloc_then_free[OF s1(2,3)] kpool.free_then_alloc[OF assms] s1(1) show ?thesis by auto
qed

subsection \<open>Witnesses\<close>

definition kmem0 :: kmem_state where
  "kmem0 = machine.extend two_cpus (kmem_state.fields (\<lambda>_. 0) 0 1 0x80100000)"

lemma kmem0_sel [simp]:
  "cpus kmem0 = cpus two_cpus" "ncpu kmem0 = ncpu two_cpus" "hw_if kmem0 = hw_if two_cpus"
  "locks kmem0 = locks two_cpus" "mem kmem0 = (\<lambda>_. 0)" "freelist kmem0 = 0" "use_lock kmem0 = 1"
  "kend kmem0 = 0x80100000"
  by (simp_all add: kmem0_def machine.extend_def kmem_state.fields_def)

lemma kmem0_inv: "kmem_inv kmem0 []"
  by (simp add: kmem_inv_def)

lemma kmem0_ready: "kmem_ready 0 kmem0"
proof -
  have "cpu_at 0 kmem0 = Some 0" using two_cpus_at(1) by (simp add: cpu_at_def)
  then show ?thesis by (simp add: kmem_ready_def can_acquire_def depth_ok_def two_cpus_def)
qed

lemma page_ok_example: "page_ok (kend kmem0) 0x80200000"
  by (simp add: page_ok_def page_aligned_def PGSIZE_def V2P_def KERNBASE_def PHYSTOP_def)

theorem kfree_kalloc_roundtrip_witness:
  "\<exists>s1 s2. kfree 0 0x80200000 kmem0 = Inr s1 \<and> kalloc 0 s1 = Inr (0x80200000, s2)"
  using kfree_kalloc_roundtrip[OF kmem0_inv kmem0_ready page_ok_example] by auto

theorem freerange_frees_pages_witness:
  "\<exists>s' qs. freerange 0 0x80100000 0x80104000 kmem0 = Inr s' \<and> kmem_inv s' qs \<and>
     set qs = whole_pages (PGROUNDUP 0x80100000) 0x80104000"
  using freerange_frees_pages[OF kmem0_inv kmem0_ready, of "0x80100000" "0x80104000"]
  by (simp add: KERNBASE_def) blast

theorem kalloc_distinct_pages_witness:
  "\<exists>(s :: kmem_state) ps. kmem_inv s ps \<and> length ps = 1 \<and> (\<exists>qs s'. alloc_many (kalloc 0) 1 s = Inr (qs, s') \<and> length qs = 1)"
proof -
  from kpool.free_law[OF kmem0_inv kmem0_ready page_ok_example] obtain s :: kmem_state where
    s: "kmem_inv s [0x80200000]" "kmem_ready 0 s" by auto
  from kalloc_distinct_pages[OF s, of 1] have
    "\<exists>qs s'. alloc_many (kalloc 0) 1 s = Inr (qs, s') \<and> length qs = 1" by auto
  with s(1) show ?thesis by (intro exI[of _ s] exI[of _ "[0x80200000]"]) simp
qed

end
