(* ===== verification/Vm.thy ===== *)
theory Vm
  imports Kalloc
begin

section \<open>Page tables (vm.c)\<close>

text \<open>
  Page directories and page tables are pages of kernel memory; an entry is the 32-bit word at
  its address, and null is address 0.  The state adds \<^verbatim>\<open>kpgdir\<close>, the page-table register
  of each CPU and \<^verbatim>\<open>data\<close>, the address of the kernel's data segment, which the linker
  provides.  Segment descriptors and the messages that \<^verbatim>\<open>allocuvm\<close> prints when memory
  runs out are not part of the model.

  Loops over addresses step by \<^verbatim>\<open>PGSIZE\<close>.  A step that would wrap around the address
  space, after which the C loop would start over, is \<open>Diverges\<close>.
\<close>

record vm_state = kmem_state +
  kpgdir :: cuint
  cr3 :: "8 word \<Rightarrow> cuint"
  data_seg :: cuint

subsection \<open>Operations\<close>

definition walkpgdir ::
  "8 word \<Rightarrow> cuint \<Rightarrow> cuint \<Rightarrow> bool \<Rightarrow> 'a kmem_state_scheme \<Rightarrow> (cuint \<times> 'a kmem_state_scheme) res" where
  "walkpgdir a pgdir va alloc s =
     (let pde = pgdir + 4 * PDX va; e = load32 (mem s) pde in
      if e AND PTE_P \<noteq> 0 then Inr (P2V (PTE_ADDR e) + 4 * PTX va, s)
      else if \<not> alloc then Inr (0, s)
      else bindR (kalloc a s) (\<lambda>(pgtab, s1).
        if pgtab = 0 then Inr (0, s1)
        else
          let s2 = s1\<lparr>mem := memset pgtab 0 PGSIZE (mem s1)\<rparr>;
              s3 = s2\<lparr>mem := store32 pde (V2P pgtab OR PTE_P OR PTE_W OR PTE_U) (mem s2)\<rparr>
          in Inr (pgtab + 4 * PTX va, s3)))"

function mappages_loop ::
  "8 word \<Rightarrow> cuint \<Rightarrow> cuint \<Rightarrow> cuint \<Rightarrow> cuint \<Rightarrow> cuint \<Rightarrow> 'a kmem_state_scheme \<Rightarrow>
   (cint \<times> 'a kmem_state_scheme) res" where
  "mappages_loop c pgdir a last_a pa perm s =
     bindR (walkpgdir c pgdir a True s) (\<lambda>(pte, s1).
       if pte = 0 then Inr (-1, s1)
       else if load32 (mem s1) pte AND PTE_P \<noteq> 0 then Inl (Panic ''remap'')
       else
         let s2 = s1\<lparr>mem := store32 pte (pa OR perm OR PTE_P) (mem s1)\<rparr> in
         if a = last_a then Inr (0, s2)
         else if last_a - a < PGSIZE then Inl Diverges
         else mappages_loop c pgdir (a + PGSIZE) last_a (pa + PGSIZE) perm s2)"
  by pat_completeness auto
termination
proof (relation "measure (\<lambda>(c, pgdir, a, last_a, pa, perm, s). unat (last_a - a))", goal_cases)
  case 1
  then show ?case by simp
next
  case (2 c pgdir a last_a pa perm s x pte s1 s2)
  then have h: "4096 \<le> last_a - a" by (simp add: PGSIZE_def not_less)
  have "last_a - (a + 4096) = (last_a - a) - 4096" by simp
  then have "unat (last_a - (a + 4096)) = unat (last_a - a) - 4096"
    using unat_sub[OF h] by (simp only:) simp
  moreover have "4096 \<le> unat (last_a - a)" using h by (simp add: word_le_nat_alt)
  ultimately show ?case by (simp add: PGSIZE_def)
qed

definition mappages ::
  "8 word \<Rightarrow> cuint \<Rightarrow> cuint \<Rightarrow> cuint \<Rightarrow> cuint \<Rightarrow> cuint \<Rightarrow> 'a kmem_state_scheme \<Rightarrow>
   (cint \<times> 'a kmem_state_scheme) res" where
  "mappages c pgdir va sz pa perm s =
     mappages_loop c pgdir (PGROUNDDOWN va) (PGROUNDDOWN (va + sz - 1)) pa perm s"

function deallocuvm_loop ::
  "8 word \<Rightarrow> cuint \<Rightarrow> cuint \<Rightarrow> cuint \<Rightarrow> 'a kmem_state_scheme \<Rightarrow> 'a kmem_state_scheme res" where
  "deallocuvm_loop c pgdir a oldsz s =
     (if \<not> a < oldsz then Inr s
      else bindR (walkpgdir c pgdir a False s) (\<lambda>(pte, s1).
        bindR (if pte = 0 then Inr (PGADDR (PDX a + 1) 0 0 - PGSIZE, s1)
               else if load32 (mem s1) pte AND PTE_P \<noteq> 0 then
                 let pa = PTE_ADDR (load32 (mem s1) pte) in
                 if pa = 0 then Inl (Panic ''kfree'')
                 else bindR (kfree c (P2V pa) s1) (\<lambda>s2.
                   Inr (a, s2\<lparr>mem := store32 pte 0 (mem s2)\<rparr>))
               else Inr (a, s1)) (\<lambda>(a1, s2).
          if a1 + PGSIZE \<le> a then Inl Diverges
          else deallocuvm_loop c pgdir (a1 + PGSIZE) oldsz s2)))"
  by pat_completeness auto
termination
proof (relation "measure (\<lambda>(c, pgdir, a, oldsz, s). unat oldsz - unat a)", goal_cases)
  case 1
  then show ?case by simp
next
  case (2 c pgdir a oldsz s x pte s1 y a1 s2)
  then have "a < oldsz" "a < a1 + PGSIZE" by (simp_all add: not_le)
  then have "unat a < unat oldsz" "unat a < unat (a1 + PGSIZE)" by (simp_all only: word_less_nat_alt)
  then show ?case by simp
qed

definition deallocuvm ::
  "8 word \<Rightarrow> cuint \<Rightarrow> cuint \<Rightarrow> cuint \<Rightarrow> 'a kmem_state_scheme \<Rightarrow> (cint \<times> 'a kmem_state_scheme) res" where
  "deallocuvm c pgdir oldsz newsz s =
     (if newsz \<ge> oldsz then Inr (oldsz, s)
      else bindR (deallocuvm_loop c pgdir (PGROUNDUP newsz) oldsz s) (\<lambda>s1. Inr (newsz, s1)))"

definition freevm :: "8 word \<Rightarrow> cuint \<Rightarrow> 'a kmem_state_scheme \<Rightarrow> 'a kmem_state_scheme res" where
  "freevm c pgdir s =
     (if pgdir = 0 then Inl (Panic ''freevm: no pgdir'')
      else
        bindR (deallocuvm c pgdir KERNBASE 0 s) (\<lambda>(_, s1).
        bindR (foldR (\<lambda>i s. let e = load32 (mem s) (pgdir + 4 * of_nat i) in
                 if e AND PTE_P \<noteq> 0 then kfree c (P2V (PTE_ADDR e)) s else Inr s)
               [0..<NPDENTRIES] s1) (\<lambda>s2.
        kfree c pgdir s2)))"

text \<open>The rows of \<^verbatim>\<open>kmap[]\<close>: virtual start, physical start, physical end, permissions.\<close>

definition kmap :: "cuint \<Rightarrow> (cuint \<times> cuint \<times> cuint \<times> cuint) list" where
  "kmap data =
     [(KERNBASE, 0, EXTMEM, PTE_W),
      (KERNLINK, V2P KERNLINK, V2P data, 0),
      (data, V2P data, PHYSTOP, PTE_W),
      (DEVSPACE, DEVSPACE, 0, PTE_W)]"

fun setupkvm_loop ::
  "8 word \<Rightarrow> cuint \<Rightarrow> (cuint \<times> cuint \<times> cuint \<times> cuint) list \<Rightarrow> 'a kmem_state_scheme \<Rightarrow>
   (cuint \<times> 'a kmem_state_scheme) res" where
  "setupkvm_loop c pgdir [] s = Inr (pgdir, s)"
| "setupkvm_loop c pgdir ((virt, phys_start, phys_end, perm) # ks) s =
     bindR (mappages c pgdir virt (phys_end - phys_start) phys_start perm s) (\<lambda>(r, s1).
       if sint r < 0 then bindR (freevm c pgdir s1) (\<lambda>s2. Inr (0, s2))
       else setupkvm_loop c pgdir ks s1)"

definition setupkvm :: "8 word \<Rightarrow> 'a vm_state_scheme \<Rightarrow> (cuint \<times> 'a vm_state_scheme) res" where
  "setupkvm c s =
     bindR (kalloc c s) (\<lambda>(pgdir, s1).
       if pgdir = 0 then Inr (0, s1)
       else
         let s2 = s1\<lparr>mem := memset pgdir 0 PGSIZE (mem s1)\<rparr> in
         if P2V PHYSTOP > DEVSPACE then Inl (Panic ''PHYSTOP too high'')
         else setupkvm_loop c pgdir (kmap (data_seg s)) s2)"

definition lcr3 :: "8 word \<Rightarrow> cuint \<Rightarrow> 'a vm_state_scheme \<Rightarrow> 'a vm_state_scheme" where
  "lcr3 c v s = s\<lparr>cr3 := (cr3 s)(c := v)\<rparr>"

definition switchkvm :: "8 word \<Rightarrow> 'a vm_state_scheme \<Rightarrow> 'a vm_state_scheme" where
  "switchkvm c s = lcr3 c (V2P (kpgdir s)) s"

definition kvmalloc :: "8 word \<Rightarrow> 'a vm_state_scheme \<Rightarrow> 'a vm_state_scheme res" where
  "kvmalloc c s = bindR (setupkvm c s) (\<lambda>(p, s1). Inr (switchkvm c (s1\<lparr>kpgdir := p\<rparr>)))"

definition inituvm ::
  "8 word \<Rightarrow> cuint \<Rightarrow> cuint \<Rightarrow> cuint \<Rightarrow> 'a kmem_state_scheme \<Rightarrow> 'a kmem_state_scheme res" where
  "inituvm c pgdir init sz s =
     (if sz \<ge> PGSIZE then Inl (Panic ''inituvm: more than a page'')
      else bindR (kalloc c s) (\<lambda>(m, s1).
        let s2 = s1\<lparr>mem := memset m 0 PGSIZE (mem s1)\<rparr> in
        bindR (mappages c pgdir 0 PGSIZE (V2P m) (PTE_W OR PTE_U) s2) (\<lambda>(_, s3).
        Inr (s3\<lparr>mem := memmove m init sz (mem s3)\<rparr>))))"

function allocuvm_loop ::
  "8 word \<Rightarrow> cuint \<Rightarrow> cuint \<Rightarrow> cuint \<Rightarrow> cuint \<Rightarrow> 'a kmem_state_scheme \<Rightarrow> (cint \<times> 'a kmem_state_scheme) res" where
  "allocuvm_loop c pgdir a oldsz newsz s =
     (if \<not> a < newsz then Inr (newsz, s)
      else bindR (kalloc c s) (\<lambda>(m, s1).
        if m = 0 then bindR (deallocuvm c pgdir newsz oldsz s1) (\<lambda>(_, s2). Inr (0, s2))
        else
          let s2 = s1\<lparr>mem := memset m 0 PGSIZE (mem s1)\<rparr> in
          bindR (mappages c pgdir a PGSIZE (V2P m) (PTE_W OR PTE_U) s2) (\<lambda>(r, s3).
            if sint r < 0 then
              bindR (deallocuvm c pgdir newsz oldsz s3) (\<lambda>(_, s4).
              bindR (kfree c m s4) (\<lambda>s5. Inr (0, s5)))
            else if a + PGSIZE \<le> a then Inl Diverges
            else allocuvm_loop c pgdir (a + PGSIZE) oldsz newsz s3)))"
  by pat_completeness auto
termination
proof (relation "measure (\<lambda>(c, pgdir, a, oldsz, newsz, s). unat newsz - unat a)", goal_cases)
  case 1
  then show ?case by simp
next
  case (2 c pgdir a oldsz newsz s x m s1 s2 y r s3)
  then have "unat a < unat newsz" "unat a < unat (a + PGSIZE)" by (simp_all add: not_le word_less_nat_alt)
  then show ?case by simp
qed

definition allocuvm ::
  "8 word \<Rightarrow> cuint \<Rightarrow> cuint \<Rightarrow> cuint \<Rightarrow> 'a kmem_state_scheme \<Rightarrow> (cint \<times> 'a kmem_state_scheme) res" where
  "allocuvm c pgdir oldsz newsz s =
     (if newsz \<ge> KERNBASE then Inr (0, s)
      else if newsz < oldsz then Inr (oldsz, s)
      else allocuvm_loop c pgdir (PGROUNDUP oldsz) oldsz newsz s)"

definition clearpteu :: "8 word \<Rightarrow> cuint \<Rightarrow> cuint \<Rightarrow> 'a kmem_state_scheme \<Rightarrow> 'a kmem_state_scheme res" where
  "clearpteu c pgdir uva s =
     bindR (walkpgdir c pgdir uva False s) (\<lambda>(pte, s1).
       if pte = 0 then Inl (Panic ''clearpteu'')
       else Inr (s1\<lparr>mem := store32 pte (load32 (mem s1) pte AND NOT PTE_U) (mem s1)\<rparr>))"

text \<open>The loop of \<^verbatim>\<open>copyuvm\<close>; the label \<^verbatim>\<open>bad\<close> is \<open>copyuvm_bad\<close>.\<close>

definition copyuvm_bad :: "8 word \<Rightarrow> cuint \<Rightarrow> 'a kmem_state_scheme \<Rightarrow> (cuint \<times> 'a kmem_state_scheme) res" where
  "copyuvm_bad c d s = bindR (freevm c d s) (\<lambda>s1. Inr (0, s1))"

function copyuvm_loop ::
  "8 word \<Rightarrow> cuint \<Rightarrow> cuint \<Rightarrow> cuint \<Rightarrow> cuint \<Rightarrow> 'a kmem_state_scheme \<Rightarrow> (cuint \<times> 'a kmem_state_scheme) res" where
  "copyuvm_loop c pgdir d i sz s =
     (if \<not> i < sz then Inr (d, s)
      else bindR (walkpgdir c pgdir i False s) (\<lambda>(pte, s1).
        if pte = 0 then Inl (Panic ''copyuvm: pte should exist'')
        else if load32 (mem s1) pte AND PTE_P = 0 then Inl (Panic ''copyuvm: page not present'')
        else
          let pa = PTE_ADDR (load32 (mem s1) pte); flags = PTE_FLAGS (load32 (mem s1) pte) in
          bindR (kalloc c s1) (\<lambda>(m, s2).
            if m = 0 then copyuvm_bad c d s2
            else
              let s3 = s2\<lparr>mem := memmove m (P2V pa) PGSIZE (mem s2)\<rparr> in
              bindR (mappages c d i PGSIZE (V2P m) flags s3) (\<lambda>(r, s4).
                if sint r < 0 then bindR (kfree c m s4) (copyuvm_bad c d)
                else if i + PGSIZE \<le> i then Inl Diverges
                else copyuvm_loop c pgdir d (i + PGSIZE) sz s4))))"
  by pat_completeness auto
termination
proof (relation "measure (\<lambda>(c, pgdir, d, i, sz, s). unat sz - unat i)", goal_cases)
  case 1
  then show ?case by simp
next
  case (2 c pgdir d i sz)
  then have "unat i < unat sz" "unat i < unat (i + PGSIZE)" by (simp_all add: not_le word_less_nat_alt)
  then show ?case by simp
qed

definition copyuvm :: "8 word \<Rightarrow> cuint \<Rightarrow> cuint \<Rightarrow> 'a vm_state_scheme \<Rightarrow> (cuint \<times> 'a vm_state_scheme) res" where
  "copyuvm c pgdir sz s =
     bindR (setupkvm c s) (\<lambda>(d, s1). if d = 0 then Inr (0, s1) else copyuvm_loop c pgdir d 0 sz s1)"

text \<open>
  \<^verbatim>\<open>uva2ka\<close> reads \<^verbatim>\<open>*pte\<close> without checking that \<^verbatim>\<open>walkpgdir\<close> found one.
\<close>

definition uva2ka :: "8 word \<Rightarrow> cuint \<Rightarrow> cuint \<Rightarrow> 'a kmem_state_scheme \<Rightarrow> cuint res" where
  "uva2ka c pgdir uva s =
     bindR (walkpgdir c pgdir uva False s) (\<lambda>(pte, s1).
       if pte = 0 then Inl (Undefined ''uva2ka: *pte'')
       else if load32 (mem s1) pte AND PTE_P = 0 then Inr 0
       else if load32 (mem s1) pte AND PTE_U = 0 then Inr 0
       else Inr (P2V (PTE_ADDR (load32 (mem s1) pte))))"

lemma page_offset_lt: "va - PGROUNDDOWN va < PGSIZE"
proof -
  have "unat (PGROUNDDOWN va) \<le> unat va" by (simp add: unat_PGROUNDDOWN)
  then have "unat (va - PGROUNDDOWN va) = unat va - 4096 * (unat va div 4096)"
    using unat_sub[of "PGROUNDDOWN va" va] by (simp add: word_le_nat_alt unat_PGROUNDDOWN)
  also have "\<dots> = unat va mod 4096" by (simp add: minus_mult_div_eq_mod)
  finally show ?thesis by (simp add: word_less_nat_alt PGSIZE_def)
qed

text \<open>
  \<^verbatim>\<open>copyout(pgdir, va, p, len)\<close> with the \<open>len\<close> bytes at \<open>p\<close> as an argument: \<open>p\<close> is a
  user string of the running program or a local array of the kernel, and never in a page of
  \<open>pgdir\<close>.
\<close>

function copyout ::
  "8 word \<Rightarrow> cuint \<Rightarrow> cuint \<Rightarrow> cchar list \<Rightarrow> 'a kmem_state_scheme \<Rightarrow> (cint \<times> 'a kmem_state_scheme) res" where
  "copyout c pgdir va bs s =
     (if bs = [] then Inr (0, s)
      else
        let va0 = PGROUNDDOWN va in
        bindR (uva2ka c pgdir va0 s) (\<lambda>pa0.
          if pa0 = 0 then Inr (-1, s)
          else
            let n = min (length bs) (unat (PGSIZE - (va - va0)));
                s1 = s\<lparr>mem := put_bytes (pa0 + (va - va0)) (take n bs) (mem s)\<rparr>
            in copyout c pgdir (va0 + PGSIZE) (drop n bs) s1))"
  by pat_completeness auto
termination
proof (relation "measure (\<lambda>(c, pgdir, va, bs, s). length bs)", goal_cases)
  case 1
  then show ?case by simp
next
  case (2 c pgdir va bs s va0 pa0 n s1)
  have "0 < PGSIZE - (va - PGROUNDDOWN va)"
    using page_offset_lt[of va] by (auto simp: word_gt_0 simp flip: eq_iff_diff_eq_0)
  then have "0 < unat (PGSIZE - (va - PGROUNDDOWN va))" by (simp add: word_less_nat_alt)
  with 2 show ?case by (auto simp: Let_def)
qed

end
