(* ===== verification/ProcTable.thy ===== *)
theory ProcTable
  imports KString "HOL-Library.Product_Lexorder"
begin

section \<open>The process table and its four run queues (proc.h, proc.c)\<close>

text \<open>
  The data of proc.h and the queue operations of proc.c.  A \<^verbatim>\<open>struct proc *\<close> into
  \<^verbatim>\<open>ptable.proc\<close> is an index of type \<^typ>\<open>nat\<close> (null is \<^const>\<open>None\<close>), so the
  linked lists of the run queues live in the store \<open>procs\<close> and aliasing is as in C.  The
  spin lock of the table is the lock \<open>L_ptable\<close> of the machine and is not part of this
  record.  The operations take the global \<^verbatim>\<open>ticks\<close> as their first argument where the
  code reads it.  A walk along \<^verbatim>\<open>next\<close> carries fuel, one more than there are
  processes; running out of it is \<open>Diverges\<close>, which the refinement lemmas exclude.
\<close>

subsection \<open>Data\<close>

definition NPROC :: nat where
  "NPROC = 64"

definition NQUEUE :: nat where
  "NQUEUE = 4"

datatype procstate = UNUSED | EMBRYO | SLEEPING | RUNNABLE | RUNNING | ZOMBIE

datatype proctype = IDLE | INIT | SHELL

text \<open>What a process can sleep on: each value is the address of one kernel object.\<close>

datatype chan =
    Ch_null | Ch_proc nat | Ch_ticks | Ch_log | Ch_input
  | Ch_nread cuint | Ch_nwrite cuint | Ch_buf nat | Ch_buflock nat | Ch_inodelock nat

record proc =
  p_sz :: cuint
  p_pgdir :: cuint
  p_kstack :: cuint
  p_state :: procstate
  p_pid :: cint
  p_parent :: "nat option"
  p_tf :: cuint
  p_context :: cuint
  p_chan :: chan
  p_killed :: cint
  p_ofile :: "nat \<Rightarrow> nat option"
  p_cwd :: "nat option"
  p_name :: "cchar list"
  p_q_level :: cint
  p_cpu_burst :: cint
  p_cpu_wait :: cint
  p_io_wait_time :: cint
  p_end_time :: cint
  p_total_cpu_time :: cint
  p_queue_entry_time :: cuint
  p_next :: "nat option"
  p_prev :: "nat option"
  p_type :: proctype

record proc_list =
  proc_count :: cint
  q_head :: "nat option"
  q_tail :: "nat option"

record ptable_t =
  procs :: "nat \<Rightarrow> proc"
  queues :: "nat \<Rightarrow> proc_list"

definition p_upd :: "nat \<Rightarrow> (proc \<Rightarrow> proc) \<Rightarrow> ptable_t \<Rightarrow> ptable_t" where
  "p_upd i f t = t\<lparr>procs := (procs t)(i := f (procs t i))\<rparr>"

definition q_upd :: "nat \<Rightarrow> (proc_list \<Rightarrow> proc_list) \<Rightarrow> ptable_t \<Rightarrow> ptable_t" where
  "q_upd l f t = t\<lparr>queues := (queues t)(l := f (queues t l))\<rparr>"

lemma upd_sel [simp]:
  "procs (p_upd i f t) = (procs t)(i := f (procs t i))" "queues (p_upd i f t) = queues t"
  "procs (q_upd l g t) = procs t" "queues (q_upd l g t) = (queues t)(l := g (queues t l))"
  by (simp_all add: p_upd_def q_upd_def)

text \<open>Indexing \<^verbatim>\<open>ptable.queues\<close> with a C \<^verbatim>\<open>int\<close>.\<close>

definition queue_at :: "cint \<Rightarrow> nat res" where
  "queue_at l = (if 0 \<le> sint l \<and> sint l < int NQUEUE then Inr (nat (sint l))
                 else Inl (Undefined ''ptable.queues[]''))"

subsection \<open>Queue operations\<close>

definition init_qeueus :: "ptable_t \<Rightarrow> ptable_t" where
  "init_qeueus t = fold (\<lambda>l. q_upd l (\<lambda>q. q\<lparr>q_head := None, q_tail := None\<rparr>)) [0, 1, 2, 3] t"

text \<open>The comparison of lines 104--109: is \<open>p\<close> to be placed before \<open>cur\<close>?\<close>

definition p_is_higher :: "proc \<Rightarrow> proc \<Rightarrow> bool" where
  "p_is_higher p cur \<longleftrightarrow>
     sint (p_io_wait_time cur) < sint (p_io_wait_time p) \<or>
     p_io_wait_time p = p_io_wait_time cur \<and> p_queue_entry_time cur < p_queue_entry_time p"

definition insert_before :: "nat \<Rightarrow> nat \<Rightarrow> nat \<Rightarrow> ptable_t \<Rightarrow> ptable_t" where
  "insert_before p l cur t =
     (let t1 = p_upd p (\<lambda>P. P\<lparr>p_next := Some cur\<rparr>) t;
          t2 = p_upd p (\<lambda>P. P\<lparr>p_prev := p_prev (procs t1 cur)\<rparr>) t1;
          t3 = (case p_prev (procs t2 cur) of
                  Some r \<Rightarrow> p_upd r (\<lambda>P. P\<lparr>p_next := Some p\<rparr>) t2
                | None \<Rightarrow> q_upd l (\<lambda>q. q\<lparr>q_head := Some p\<rparr>) t2)
      in p_upd cur (\<lambda>P. P\<lparr>p_prev := Some p\<rparr>) t3)"

definition insert_tail :: "nat \<Rightarrow> nat \<Rightarrow> ptable_t \<Rightarrow> ptable_t res" where
  "insert_tail p l t =
     (case q_tail (queues t l) of
        None \<Rightarrow> Inl (Undefined ''q->tail->next'')
      | Some z \<Rightarrow>
          let t1 = p_upd z (\<lambda>P. P\<lparr>p_next := Some p\<rparr>) t;
              t2 = p_upd p (\<lambda>P. P\<lparr>p_prev := q_tail (queues t1 l)\<rparr>) t1
          in Inr (q_upd l (\<lambda>q. q\<lparr>q_tail := Some p\<rparr>) t2))"

fun add_scan :: "nat \<Rightarrow> nat \<Rightarrow> nat \<Rightarrow> nat option \<Rightarrow> ptable_t \<Rightarrow> ptable_t res" where
  "add_scan fuel p l None t = insert_tail p l t"
| "add_scan 0 p l (Some cur) t = Inl Diverges"
| "add_scan (Suc fuel) p l (Some cur) t =
     (if p_is_higher (procs t p) (procs t cur) then Inr (insert_before p l cur t)
      else add_scan fuel p l (p_next (procs t cur)) t)"

definition add_to_queue :: "cuint \<Rightarrow> nat \<Rightarrow> cint \<Rightarrow> ptable_t \<Rightarrow> ptable_t res" where
  "add_to_queue ticks p level t =
     (if sint level < 0 \<or> 4 \<le> sint level then Inl (Panic ''invalid queue level'')
      else
        let l = nat (sint level);
            t1 = p_upd p (\<lambda>P. P\<lparr>p_q_level := level, p_queue_entry_time := ticks,
                                p_prev := None, p_next := None\<rparr>) t
        in if q_head (queues t1 l) = None
           then Inr (q_upd l (\<lambda>q. q\<lparr>q_tail := Some p, q_head := Some p\<rparr>) t1)
           else add_scan (Suc NPROC) p l (q_head (queues t1 l)) t1)"

definition unlink :: "nat \<Rightarrow> nat \<Rightarrow> ptable_t \<Rightarrow> ptable_t" where
  "unlink p l t =
     (let t1 = (case p_prev (procs t p) of
                  Some r \<Rightarrow> p_upd r (\<lambda>P. P\<lparr>p_next := p_next (procs t p)\<rparr>) t
                | None \<Rightarrow> q_upd l (\<lambda>q. q\<lparr>q_head := p_next (procs t p)\<rparr>) t);
          t2 = (case p_next (procs t1 p) of
                  Some n \<Rightarrow> p_upd n (\<lambda>P. P\<lparr>p_prev := p_prev (procs t1 p)\<rparr>) t1
                | None \<Rightarrow> q_upd l (\<lambda>q. q\<lparr>q_tail := p_prev (procs t1 p)\<rparr>) t1)
      in p_upd p (\<lambda>P. P\<lparr>p_next := None, p_prev := None\<rparr>) t2)"

definition remove_from_queue :: "nat \<Rightarrow> ptable_t \<Rightarrow> ptable_t res" where
  "remove_from_queue p t =
     bindR (queue_at (p_q_level (procs t p))) (\<lambda>l.
       if p_prev (procs t p) = None \<and> p_next (procs t p) = None \<and> q_head (queues t l) \<noteq> Some p
       then Inr t
       else Inr (unlink p l t))"

definition get_next_proc :: "ptable_t \<Rightarrow> nat option" where
  "get_next_proc t =
     (case List.find (\<lambda>lv. q_head (queues t lv) \<noteq> None) [0..<4] of
        Some lv \<Rightarrow> q_head (queues t lv)
      | None \<Rightarrow> None)"

subsection \<open>Linked lists in the process table\<close>

text \<open>
  \<open>seg ps pr xs nx\<close>: following \<^verbatim>\<open>next\<close> visits exactly \<open>xs\<close> and then \<open>nx\<close>, and
  the \<^verbatim>\<open>prev\<close> links run back from there to \<open>pr\<close>.
\<close>

fun first_or :: "nat list \<Rightarrow> nat option \<Rightarrow> nat option" where
  "first_or [] d = d"
| "first_or (x # xs) d = Some x"

definition last_or :: "nat list \<Rightarrow> nat option \<Rightarrow> nat option" where
  "last_or xs d = (if xs = [] then d else Some (last xs))"

fun seg :: "(nat \<Rightarrow> proc) \<Rightarrow> nat option \<Rightarrow> nat list \<Rightarrow> nat option \<Rightarrow> bool" where
  "seg ps pr [] nx \<longleftrightarrow> True"
| "seg ps pr (x # xs) nx \<longleftrightarrow>
     p_prev (ps x) = pr \<and> p_next (ps x) = first_or xs nx \<and> seg ps (Some x) xs nx"

lemma last_or_simps [simp]:
  "last_or [] d = d" "last_or (x # xs) d = last_or xs (Some x)"
  "last_or xs d = None \<longleftrightarrow> xs = [] \<and> d = None"
  by (auto simp: last_or_def)

lemma last_or_append [simp]: "last_or (xs @ ys) d = last_or ys (last_or xs d)"
  by (simp add: last_or_def)

lemma first_or_append [simp]: "first_or (xs @ ys) d = first_or xs (first_or ys d)"
  by (cases xs) auto

lemma first_or_None [simp]: "first_or xs d = None \<longleftrightarrow> xs = [] \<and> d = None"
  by (cases xs) auto

lemma seg_append:
  "seg ps pr (xs @ ys) nx \<longleftrightarrow> seg ps pr xs (first_or ys nx) \<and> seg ps (last_or xs pr) ys nx"
  by (induction xs arbitrary: pr) auto

lemma seg_cong:
  assumes "\<forall>x \<in> set xs. p_next (ps' x) = p_next (ps x) \<and> p_prev (ps' x) = p_prev (ps x)"
  shows "seg ps' pr xs nx \<longleftrightarrow> seg ps pr xs nx"
  using assms by (induction xs arbitrary: pr) auto

lemma seg_last:
  assumes "seg ps pr us nx" and "distinct us"
    and "\<forall>x \<in> set us. p_prev (ps' x) = p_prev (ps x) \<and>
           p_next (ps' x) = (if x = last us then nx' else p_next (ps x))"
  shows "seg ps' pr us nx'"
  using assms
proof (induction us arbitrary: pr)
  case (Cons x us)
  show ?case
  proof (cases us)
    case Nil
    with Cons.prems show ?thesis by simp
  next
    case (Cons y ys)
    with Cons.prems have "x \<noteq> last us" by auto
    with Cons Cons.prems Cons.IH[of "Some x"] show ?thesis by auto
  qed
qed simp

lemma seg_first:
  assumes "seg ps pr vs nx" and "distinct vs"
    and "\<forall>x \<in> set vs. p_next (ps' x) = p_next (ps x) \<and>
           p_prev (ps' x) = (if x = hd vs then pr' else p_prev (ps x))"
  shows "seg ps' pr' vs nx"
proof (cases vs)
  case (Cons y ys)
  with assms have "seg ps' (Some y) ys nx = seg ps (Some y) ys nx" by (intro seg_cong) auto
  with assms Cons show ?thesis by simp
qed simp

text \<open>
  A queue of the table holds \<open>xs\<close>, in this order.  The levels of the members tell the
  queues apart.
\<close>

definition queue_rep :: "ptable_t \<Rightarrow> nat \<Rightarrow> nat list \<Rightarrow> bool" where
  "queue_rep t l xs \<longleftrightarrow> seg (procs t) None xs None \<and> distinct xs \<and>
     (\<forall>x \<in> set xs. x < NPROC \<and> p_q_level (procs t x) = of_nat l) \<and>
     q_head (queues t l) = first_or xs None \<and> q_tail (queues t l) = last_or xs None"

text \<open>The four queues hold the lists \<open>qs\<close>, and no other process is linked.\<close>

definition table_rep :: "ptable_t \<Rightarrow> (nat \<Rightarrow> nat list) \<Rightarrow> bool" where
  "table_rep t qs \<longleftrightarrow> (\<forall>l < NQUEUE. queue_rep t l (qs l)) \<and>
     (\<forall>i < NPROC. (\<forall>l < NQUEUE. i \<notin> set (qs l)) \<longrightarrow> p_next (procs t i) = None \<and> p_prev (procs t i) = None)"

definition queued :: "(nat \<Rightarrow> nat list) \<Rightarrow> nat set" where
  "queued qs = (\<Union>l \<in> {..<NQUEUE}. set (qs l))"

lemma level_inj: "(of_nat l :: cint) = of_nat l' \<Longrightarrow> l < NQUEUE \<Longrightarrow> l' < NQUEUE \<Longrightarrow> l = l'"
proof -
  assume h: "(of_nat l :: cint) = of_nat l'" "l < NQUEUE" "l' < NQUEUE"
  then have "l < 2 ^ 32" "l' < 2 ^ 32" by (simp_all add: NQUEUE_def)
  with h(1) show ?thesis using unat_of_nat_lt[of l] unat_of_nat_lt[of l'] by metis
qed

lemma table_repD:
  "table_rep t qs \<Longrightarrow> l < NQUEUE \<Longrightarrow> queue_rep t l (qs l)"
  by (simp add: table_rep_def)

lemma table_rep_member:
  assumes "table_rep t qs" and "l < NQUEUE" and "x \<in> set (qs l)"
  shows "x < NPROC \<and> p_q_level (procs t x) = of_nat l"
  using table_repD[OF assms(1,2)] assms(3) unfolding queue_rep_def by blast

lemma table_rep_disjoint:
  assumes "table_rep t qs" and "l < NQUEUE" and "l' < NQUEUE" and "x \<in> set (qs l)" and "x \<in> set (qs l')"
  shows "l = l'"
  using table_rep_member[OF assms(1,2,4)] table_rep_member[OF assms(1,3,5)] level_inj[OF _ assms(2,3)]
  by simp

lemma table_rep_distinct: "table_rep t qs \<Longrightarrow> l < NQUEUE \<Longrightarrow> distinct (qs l)"
  using table_repD[of t qs l] by (simp add: queue_rep_def)

lemma table_rep_length: "table_rep t qs \<Longrightarrow> l < NQUEUE \<Longrightarrow> length (qs l) \<le> NPROC"
  by (rule distinct_bounded_length[OF table_rep_distinct]) (auto dest: table_rep_member)

lemma table_rep_unlinked:
  "table_rep t qs \<Longrightarrow> i < NPROC \<Longrightarrow> i \<notin> queued qs \<Longrightarrow> p_next (procs t i) = None \<and> p_prev (procs t i) = None"
  unfolding table_rep_def queued_def by blast

text \<open>Changes that touch neither the links nor the levels of queued processes.\<close>

lemma queue_rep_cong:
  assumes "queue_rep t l xs" and "queues t' l = queues t l"
    and "\<forall>x \<in> set xs. p_next (procs t' x) = p_next (procs t x) \<and> p_prev (procs t' x) = p_prev (procs t x) \<and>
           p_q_level (procs t' x) = p_q_level (procs t x)"
  shows "queue_rep t' l xs"
proof -
  have "seg (procs t') None xs None = seg (procs t) None xs None"
    by (rule seg_cong) (use assms(3) in blast)
  then show ?thesis using assms unfolding queue_rep_def by simp
qed

lemma table_rep_cong:
  assumes "table_rep t qs" and "\<forall>l < NQUEUE. queues t' l = queues t l"
    and "\<forall>x < NPROC. p_next (procs t' x) = p_next (procs t x) \<and> p_prev (procs t' x) = p_prev (procs t x)"
    and "\<forall>x \<in> queued qs. p_q_level (procs t' x) = p_q_level (procs t x)"
  shows "table_rep t' qs"
proof -
  have "queue_rep t' l (qs l)" if l: "l < NQUEUE" for l
  proof (rule queue_rep_cong[OF table_repD[OF assms(1) l]])
    show "queues t' l = queues t l" using assms(2) l by blast
    have "\<forall>x \<in> set (qs l). x < NPROC \<and> x \<in> queued qs"
      using table_repD[OF assms(1) l] l by (auto simp: queue_rep_def queued_def)
    with assms(3,4) show "\<forall>x \<in> set (qs l). p_next (procs t' x) = p_next (procs t x) \<and>
      p_prev (procs t' x) = p_prev (procs t x) \<and> p_q_level (procs t' x) = p_q_level (procs t x)" by blast
  qed
  then show ?thesis using assms(1,3) unfolding table_rep_def by simp
qed

subsection \<open>What the queue operations leave alone\<close>

definition nolinks :: "proc \<Rightarrow> proc" where
  "nolinks P = P\<lparr>p_next := None, p_prev := None\<rparr>"

lemma nolinks_upd [simp]:
  "nolinks (P\<lparr>p_next := a\<rparr>) = nolinks P" "nolinks (P\<lparr>p_prev := b\<rparr>) = nolinks P"
  by (simp_all add: nolinks_def)

lemma nolinks_eqD:
  "nolinks P = nolinks Q \<Longrightarrow> p_sz P = p_sz Q \<and> p_pgdir P = p_pgdir Q \<and> p_kstack P = p_kstack Q \<and>
     p_state P = p_state Q \<and> p_pid P = p_pid Q \<and> p_parent P = p_parent Q \<and> p_tf P = p_tf Q \<and>
     p_context P = p_context Q \<and> p_chan P = p_chan Q \<and> p_killed P = p_killed Q \<and> p_ofile P = p_ofile Q \<and>
     p_cwd P = p_cwd Q \<and> p_name P = p_name Q \<and> p_q_level P = p_q_level Q \<and> p_cpu_burst P = p_cpu_burst Q \<and>
     p_cpu_wait P = p_cpu_wait Q \<and> p_io_wait_time P = p_io_wait_time Q \<and> p_end_time P = p_end_time Q \<and>
     p_total_cpu_time P = p_total_cpu_time Q \<and> p_queue_entry_time P = p_queue_entry_time Q \<and> p_type P = p_type Q"
  by (cases P, cases Q) (simp add: nolinks_def)

text \<open>\<open>link_frame p xs l\<close>: only links change, and only those of \<open>p\<close>, \<open>xs\<close> and queue \<open>l\<close>.\<close>

definition link_frame :: "nat \<Rightarrow> nat list \<Rightarrow> nat \<Rightarrow> ptable_t \<Rightarrow> ptable_t \<Rightarrow> bool" where
  "link_frame p xs l t t' \<longleftrightarrow> (\<forall>x. nolinks (procs t' x) = nolinks (procs t x)) \<and>
     (\<forall>x. x \<noteq> p \<and> x \<notin> set xs \<longrightarrow> procs t' x = procs t x) \<and> (\<forall>k. k \<noteq> l \<longrightarrow> queues t' k = queues t k)"

lemma insert_before_rep:
  assumes q: "queue_rep t l (us @ c # vs)" and p: "p \<notin> set (us @ c # vs)" "p < NPROC"
    "p_q_level (procs t p) = of_nat l"
  shows "queue_rep (insert_before p l c t) l (us @ p # c # vs) \<and>
    link_frame p (us @ c # vs) l t (insert_before p l c t)"
proof -
  have s: "seg (procs t) None (us @ c # vs) None" and d: "distinct (us @ c # vs)"
    using q by (simp_all add: queue_rep_def)
  have pv: "p_prev (procs t c) = last_or us None" using s by (simp add: seg_append)
  show ?thesis
  proof (cases us rule: rev_cases)
    case Nil
    define t' where "t' = insert_before p l c t"
    have t': "procs t' = (procs t)(p := (procs t p)\<lparr>p_next := Some c, p_prev := None\<rparr>,
        c := (procs t c)\<lparr>p_prev := Some p\<rparr>)"
      "queues t' = (queues t)(l := (queues t l)\<lparr>q_head := Some p\<rparr>)"
      using pv p Nil by (simp_all add: t'_def insert_before_def Let_def fun_upd_twist)
    have "seg (procs t') (Some c) vs None" using s d p Nil t'(1)
      by (subst seg_cong[of vs _ "procs t"]) (auto simp: seg_append)
    then have "queue_rep t' l (p # c # vs)" using q p Nil s d t' by (auto simp: queue_rep_def)
    moreover have "link_frame p (us @ c # vs) l t t'" using t' by (simp add: link_frame_def)
    ultimately show ?thesis using Nil by (simp add: t'_def)
  next
    case (snoc ws r)
    define t' where "t' = insert_before p l c t"
    have ne: "r \<noteq> p" "c \<noteq> r" "c \<noteq> p" using p d snoc by auto
    have t': "procs t' = (procs t)(p := (procs t p)\<lparr>p_next := Some c, p_prev := Some r\<rparr>,
        r := (procs t r)\<lparr>p_next := Some p\<rparr>, c := (procs t c)\<lparr>p_prev := Some p\<rparr>)"
      "queues t' = queues t"
      using pv p snoc ne by (simp_all add: t'_def insert_before_def Let_def fun_upd_twist)
    have "seg (procs t') None ws (Some r)" using s d p snoc t'(1)
      by (subst seg_cong[of ws _ "procs t"]) (auto simp: seg_append)
    moreover have "seg (procs t') (Some c) vs None" using s d p snoc t'(1)
      by (subst seg_cong[of vs _ "procs t"]) (auto simp: seg_append)
    ultimately have "seg (procs t') None (us @ p # c # vs) None"
      using s snoc ne t' by (auto simp: seg_append)
    then have "queue_rep t' l (us @ p # c # vs)" using q p snoc t' ne by (auto simp: queue_rep_def)
    moreover have "link_frame p (us @ c # vs) l t t'" using t' snoc by (auto simp: link_frame_def)
    ultimately show ?thesis by (simp add: t'_def)
  qed
qed

lemma insert_tail_rep:
  assumes q: "queue_rep t l xs" and p: "p \<notin> set xs" "p < NPROC" "p_q_level (procs t p) = of_nat l"
    "p_next (procs t p) = None" and "xs \<noteq> []"
  shows "\<exists>t'. insert_tail p l t = Inr t' \<and> queue_rep t' l (xs @ [p]) \<and> link_frame p xs l t t'"
proof -
  obtain ws r where xs: "xs = ws @ [r]" using \<open>xs \<noteq> []\<close> by (cases xs rule: rev_cases) auto
  have s: "seg (procs t) None xs None" and d: "distinct xs" using q by (simp_all add: queue_rep_def)
  have tl: "q_tail (queues t l) = Some r" using q xs by (simp add: queue_rep_def)
  have ne: "r \<noteq> p" using p xs by auto
  define t' where "t' = q_upd l (\<lambda>q. q\<lparr>q_tail := Some p\<rparr>)
    (p_upd p (\<lambda>P. P\<lparr>p_prev := Some r\<rparr>) (p_upd r (\<lambda>P. P\<lparr>p_next := Some p\<rparr>) t))"
  have i: "insert_tail p l t = Inr t'" using tl by (simp add: insert_tail_def t'_def Let_def)
  have t': "procs t' = (procs t)(r := (procs t r)\<lparr>p_next := Some p\<rparr>, p := (procs t p)\<lparr>p_prev := Some r\<rparr>)"
    "queues t' = (queues t)(l := (queues t l)\<lparr>q_tail := Some p\<rparr>)"
    using ne by (simp_all add: t'_def)
  have "seg (procs t') None ws (Some r)" using s d p xs t'(1)
    by (subst seg_cong[of ws _ "procs t"]) (auto simp: seg_append)
  then have "seg (procs t') None (xs @ [p]) None" using s xs ne t' p by (simp add: seg_append)
  then have "queue_rep t' l (xs @ [p])" using q p xs t' ne by (auto simp: queue_rep_def)
  moreover have "link_frame p xs l t t'" using t' xs by (auto simp: link_frame_def)
  ultimately show ?thesis using i by blast
qed

lemma unlink_rep:
  assumes q: "queue_rep t l (us @ p # vs)"
  shows "queue_rep (unlink p l t) l (us @ vs) \<and> link_frame p (us @ vs) l t (unlink p l t) \<and>
    p_next (procs (unlink p l t) p) = None \<and> p_prev (procs (unlink p l t) p) = None"
proof -
  have s: "seg (procs t) None (us @ p # vs) None" and d: "distinct (us @ p # vs)"
    using q by (simp_all add: queue_rep_def)
  have pv: "p_prev (procs t p) = last_or us None" and pn: "p_next (procs t p) = first_or vs None"
    using s by (simp_all add: seg_append)
  have hd: "q_head (queues t l) = first_or us (Some p)" "q_tail (queues t l) = last_or vs (Some p)"
    using q by (auto simp: queue_rep_def last_or_def)
  define t' where "t' = unlink p l t"
  have us: "p_prev (procs t' x) = p_prev (procs t x) \<and>
      p_next (procs t' x) = (if x = last us then first_or vs None else p_next (procs t x))"
    if "x \<in> set us" for x
    using pv pn d that
    by (cases vs) (auto simp: t'_def unlink_def Let_def last_or_def split: option.splits if_splits)
  have vs: "p_next (procs t' x) = p_next (procs t x) \<and>
      p_prev (procs t' x) = (if x = hd vs then last_or us None else p_prev (procs t x))"
    if "x \<in> set vs" for x
  proof -
    have "us = [] \<or> last us \<noteq> x" using d that by (cases us rule: rev_cases) auto
    then show ?thesis using pv pn d that
      by (cases vs) (auto simp: t'_def unlink_def Let_def last_or_def split: option.splits if_splits)
  qed
  have "seg (procs t') None us (first_or vs None)"
  proof (rule seg_last)
    show "seg (procs t) None us (Some p)" "distinct us" using s d by (simp_all add: seg_append)
  qed (use us in blast)
  moreover have "seg (procs t') (last_or us None) vs None"
  proof (rule seg_first)
    show "seg (procs t) (Some p) vs None" "distinct vs" using s d by (simp_all add: seg_append)
  qed (use vs in blast)
  moreover have nl: "nolinks (procs t' x) = nolinks (procs t x)" for x
    by (auto simp: t'_def unlink_def Let_def split: option.splits)
  moreover have "queues t' = (queues t)(l := (queues t l)\<lparr>q_head := first_or us (first_or vs None),
       q_tail := last_or vs (last_or us None)\<rparr>)"
    using pv pn hd by (cases us; cases vs) (auto simp: t'_def unlink_def Let_def last_or_def)
  moreover have "procs t' x = procs t x" if "x \<noteq> p" "x \<notin> set (us @ vs)" for x
  proof -
    have "last_or us None \<noteq> Some x" "first_or vs None \<noteq> Some x"
      using that by (cases us rule: rev_cases; cases vs; simp)+
    then show ?thesis using that(1) pv pn
      by (auto simp: t'_def unlink_def Let_def split: option.splits)
  qed
  moreover have "p_next (procs t' p) = None \<and> p_prev (procs t' p) = None"
    by (simp add: t'_def unlink_def Let_def)
  moreover have "p_q_level (procs t' x) = p_q_level (procs t x)" for x using nolinks_eqD[OF nl] by blast
  ultimately show ?thesis using q unfolding t'_def[symmetric]
    by (simp add: queue_rep_def link_frame_def seg_append)
qed

subsection \<open>The order of a queue\<close>

text \<open>
  The rank of a process in its queue: I/O wait time first, entry time second, both
  descending from the head.
\<close>

definition prio :: "proc \<Rightarrow> int \<times> nat" where
  "prio P = (sint (p_io_wait_time P), unat (p_queue_entry_time P))"

lemma sint_inject: "sint v = sint w \<longleftrightarrow> v = w" for v w :: cint
proof
  assume "sint v = sint w"
  then have "(scast v :: cint) = scast w" by (simp only: scast_eq)
  then show "v = w" by simp
qed simp

lemma p_is_higher_prio: "p_is_higher P C \<longleftrightarrow> prio C < prio P"
  by (auto simp: p_is_higher_def prio_def word_less_nat_alt sint_inject)

lemma prio_nolinks [simp]: "prio (nolinks P) = prio P"
  by (simp add: prio_def nolinks_def)

definition prio_insert :: "(nat \<Rightarrow> proc) \<Rightarrow> nat \<Rightarrow> nat list \<Rightarrow> nat list" where
  "prio_insert ps p xs = (let low = (\<lambda>x. prio (ps x) < prio (ps p)) in
     takeWhile (Not \<circ> low) xs @ p # dropWhile (Not \<circ> low) xs)"

definition prio_sorted :: "(nat \<Rightarrow> proc) \<Rightarrow> nat list \<Rightarrow> bool" where
  "prio_sorted ps xs \<longleftrightarrow> sorted_wrt (\<lambda>x y. prio (ps y) \<le> prio (ps x)) xs"

lemma set_prio_insert [simp]: "set (prio_insert ps p xs) = insert p (set xs)"
proof -
  have "set (takeWhile Q xs) \<union> set (dropWhile Q xs) = set xs" for Q
    by (metis set_append takeWhile_dropWhile_id)
  then show ?thesis by (auto simp: prio_insert_def Let_def)
qed

lemma prio_sorted_cong:
  "(\<And>x. x \<in> set xs \<Longrightarrow> prio (ps' x) = prio (ps x)) \<Longrightarrow> prio_sorted ps' xs \<longleftrightarrow> prio_sorted ps xs"
  unfolding prio_sorted_def by (auto elim!: sorted_wrt_mono_rel[rotated])

lemma prio_insert_sorted:
  assumes "prio_sorted ps xs"
  shows "prio_sorted ps (prio_insert ps p xs)"
proof -
  define low where "low = (\<lambda>x. prio (ps x) < prio (ps p))"
  let ?a = "takeWhile (Not \<circ> low) xs" and ?b = "dropWhile (Not \<circ> low) xs"
  have s: "sorted_wrt (\<lambda>x y. prio (ps y) \<le> prio (ps x)) (?a @ ?b)"
    using assms by (simp add: prio_sorted_def)
  have a: "\<forall>x \<in> set ?a. prio (ps p) \<le> prio (ps x)"
    by (auto dest!: set_takeWhileD simp: low_def)
  have b: "\<forall>x \<in> set ?b. prio (ps x) \<le> prio (ps p)"
  proof (cases ?b)
    case Nil
    show ?thesis unfolding Nil by simp
  next
    case (Cons y ys)
    then have "low y" using hd_dropWhile[of "Not \<circ> low" xs] by auto
    then have "prio (ps y) \<le> prio (ps p)" by (simp add: low_def)
    moreover have "\<forall>z \<in> set ys. prio (ps z) \<le> prio (ps y)" using s Cons by (simp add: sorted_wrt_append)
    ultimately show ?thesis using Cons by (auto intro: order_trans)
  qed
  have "\<forall>x \<in> set ?a. \<forall>y \<in> set ?b. prio (ps y) \<le> prio (ps x)" using a b order_trans by blast
  then show ?thesis using s a b unfolding prio_sorted_def prio_insert_def Let_def low_def[symmetric]
    by (auto simp: sorted_wrt_append)
qed

subsection \<open>Refinement\<close>

lemma add_scan_eq:
  assumes "seg (procs t) pr vs None" and "length vs \<le> fuel"
  shows "add_scan fuel p l (first_or vs None) t =
    (case dropWhile (Not \<circ> (\<lambda>x. prio (procs t x) < prio (procs t p))) vs of
       [] \<Rightarrow> insert_tail p l t | c # _ \<Rightarrow> Inr (insert_before p l c t))"
  using assms
proof (induction vs arbitrary: pr fuel)
  case (Cons v vs)
  then obtain k where "fuel = Suc k" by (cases fuel) auto
  with Cons show ?case by (auto simp: p_is_higher_prio)
qed simp

text \<open>Replacing one queue, when the others keep their links and levels.\<close>

lemma table_rep_update:
  assumes r: "table_rep t qs" and l: "l < NQUEUE" and q: "queue_rep t' l ys"
    and same: "\<And>x. x \<noteq> p \<Longrightarrow> x \<notin> set (qs l) \<Longrightarrow>
      p_next (procs t' x) = p_next (procs t x) \<and> p_prev (procs t' x) = p_prev (procs t x) \<and>
      p_q_level (procs t' x) = p_q_level (procs t x)"
    and qq: "\<And>k. k \<noteq> l \<Longrightarrow> queues t' k = queues t k"
    and p: "\<And>k. k < NQUEUE \<Longrightarrow> k \<noteq> l \<Longrightarrow> p \<notin> set (qs k)"
    and un: "p < NPROC \<Longrightarrow> p \<notin> set ys \<Longrightarrow> p_next (procs t' p) = None \<and> p_prev (procs t' p) = None"
    and ys: "set (qs l) \<subseteq> insert p (set ys)" "set ys \<subseteq> insert p (set (qs l))"
  shows "table_rep t' (qs(l := ys))"
  unfolding table_rep_def
proof (intro conjI allI impI)
  fix k assume k: "k < NQUEUE"
  show "queue_rep t' k ((qs(l := ys)) k)"
  proof (cases "k = l")
    case False
    have "x \<noteq> p \<and> x \<notin> set (qs l)" if "x \<in> set (qs k)" for x
      using that False k l p table_rep_disjoint[OF r] by blast
    then have "queue_rep t' k (qs k)"
      using same qq[OF False] by (intro queue_rep_cong[OF table_repD[OF r k]]) auto
    then show ?thesis using False by simp
  qed (use q in simp)
next
  fix i assume i: "i < NPROC" and n: "\<forall>k < NQUEUE. i \<notin> set ((qs(l := ys)) k)"
  then have y: "i \<notin> set ys" using l by (metis fun_upd_same)
  show "p_next (procs t' i) = None" and "p_prev (procs t' i) = None"
  proof -
    have "p_next (procs t' i) = None \<and> p_prev (procs t' i) = None"
    proof (cases "i = p")
      case False
      then have "i \<notin> set (qs l)" using y ys by auto
      moreover from this have "i \<notin> queued qs" using n by (auto simp: queued_def split: if_splits)
      ultimately show ?thesis using same[OF False] table_rep_unlinked[OF r i] by simp
    qed (use un i y in simp)
    then show "p_next (procs t' i) = None" and "p_prev (procs t' i) = None" by auto
  qed
qed

lemma queue_at_of_nat: "l < NQUEUE \<Longrightarrow> queue_at (of_nat l) = Inr l"
proof -
  assume "l < NQUEUE"
  then consider "l = 0" | "l = 1" | "l = 2" | "l = 3" by (force simp: NQUEUE_def)
  then show ?thesis by cases (simp_all add: queue_at_def NQUEUE_def)
qed

lemma level_bounds: "l < NQUEUE \<Longrightarrow> sint (of_nat l :: cint) = int l"
proof -
  assume "l < NQUEUE"
  then consider "l = 0" | "l = 1" | "l = 2" | "l = 3" by (force simp: NQUEUE_def)
  then show ?thesis by cases simp_all
qed

text \<open>One queue after the insertion, from the state in which \<open>p\<close> was prepared.\<close>

lemma add_to_one_queue:
  assumes q: "queue_rep t l xs" and p: "p \<notin> set xs" "p < NPROC" "p_q_level (procs t p) = of_nat l"
    "p_next (procs t p) = None" "p_prev (procs t p) = None"
  shows "\<exists>t'. (if q_head (queues t l) = None
       then Inr (q_upd l (\<lambda>q. q\<lparr>q_tail := Some p, q_head := Some p\<rparr>) t)
       else add_scan (Suc NPROC) p l (q_head (queues t l)) t) = Inr t' \<and>
     queue_rep t' l (prio_insert (procs t) p xs) \<and> link_frame p xs l t t'"
proof (cases xs)
  case Nil
  then show ?thesis using q p
    by (auto simp: queue_rep_def link_frame_def prio_insert_def)
next
  case (Cons y ys)
  define low where "low = (\<lambda>x. prio (procs t x) < prio (procs t p))"
  have s: "seg (procs t) None xs None" and hd: "q_head (queues t l) = first_or xs None"
    using q by (simp_all add: queue_rep_def)
  have "length xs \<le> Suc NPROC"
    using distinct_bounded_length[of xs NPROC] q by (simp add: queue_rep_def)
  from add_scan_eq[OF s this, of p l] have scan: "add_scan (Suc NPROC) p l (first_or xs None) t =
    (case dropWhile (Not \<circ> low) xs of [] \<Rightarrow> insert_tail p l t | c # _ \<Rightarrow> Inr (insert_before p l c t))"
    by (simp add: low_def)
  have ins: "prio_insert (procs t) p xs = takeWhile (Not \<circ> low) xs @ p # dropWhile (Not \<circ> low) xs"
    by (simp add: prio_insert_def low_def Let_def)
  have split: "takeWhile (Not \<circ> low) xs @ dropWhile (Not \<circ> low) xs = xs" by simp
  have ne: "q_head (queues t l) \<noteq> None" "xs \<noteq> []" using hd Cons by auto
  show ?thesis
  proof (cases "dropWhile (Not \<circ> low) xs")
    case Nil
    with split ins have "prio_insert (procs t) p xs = xs @ [p]" by simp
    with insert_tail_rep[OF q p(1-4) ne(2)] scan Nil ne hd show ?thesis by simp
  next
    case (Cons c vs)
    with split have xs: "xs = takeWhile (Not \<circ> low) xs @ c # vs" by simp
    have "queue_rep t l (takeWhile (Not \<circ> low) xs @ c # vs)" "p \<notin> set (takeWhile (Not \<circ> low) xs @ c # vs)"
      using q p(1) xs by simp_all
    from insert_before_rep[OF this p(2,3)] scan Cons ne hd ins xs show ?thesis by simp
  qed
qed

lemma add_to_queue_ok:
  assumes r: "table_rep t qs" and p: "p < NPROC" "p \<notin> queued qs" and l: "l < NQUEUE"
  shows "\<exists>t'. add_to_queue ticks p (of_nat l) t = Inr t' \<and>
    table_rep t' (qs(l := prio_insert (procs t') p (qs l))) \<and>
    (\<forall>x. nolinks (procs t' x) = (if x = p then (nolinks (procs t p))\<lparr>p_q_level := of_nat l, p_queue_entry_time := ticks\<rparr>
       else nolinks (procs t x)))"
proof -
  define t1 where "t1 = p_upd p (\<lambda>P. P\<lparr>p_q_level := of_nat l, p_queue_entry_time := ticks,
    p_prev := None, p_next := None\<rparr>) t"
  have pl: "p \<notin> set (qs k)" if "k < NQUEUE" for k using p(2) that by (auto simp: queued_def)
  have q1: "queue_rep t1 l (qs l)"
    by (rule queue_rep_cong[OF table_repD[OF r l]]) (use pl[OF l] in \<open>auto simp: t1_def\<close>)
  have p1: "p_q_level (procs t1 p) = of_nat l" "p_next (procs t1 p) = None" "p_prev (procs t1 p) = None"
    by (simp_all add: t1_def)
  from add_to_one_queue[OF q1 pl[OF l] p(1) p1] obtain t' where
    t': "(if q_head (queues t1 l) = None
       then Inr (q_upd l (\<lambda>q. q\<lparr>q_tail := Some p, q_head := Some p\<rparr>) t1)
       else add_scan (Suc NPROC) p l (q_head (queues t1 l)) t1) = Inr t'"
     "queue_rep t' l (prio_insert (procs t1) p (qs l))" "link_frame p (qs l) l t1 t'" by blast
  have a: "add_to_queue ticks p (of_nat l) t = Inr t'"
    using t'(1) level_bounds[OF l] l unfolding add_to_queue_def Let_def t1_def[symmetric]
    by (auto simp: NQUEUE_def t1_def[symmetric] split: if_splits)
  have nl: "nolinks (procs t' x) = nolinks (procs t1 x)" for x using t'(3) by (simp add: link_frame_def)
  have "prio (procs t' x) = prio (procs t1 x)" for x by (metis nl prio_nolinks)
  then have i: "prio_insert (procs t') p (qs l) = prio_insert (procs t1) p (qs l)"
    by (simp add: prio_insert_def)
  have "table_rep t' (qs(l := prio_insert (procs t1) p (qs l)))"
  proof (rule table_rep_update[OF r l t'(2)])
    fix x assume "x \<noteq> p" "x \<notin> set (qs l)"
    then have "procs t' x = procs t x" using t'(3) by (simp add: link_frame_def t1_def)
    then show "p_next (procs t' x) = p_next (procs t x) \<and> p_prev (procs t' x) = p_prev (procs t x) \<and>
      p_q_level (procs t' x) = p_q_level (procs t x)" by simp
  next
    fix k assume "k \<noteq> l"
    then show "queues t' k = queues t k" using t'(3) by (simp add: link_frame_def t1_def)
  qed (auto simp: pl)
  moreover have "nolinks (procs t1 x) = (if x = p then (nolinks (procs t p))\<lparr>p_q_level := of_nat l, p_queue_entry_time := ticks\<rparr>
       else nolinks (procs t x))" for x by (simp add: t1_def nolinks_def)
  ultimately show ?thesis using a i nl by auto
qed

lemma remove_from_queue_ok:
  assumes r: "table_rep t qs" and l: "l < NQUEUE" and p: "p \<in> set (qs l)"
  shows "\<exists>t'. remove_from_queue p t = Inr t' \<and> table_rep t' (qs(l := remove1 p (qs l))) \<and>
    (\<forall>x. nolinks (procs t' x) = nolinks (procs t x))"
proof -
  obtain us vs where s: "qs l = us @ p # vs" using p by (auto simp: in_set_conv_decomp)
  have q: "queue_rep t l (us @ p # vs)" using table_repD[OF r l] s by simp
  then have d: "distinct (us @ p # vs)" by (simp add: queue_rep_def)
  have lv: "queue_at (p_q_level (procs t p)) = Inr l"
    using table_rep_member[OF r l p] queue_at_of_nat[OF l] by simp
  have "p_prev (procs t p) = last_or us None" "q_head (queues t l) = first_or us (Some p)"
    using q by (auto simp: queue_rep_def seg_append)
  then have "\<not> (p_prev (procs t p) = None \<and> p_next (procs t p) = None \<and> q_head (queues t l) \<noteq> Some p)"
    by auto
  then have e: "remove_from_queue p t = Inr (unlink p l t)" by (auto simp: remove_from_queue_def lv)
  note u = unlink_rep[OF q]
  have rm: "remove1 p (qs l) = us @ vs" using s d by (simp add: remove1_append)
  have "table_rep (unlink p l t) (qs(l := us @ vs))"
  proof (rule table_rep_update[OF r l])
    show "queue_rep (unlink p l t) l (us @ vs)" using u by simp
    fix x assume "x \<noteq> p" "x \<notin> set (qs l)"
    then show "p_next (procs (unlink p l t) x) = p_next (procs t x) \<and>
      p_prev (procs (unlink p l t) x) = p_prev (procs t x) \<and>
      p_q_level (procs (unlink p l t) x) = p_q_level (procs t x)" using u s by (simp add: link_frame_def)
  next
    fix k assume "k < NQUEUE" "k \<noteq> l"
    then show "p \<notin> set (qs k)" using table_rep_disjoint[OF r _ l _ p] by blast
  qed (use u s in \<open>auto simp: link_frame_def\<close>)
  with e u rm show ?thesis by (auto simp: link_frame_def)
qed

text \<open>Removing a process that is in no queue does nothing, if its level is a level.\<close>

lemma remove_from_queue_idle:
  assumes "table_rep t qs" and "p < NPROC" and "p \<notin> queued qs" and "l < NQUEUE"
    and "p_q_level (procs t p) = of_nat l"
  shows "remove_from_queue p t = Inr t"
proof -
  have "q_head (queues t l) = first_or (qs l) None" "p \<notin> set (qs l)"
    using table_repD[OF assms(1,4)] assms(3,4) by (auto simp: queue_rep_def queued_def)
  then have "q_head (queues t l) \<noteq> Some p" by (cases "qs l") auto
  then show ?thesis
    using table_rep_unlinked[OF assms(1,2,3)] queue_at_of_nat[OF assms(4)] assms(5)
    by (simp add: remove_from_queue_def)
qed

text \<open>The scheduler's choice: the head of the first queue that is not empty.\<close>

definition first_queued :: "(nat \<Rightarrow> nat list) \<Rightarrow> nat option" where
  "first_queued qs = first_or (qs 0 @ qs 1 @ qs 2 @ qs 3) None"

lemma get_next_proc_eq:
  assumes "table_rep t qs"
  shows "get_next_proc t = first_queued qs"
proof -
  have h: "q_head (queues t l) = first_or (qs l) None" if "l < NQUEUE" for l
    using table_repD[OF assms that] by (simp add: queue_rep_def)
  have "[0..<4] = [0, 1, 2, 3 :: nat]" by (simp add: upt_rec)
  then show ?thesis
    using h[of 0] h[of 1] h[of 2] h[of 3]
    by (cases "qs 0"; cases "qs 1"; cases "qs 2"; cases "qs 3")
      (simp_all add: get_next_proc_def first_queued_def NQUEUE_def)
qed

lemma init_qeueus_rep:
  assumes "\<forall>i < NPROC. p_next (procs t i) = None \<and> p_prev (procs t i) = None"
  shows "table_rep (init_qeueus t) (\<lambda>_. [])"
proof -
  have "l = 0 \<or> l = 1 \<or> l = 2 \<or> l = 3" if "l < NQUEUE" for l using that by (auto simp: NQUEUE_def)
  with assms show ?thesis by (auto simp: table_rep_def queue_rep_def init_qeueus_def)
qed

subsection \<open>The run queues as an interface\<close>

text \<open>
  What the scheduler relies on: \<open>rep t qs\<close> says which processes wait at which level and in
  which order, \<open>view t\<close> is what the table says of each process apart from the links.
  \<open>edit\<close> assigns scheduling fields of a process that is in no queue.
\<close>

locale run_queues =
  fixes rep :: "'t \<Rightarrow> (nat \<Rightarrow> nat list) \<Rightarrow> bool" and view :: "'t \<Rightarrow> nat \<Rightarrow> proc"
    and enq :: "cuint \<Rightarrow> nat \<Rightarrow> cint \<Rightarrow> 't \<Rightarrow> 't res" and deq :: "nat \<Rightarrow> 't \<Rightarrow> 't res"
    and edit :: "nat \<Rightarrow> (proc \<Rightarrow> proc) \<Rightarrow> 't \<Rightarrow> 't" and nxt :: "'t \<Rightarrow> nat option"
  assumes rep_wf: "rep t qs \<Longrightarrow> l < NQUEUE \<Longrightarrow> distinct (qs l) \<and>
      (\<forall>x \<in> set (qs l). x < NPROC \<and> p_q_level (view t x) = of_nat l)"
    and enq_law: "rep t qs \<Longrightarrow> p < NPROC \<Longrightarrow> p \<notin> queued qs \<Longrightarrow> l < NQUEUE \<Longrightarrow>
      \<exists>t'. enq tk p (of_nat l) t = Inr t' \<and> rep t' (qs(l := prio_insert (view t') p (qs l))) \<and>
        view t' = (view t)(p := (view t p)\<lparr>p_q_level := of_nat l, p_queue_entry_time := tk\<rparr>)"
    and deq_law: "rep t qs \<Longrightarrow> l < NQUEUE \<Longrightarrow> p \<in> set (qs l) \<Longrightarrow>
      \<exists>t'. deq p t = Inr t' \<and> rep t' (qs(l := remove1 p (qs l))) \<and> view t' = view t"
    and edit_law: "rep t qs \<Longrightarrow> p \<notin> queued qs \<Longrightarrow>
      (\<And>P. p_next (f P) = p_next P \<and> p_prev (f P) = p_prev P) \<Longrightarrow> (\<And>P. nolinks (f P) = f (nolinks P)) \<Longrightarrow>
      rep (edit p f t) qs \<and> view (edit p f t) = (view t)(p := f (view t p))"
    and nxt_law: "rep t qs \<Longrightarrow> nxt t = first_queued qs"
begin

lemma levels_disjoint:
  "rep t qs \<Longrightarrow> l < NQUEUE \<Longrightarrow> l' < NQUEUE \<Longrightarrow> x \<in> set (qs l) \<Longrightarrow> x \<in> set (qs l') \<Longrightarrow> l = l'"
  using rep_wf[of t qs l] rep_wf[of t qs l'] level_inj[of l l'] by fastforce

lemma removed_not_queued:
  assumes "rep t qs" and "l < NQUEUE" and "p \<in> set (qs l)"
  shows "p \<notin> queued (qs(l := remove1 p (qs l)))"
proof -
  have "distinct (qs l)" using rep_wf[OF assms(1,2)] by blast
  moreover have "p \<notin> set (qs k)" if "k < NQUEUE" "k \<noteq> l" for k
    using levels_disjoint[OF assms(1) that(1) assms(2) _ assms(3)] that(2) by blast
  ultimately show ?thesis by (auto simp: queued_def)
qed

text \<open>Taking a queued process out, changing it and putting it into the next queue up.\<close>

lemma move_up:
  assumes r: "rep t qs" and l: "Suc l < NQUEUE" and p: "p \<in> set (qs (Suc l))"
    and f: "\<And>P. p_next (f P) = p_next P \<and> p_prev (f P) = p_prev P" "\<And>P. nolinks (f P) = f (nolinks P)"
  shows "\<exists>t1 t2. deq p t = Inr t1 \<and> view t1 = view t \<and> enq tk p (of_nat l) (edit p f t1) = Inr t2 \<and>
    rep t2 (qs(Suc l := remove1 p (qs (Suc l)), l := prio_insert (view t2) p (qs l))) \<and>
    view t2 = (view t)(p := (f (view t p))\<lparr>p_q_level := of_nat l, p_queue_entry_time := tk\<rparr>)"
proof -
  let ?q = "qs(Suc l := remove1 p (qs (Suc l)))"
  obtain t1 where t1: "deq p t = Inr t1" "rep t1 ?q" "view t1 = view t" using deq_law[OF r l p] by blast
  have nq: "p \<notin> queued ?q" by (rule removed_not_queued[OF r l p])
  have e: "rep (edit p f t1) ?q" "view (edit p f t1) = (view t1)(p := f (view t1 p))"
    using edit_law[OF t1(2) nq f] by auto
  have "p < NPROC" using rep_wf[OF r l] p by blast
  from enq_law[OF e(1) this nq, of l tk] l obtain t2 where
    t2: "enq tk p (of_nat l) (edit p f t1) = Inr t2" "rep t2 (?q(l := prio_insert (view t2) p (?q l)))"
    "view t2 = (view (edit p f t1))(p := (view (edit p f t1) p)\<lparr>p_q_level := of_nat l, p_queue_entry_time := tk\<rparr>)"
    by auto
  then show ?thesis using t1 e(2) by (intro exI[of _ t1] exI[of _ t2]) simp
qed

end

definition pview :: "ptable_t \<Rightarrow> nat \<Rightarrow> proc" where
  "pview t = (\<lambda>x. nolinks (procs t x))"

lemma prio_insert_view: "prio_insert (pview t) p xs = prio_insert (procs t) p xs"
  by (simp add: prio_insert_def pview_def)

lemma p_upd_rep:
  assumes "table_rep t qs" and "p \<notin> queued qs"
    and "\<And>P. p_next (f P) = p_next P \<and> p_prev (f P) = p_prev P"
  shows "table_rep (p_upd p f t) qs"
  by (rule table_rep_cong[OF assms(1)]) (use assms(2,3) in auto)

interpretation mlfq: run_queues table_rep pview add_to_queue remove_from_queue p_upd get_next_proc
proof (unfold_locales, goal_cases)
  case (1 t qs l)
  then show ?case using table_rep_distinct[OF 1] table_rep_member[OF 1] by (auto simp: pview_def nolinks_def)
next
  case (2 t qs p l tk)
  from add_to_queue_ok[OF 2(1-4), of tk] obtain t' where
    t': "add_to_queue tk p (of_nat l) t = Inr t'" "table_rep t' (qs(l := prio_insert (procs t') p (qs l)))"
    "\<forall>x. nolinks (procs t' x) = (if x = p then (nolinks (procs t p))\<lparr>p_q_level := of_nat l, p_queue_entry_time := tk\<rparr>
       else nolinks (procs t x))" by blast
  have "pview t' = (pview t)(p := (pview t p)\<lparr>p_q_level := of_nat l, p_queue_entry_time := tk\<rparr>)"
    using t'(3) by (auto simp: pview_def)
  then show ?case using t'(1,2) by (auto simp: prio_insert_view)
next
  case (3 t qs l p)
  from remove_from_queue_ok[OF 3] show ?case by (auto simp: pview_def)
next
  case (4 t qs p f)
  from p_upd_rep[OF 4(1,2)] 4(3,4) show ?case by (auto simp: pview_def)
next
  case (5 t qs)
  then show ?case by (rule get_next_proc_eq)
qed

text \<open>
  C10. \<^verbatim>\<open>add_to_queue\<close> panics exactly for a level outside 0 to 3.  Otherwise, for a process
  that is in no queue, it returns and refines insertion into a list: the queue of that level
  becomes the old one with \<open>p\<close> placed before the first process of lower rank, the links in
  both directions are right again, a queue that was ordered by rank stays ordered, the other
  queues are untouched, and of the process fields only the level and the entry time of \<open>p\<close>
  change.
\<close>

theorem add_to_queue_refines_insert:
  assumes "table_rep t qs" and "p < NPROC" and "p \<notin> queued qs"
  shows "if 0 \<le> sint level \<and> sint level < 4
    then \<exists>t' ys. add_to_queue ticks p level t = Inr t' \<and> ys = prio_insert (procs t') p (qs (nat (sint level))) \<and>
      table_rep t' (qs(nat (sint level) := ys)) \<and>
      (prio_sorted (procs t) (qs (nat (sint level))) \<longrightarrow> prio_sorted (procs t') ys) \<and>
      pview t' = (pview t)(p := (pview t p)\<lparr>p_q_level := level, p_queue_entry_time := ticks\<rparr>)
    else add_to_queue ticks p level t = Inl (Panic ''invalid queue level'')"
proof (cases "0 \<le> sint level \<and> sint level < 4")
  case True
  define l where "l = nat (sint level)"
  have l: "l < NQUEUE" using True unfolding l_def NQUEUE_def by linarith
  have lv: "level = of_nat l" using True level_bounds[OF l] by (simp add: l_def sint_inject[symmetric])
  from mlfq.enq_law[OF assms l, of ticks] obtain t' where
    t': "add_to_queue ticks p level t = Inr t'" "table_rep t' (qs(l := prio_insert (procs t') p (qs l)))"
    "pview t' = (pview t)(p := (pview t p)\<lparr>p_q_level := level, p_queue_entry_time := ticks\<rparr>)"
    by (auto simp: lv prio_insert_view)
  have "prio (procs t' x) = prio (procs t x)" if "x \<in> set (qs l)" for x
  proof -
    have "x \<noteq> p" using assms(3) that l by (auto simp: queued_def)
    then have "pview t' x = pview t x" using t'(3) by simp
    then show ?thesis unfolding pview_def by (metis prio_nolinks)
  qed
  then have "prio_sorted (procs t') (qs l) \<longleftrightarrow> prio_sorted (procs t) (qs l)" by (rule prio_sorted_cong)
  then have "prio_sorted (procs t) (qs l) \<longrightarrow> prio_sorted (procs t') (prio_insert (procs t') p (qs l))"
    by (simp add: prio_insert_sorted)
  then show ?thesis using True t' by (simp add: l_def)
qed (auto simp: add_to_queue_def)

lemma remove1_prio_insert: "p \<notin> set xs \<Longrightarrow> remove1 p (prio_insert ps p xs) = xs"
proof -
  assume "p \<notin> set xs"
  then have "p \<notin> set (takeWhile Q xs)" for Q by (auto dest: set_takeWhileD)
  then show ?thesis by (simp add: prio_insert_def Let_def remove1_append)
qed

text \<open>
  C19. \<^verbatim>\<open>remove_from_queue\<close> undoes \<^verbatim>\<open>add_to_queue\<close>: a process added at a level and
  removed again leaves every queue with the same processes in the same order.
\<close>

theorem add_remove_roundtrip:
  assumes "table_rep t qs" and "p < NPROC" and "p \<notin> queued qs" and "l < NQUEUE"
  shows "\<exists>t1 t2. add_to_queue ticks p (of_nat l) t = Inr t1 \<and> remove_from_queue p t1 = Inr t2 \<and>
    table_rep t2 qs \<and> pview t2 = pview t1"
proof -
  from mlfq.enq_law[OF assms, of ticks] obtain t1 where
    t1: "add_to_queue ticks p (of_nat l) t = Inr t1" "table_rep t1 (qs(l := prio_insert (pview t1) p (qs l)))"
    by blast
  define ys where "ys = prio_insert (pview t1) p (qs l)"
  have "p \<in> set ((qs(l := ys)) l)" by (simp add: ys_def)
  from mlfq.deq_law[OF t1(2)[folded ys_def] assms(4) this] obtain t2 where
    t2: "remove_from_queue p t1 = Inr t2" "pview t2 = pview t1"
    "table_rep t2 ((qs(l := ys))(l := remove1 p ((qs(l := ys)) l)))" by blast
  have "p \<notin> set (qs l)" using assms(3,4) by (auto simp: queued_def)
  then have "table_rep t2 qs" using t2(3) by (simp add: ys_def remove1_prio_insert)
  then show ?thesis using t1(1) t2 by blast
qed

text \<open>
  C18. \<^verbatim>\<open>get_next_proc\<close> picks a process that no other waiting process outranks: all queues
  above its level are empty, and in its own queue nobody has waited longer for I/O, nor
  equally long and entered later.  It returns null exactly when no process waits.
\<close>

theorem get_next_proc_highest:
  assumes "table_rep t qs" and "\<forall>l < NQUEUE. prio_sorted (procs t) (qs l)"
  shows "case get_next_proc t of
      None \<Rightarrow> queued qs = {}
    | Some p \<Rightarrow> \<exists>l < NQUEUE. p \<in> set (qs l) \<and> (\<forall>k < l. qs k = []) \<and>
        (\<forall>x \<in> set (qs l). \<not> p_is_higher (procs t x) (procs t p))"
proof (cases "\<exists>l < NQUEUE. qs l \<noteq> []")
  case True
  define l where "l = (LEAST l. l < NQUEUE \<and> qs l \<noteq> [])"
  have l: "l < NQUEUE" "qs l \<noteq> []" using LeastI_ex[OF True] by (auto simp: l_def)
  have e: "qs k = []" if "k < l" for k using not_less_Least[of k "\<lambda>l. l < NQUEUE \<and> qs l \<noteq> []"] that l(1) by (auto simp: l_def)
  obtain p xs where q: "qs l = p # xs" using l(2) by (cases "qs l") auto
  consider "l = 0" | "l = 1" | "l = 2" | "l = 3" using l(1) by (force simp: NQUEUE_def)
  then have "get_next_proc t = Some p"
    unfolding get_next_proc_eq[OF assms(1)] first_queued_def
    by cases (use e q in \<open>simp_all add: numeral_3_eq_3 numeral_2_eq_2\<close>)
  moreover have "\<forall>x \<in> set (qs l). \<not> p_is_higher (procs t x) (procs t p)"
    using assms(2) l(1) q by (auto simp: prio_sorted_def p_is_higher_prio not_less)
  ultimately show ?thesis using l(1) q e by (auto intro!: exI[of _ l])
next
  case False
  then have "get_next_proc t = None"
    by (simp add: get_next_proc_eq[OF assms(1)] first_queued_def NQUEUE_def)
  with False show ?thesis by (auto simp: queued_def)
qed

text \<open>
  C20. Among processes with equal I/O wait time the queue is last in, first out: a process
  that enters a level later than everybody there, with the I/O wait time they all have, is
  put at the head and is the next of that level to run.
\<close>

theorem equal_io_wait_newest_first:
  assumes "table_rep t qs" and "p < NPROC" and "p \<notin> queued qs" and "l < NQUEUE"
    and "\<forall>x \<in> set (qs l). p_io_wait_time (procs t x) = p_io_wait_time (procs t p) \<and>
      p_queue_entry_time (procs t x) < ticks"
  shows "\<exists>t'. add_to_queue ticks p (of_nat l) t = Inr t' \<and> table_rep t' (qs(l := p # qs l)) \<and>
    q_head (queues t' l) = Some p"
proof -
  from mlfq.enq_law[OF assms(1-4), of ticks] obtain t' where
    t': "add_to_queue ticks p (of_nat l) t = Inr t'" "table_rep t' (qs(l := prio_insert (pview t') p (qs l)))"
    "pview t' = (pview t)(p := (pview t p)\<lparr>p_q_level := of_nat l, p_queue_entry_time := ticks\<rparr>)" by blast
  have "p \<notin> set (qs l)" using assms(3,4) by (auto simp: queued_def)
  then have "\<forall>x \<in> set (qs l). prio (pview t' x) < prio (pview t' p)"
    using assms(5) t'(3) by (auto simp: pview_def prio_def nolinks_def word_less_nat_alt)
  then have "prio_insert (pview t') p (qs l) = p # qs l"
    by (cases "qs l") (auto simp: prio_insert_def Let_def)
  then have r: "table_rep t' (qs(l := p # qs l))" using t'(2) by simp
  then have "q_head (queues t' l) = Some p"
    using table_repD[OF r assms(4)] by (simp add: queue_rep_def)
  then show ?thesis using t'(1) r by blast
qed

subsection \<open>Witnesses\<close>

text \<open>A table of unused slots, and one in which process 4 waits at level 0.\<close>

definition proc0 :: proc where
  "proc0 = \<lparr>p_sz = 0, p_pgdir = 0, p_kstack = 0, p_state = UNUSED, p_pid = 0, p_parent = None, p_tf = 0,
     p_context = 0, p_chan = Ch_null, p_killed = 0, p_ofile = (\<lambda>_. None), p_cwd = None,
     p_name = replicate 16 0, p_q_level = 0, p_cpu_burst = 0, p_cpu_wait = 0, p_io_wait_time = 0,
     p_end_time = 0, p_total_cpu_time = 0, p_queue_entry_time = 0, p_next = None, p_prev = None,
     p_type = IDLE\<rparr>"

definition ptable0 :: ptable_t where
  "ptable0 = \<lparr>procs = (\<lambda>_. proc0), queues = (\<lambda>_. \<lparr>proc_count = 0, q_head = None, q_tail = None\<rparr>)\<rparr>"

definition ptable1 :: ptable_t where
  "ptable1 = q_upd 0 (\<lambda>q. q\<lparr>q_tail := Some 4, q_head := Some 4\<rparr>) ptable0"

lemma ptable0_rep: "table_rep ptable0 (\<lambda>_. [])"
  by (simp add: table_rep_def queue_rep_def ptable0_def proc0_def)

lemma ptable1_rep: "table_rep ptable1 ((\<lambda>_. [])(0 := [4]))"
  by (auto simp: table_rep_def queue_rep_def ptable1_def ptable0_def proc0_def NPROC_def)

lemma small_indices [simp]: "4 < NPROC" "5 < NPROC" "0 < NQUEUE" "2 < NQUEUE"
  by (simp_all add: NPROC_def NQUEUE_def)

lemma empty_queued [simp]: "queued (\<lambda>_. []) = {}" "queued ((\<lambda>_. [])(0 := [4])) = {4}"
  by (auto simp: queued_def NQUEUE_def split: if_splits)

theorem add_to_queue_refines_insert_witness:
  "(\<exists>t'. add_to_queue 7 5 2 ptable0 = Inr t' \<and> q_head (queues t' 2) = Some 5) \<and>
   add_to_queue 7 5 4 ptable0 = Inl (Panic ''invalid queue level'')"
proof
  from add_to_queue_refines_insert[OF ptable0_rep, of 5 2 7] obtain t' where
    t': "add_to_queue 7 5 2 ptable0 = Inr t'" "table_rep t' ((\<lambda>_. [])(2 := prio_insert (procs t') 5 []))"
    by auto
  then have "q_head (queues t' 2) = Some 5"
    using table_repD[OF t'(2), of 2] by (simp add: queue_rep_def prio_insert_def Let_def)
  with t'(1) show "\<exists>t'. add_to_queue 7 5 2 ptable0 = Inr t' \<and> q_head (queues t' 2) = Some 5" by blast
  show "add_to_queue 7 5 4 ptable0 = Inl (Panic ''invalid queue level'')"
    using add_to_queue_refines_insert[OF ptable0_rep, of 5 4 7] by simp
qed

theorem add_remove_roundtrip_witness:
  "\<exists>t1 t2. add_to_queue 7 5 0 ptable1 = Inr t1 \<and> remove_from_queue 5 t1 = Inr t2 \<and>
     table_rep t2 ((\<lambda>_. [])(0 := [4]))"
  using add_remove_roundtrip[OF ptable1_rep, of 5 0 7] by auto

theorem get_next_proc_highest_witness: "get_next_proc ptable1 = Some 4"
proof -
  have "\<forall>l < NQUEUE. prio_sorted (procs ptable1) (((\<lambda>_. [])(0 := [4])) l)"
    by (simp add: prio_sorted_def)
  from get_next_proc_highest[OF ptable1_rep this] show ?thesis
    unfolding empty_queued by (auto split: option.splits if_splits)
qed

theorem equal_io_wait_newest_first_witness:
  "\<exists>t'. add_to_queue 7 5 0 ptable1 = Inr t' \<and> q_head (queues t' 0) = Some 5"
  using equal_io_wait_newest_first[OF ptable1_rep, of 5 0 7]
  by (auto simp: ptable1_def ptable0_def proc0_def)

end
