(* ===== verification/Mlfq.thy ===== *)
theory Mlfq
  imports ProcTable
begin

section \<open>The multi-level feedback policy (proc.c)\<close>

text \<open>
  The timers, time quanta, demotion, promotion and aging of proc.c over the process table.
  The messages that a debug build prints inside \<^verbatim>\<open>#ifdef DEBUG\<close> are left out.
\<close>

subsection \<open>Operations\<close>

text \<open>The body of the loop of \<^verbatim>\<open>update_all_proc_timers\<close>.\<close>

definition tick_proc :: "proc \<Rightarrow> proc" where
  "tick_proc P =
     (if p_pid P = 0 then P
      else if p_state P = RUNNING
        then P\<lparr>p_cpu_burst := p_cpu_burst P + 1, p_total_cpu_time := p_total_cpu_time P + 1\<rparr>
      else if p_state P = RUNNABLE then P\<lparr>p_cpu_wait := p_cpu_wait P + 1\<rparr>
      else if p_state P = SLEEPING then P\<lparr>p_io_wait_time := p_io_wait_time P + 1\<rparr>
      else P)"

definition update_all_proc_timers :: "ptable_t \<Rightarrow> ptable_t" where
  "update_all_proc_timers t = fold (\<lambda>i. p_upd i tick_proc) [0..<NPROC] t"

definition time_quantum :: "cint list" where
  "time_quantum = [10, 20, 40, 80]"

text \<open>Indexing \<^verbatim>\<open>time_quantum[]\<close> with a C \<^verbatim>\<open>int\<close>.\<close>

definition quantum_at :: "cint \<Rightarrow> cint res" where
  "quantum_at l = (if 0 \<le> sint l \<and> nat (sint l) < length time_quantum
                   then Inr (time_quantum ! nat (sint l)) else Inl (Undefined ''time_quantum[]''))"

definition demote_process :: "nat \<Rightarrow> ptable_t \<Rightarrow> ptable_t" where
  "demote_process p t =
     (if p_type (procs t p) = INIT \<or> p_type (procs t p) = SHELL then t
      else if p_q_level (procs t p) = 3 then p_upd p (\<lambda>P. P\<lparr>p_cpu_burst := 0\<rparr>) t
      else p_upd p (\<lambda>P. P\<lparr>p_q_level := p_q_level P + 1, p_cpu_burst := 0, p_cpu_wait := 0,
                         p_io_wait_time := 0\<rparr>) t)"

definition promote_process :: "cuint \<Rightarrow> nat \<Rightarrow> ptable_t \<Rightarrow> ptable_t res" where
  "promote_process ticks p t =
     (if p_type (procs t p) = INIT \<or> p_type (procs t p) = SHELL \<or> p_q_level (procs t p) = 0
      then Inr t
      else bindR (remove_from_queue p t) (\<lambda>t1.
        let t2 = p_upd p (\<lambda>P. P\<lparr>p_q_level := p_q_level P - 1, p_cpu_wait := 0, p_cpu_burst := 0\<rparr>) t1
        in add_to_queue ticks p (p_q_level (procs t2 p)) t2))"

text \<open>The inner loop of \<^verbatim>\<open>check_aging\<close>: the successor is read before the promotion.\<close>

fun aging_walk :: "nat \<Rightarrow> cuint \<Rightarrow> nat option \<Rightarrow> ptable_t \<Rightarrow> ptable_t res" where
  "aging_walk fuel ticks None t = Inr t"
| "aging_walk 0 ticks (Some tmp) t = Inl Diverges"
| "aging_walk (Suc fuel) ticks (Some tmp) t =
     (let next_proc = p_next (procs t tmp) in
      bindR (if 250 \<le> sint (p_cpu_wait (procs t tmp)) then promote_process ticks tmp t else Inr t)
        (aging_walk fuel ticks next_proc))"

definition check_aging :: "cuint \<Rightarrow> ptable_t \<Rightarrow> ptable_t res" where
  "check_aging ticks t =
     foldR (\<lambda>lv t. aging_walk (Suc NPROC) ticks (q_head (queues t lv)) t) [1..<4] t"

definition check_time_quantum :: "nat \<Rightarrow> ptable_t \<Rightarrow> ptable_t res" where
  "check_time_quantum p t =
     bindR (quantum_at (p_q_level (procs t p))) (\<lambda>q.
       if sint q \<le> sint (p_cpu_burst (procs t p)) then Inr (demote_process p t) else Inr t)"

subsection \<open>Ordered queues\<close>

definition queues_ok :: "ptable_t \<Rightarrow> (nat \<Rightarrow> nat list) \<Rightarrow> bool" where
  "queues_ok t qs \<longleftrightarrow> table_rep t qs \<and> (\<forall>l < NQUEUE. prio_sorted (pview t) (qs l))"

lemma prio_view [simp]: "prio (pview t x) = prio (procs t x)"
  by (simp add: pview_def)

lemma pview_sel [simp]:
  "p_state (pview t x) = p_state (procs t x)" "p_pid (pview t x) = p_pid (procs t x)"
  "p_type (pview t x) = p_type (procs t x)" "p_q_level (pview t x) = p_q_level (procs t x)"
  "p_cpu_wait (pview t x) = p_cpu_wait (procs t x)" "p_cpu_burst (pview t x) = p_cpu_burst (procs t x)"
  "p_io_wait_time (pview t x) = p_io_wait_time (procs t x)"
  "p_queue_entry_time (pview t x) = p_queue_entry_time (procs t x)"
  "p_killed (pview t x) = p_killed (procs t x)" "p_chan (pview t x) = p_chan (procs t x)"
  "p_end_time (pview t x) = p_end_time (procs t x)"
  "p_total_cpu_time (pview t x) = p_total_cpu_time (procs t x)"
  "p_parent (pview t x) = p_parent (procs t x)" "p_kstack (pview t x) = p_kstack (procs t x)"
  "p_sz (pview t x) = p_sz (procs t x)" "p_pgdir (pview t x) = p_pgdir (procs t x)"
  "p_tf (pview t x) = p_tf (procs t x)" "p_context (pview t x) = p_context (procs t x)"
  "p_ofile (pview t x) = p_ofile (procs t x)" "p_cwd (pview t x) = p_cwd (procs t x)"
  "p_name (pview t x) = p_name (procs t x)"
  by (simp_all add: pview_def nolinks_def)

text \<open>A fact about the views is a fact about the processes, for every field but the links.\<close>

lemma pview_eqD: "pview t' x = P \<Longrightarrow> nolinks (procs t' x) = P"
  by (simp add: pview_def)

lemma queues_okD: "queues_ok t qs \<Longrightarrow> table_rep t qs"
  by (simp add: queues_ok_def)

lemma queued_iff: "x \<in> queued qs \<longleftrightarrow> (\<exists>l < NQUEUE. x \<in> set (qs l))"
  by (auto simp: queued_def)

text \<open>
  Changes of fields that do not matter for the queues: links and levels stay, and so does
  the rank of every queued process.
\<close>

lemma queues_ok_cong:
  assumes "queues_ok t qs" and "\<forall>l < NQUEUE. queues t' l = queues t l"
    and "\<forall>x < NPROC. p_next (procs t' x) = p_next (procs t x) \<and> p_prev (procs t' x) = p_prev (procs t x)"
    and "\<forall>x \<in> queued qs. p_q_level (procs t' x) = p_q_level (procs t x) \<and> prio (procs t' x) = prio (procs t x)"
  shows "queues_ok t' qs"
proof -
  have "table_rep t' qs" by (rule table_rep_cong[OF queues_okD[OF assms(1)]]) (use assms(2-4) in auto)
  moreover have "prio_sorted (pview t') (qs l)" if "l < NQUEUE" for l
  proof -
    have "prio_sorted (pview t') (qs l) \<longleftrightarrow> prio_sorted (pview t) (qs l)"
      by (rule prio_sorted_cong) (use assms(4) that in \<open>auto simp: queued_iff\<close>)
    then show ?thesis using assms(1) that by (simp add: queues_ok_def)
  qed
  ultimately show ?thesis by (simp add: queues_ok_def)
qed

lemma prio_sorted_remove1: "prio_sorted ps xs \<Longrightarrow> prio_sorted ps (remove1 p xs)"
  unfolding prio_sorted_def by (induction xs) (auto dest: in_set_remove1[THEN iffD1, rotated] notin_set_remove1)

lemma enq_queues_ok:
  assumes q: "queues_ok t qs" and p: "p < NPROC" "p \<notin> queued qs" and l: "l < NQUEUE"
  shows "\<exists>t'. add_to_queue tk p (of_nat l) t = Inr t' \<and> queues_ok t' (qs(l := prio_insert (pview t') p (qs l))) \<and>
    pview t' = (pview t)(p := (pview t p)\<lparr>p_q_level := of_nat l, p_queue_entry_time := tk\<rparr>)"
proof -
  obtain t' where t': "add_to_queue tk p (of_nat l) t = Inr t'"
    "table_rep t' (qs(l := prio_insert (pview t') p (qs l)))"
    "pview t' = (pview t)(p := (pview t p)\<lparr>p_q_level := of_nat l, p_queue_entry_time := tk\<rparr>)"
    using mlfq.enq_law[OF queues_okD[OF q] p l, of tk] by blast
  have "prio_sorted (pview t') (qs k)" if "k < NQUEUE" for k
  proof -
    have "prio_sorted (pview t') (qs k) = prio_sorted (pview t) (qs k)"
      by (rule prio_sorted_cong) (use p(2) that t'(3) in \<open>auto simp: queued_iff\<close>)
    then show ?thesis using q that by (simp add: queues_ok_def)
  qed
  then have "queues_ok t' (qs(l := prio_insert (pview t') p (qs l)))"
    using t'(2) l by (simp add: queues_ok_def prio_insert_sorted)
  with t' show ?thesis by blast
qed

lemma deq_queues_ok:
  assumes q: "queues_ok t qs" and l: "l < NQUEUE" and p: "p \<in> set (qs l)"
  shows "\<exists>t'. remove_from_queue p t = Inr t' \<and> queues_ok t' (qs(l := remove1 p (qs l))) \<and> pview t' = pview t"
proof -
  obtain t' where t': "remove_from_queue p t = Inr t'" "table_rep t' (qs(l := remove1 p (qs l)))"
    "pview t' = pview t" using mlfq.deq_law[OF queues_okD[OF q] l p] by blast
  then have "queues_ok t' (qs(l := remove1 p (qs l)))"
    using q l by (simp add: queues_ok_def prio_sorted_remove1)
  with t' show ?thesis by blast
qed

lemma queued_prio_insert: "l < NQUEUE \<Longrightarrow> queued (qs(l := prio_insert ps p (qs l))) = insert p (queued qs)"
  by (auto simp: queued_iff split: if_splits)

lemma queued_remove1:
  assumes "table_rep t qs" and "l < NQUEUE" and "p \<in> set (qs l)"
  shows "queued (qs(l := remove1 p (qs l))) = queued qs - {p}"
proof -
  have "distinct (qs l)" by (rule table_rep_distinct[OF assms(1,2)])
  moreover have "p \<notin> set (qs k)" if "k < NQUEUE" "k \<noteq> l" for k
    using table_rep_disjoint[OF assms(1) that(1) assms(2) _ assms(3)] that(2) by blast
  ultimately show ?thesis by (auto simp: queued_iff split: if_splits)
qed

subsection \<open>Timers\<close>

lemma fold_p_upd:
  "distinct is \<Longrightarrow> procs (fold (\<lambda>i. p_upd i f) is t) = (\<lambda>i. if i \<in> set is then f (procs t i) else procs t i) \<and>
     queues (fold (\<lambda>i. p_upd i f) is t) = queues t"
  by (induction "is" arbitrary: t) auto

lemma update_all_proc_timers_eq:
  "procs (update_all_proc_timers t) = (\<lambda>i. if i < NPROC then tick_proc (procs t i) else procs t i)"
  "queues (update_all_proc_timers t) = queues t"
  using fold_p_upd[of "[0..<NPROC]" tick_proc t] by (simp_all add: update_all_proc_timers_def)

lemma tick_proc_same [simp]:
  "p_next (tick_proc P) = p_next P" "p_prev (tick_proc P) = p_prev P" "p_state (tick_proc P) = p_state P"
  "p_pid (tick_proc P) = p_pid P" "p_q_level (tick_proc P) = p_q_level P" "p_type (tick_proc P) = p_type P"
  "p_queue_entry_time (tick_proc P) = p_queue_entry_time P" "p_killed (tick_proc P) = p_killed P"
  "p_end_time (tick_proc P) = p_end_time P" "p_chan (tick_proc P) = p_chan P" "p_kstack (tick_proc P) = p_kstack P"
  "p_parent (tick_proc P) = p_parent P"
  "p_state P \<noteq> SLEEPING \<Longrightarrow> p_io_wait_time (tick_proc P) = p_io_wait_time P"
  "p_state P \<noteq> RUNNABLE \<Longrightarrow> p_cpu_wait (tick_proc P) = p_cpu_wait P"
  by (simp_all add: tick_proc_def)

lemma update_all_proc_timers_ok:
  assumes "queues_ok t qs" and "\<forall>x \<in> queued qs. p_state (procs t x) = RUNNABLE"
  shows "queues_ok (update_all_proc_timers t) qs"
  by (rule queues_ok_cong[OF assms(1)]) (use assms(2) in \<open>auto simp: update_all_proc_timers_eq prio_def\<close>)

subsection \<open>Demotion and time quanta\<close>

definition level_ok :: "proc \<Rightarrow> bool" where
  "level_ok P \<longleftrightarrow> 0 \<le> sint (p_q_level P) \<and> sint (p_q_level P) < 4"

lemma level_ok_nat: "level_ok P \<longleftrightarrow> (\<exists>l < NQUEUE. p_q_level P = of_nat l)"
proof
  assume "level_ok P"
  then have "nat (sint (p_q_level P)) < NQUEUE" "p_q_level P = of_nat (nat (sint (p_q_level P)))"
    using level_bounds[of "nat (sint (p_q_level P))"]
    by (auto simp: level_ok_def NQUEUE_def sint_inject[symmetric] nat_less_iff)
  then show "\<exists>l < NQUEUE. p_q_level P = of_nat l" by blast
qed (auto simp: level_ok_def level_bounds NQUEUE_def)

lemma level_cases:
  assumes "level_ok P"
  obtains "p_q_level P = 0" | "p_q_level P = 1" | "p_q_level P = 2" | "p_q_level P = 3"
proof -
  from assms obtain l where "l < NQUEUE" "p_q_level P = of_nat l" by (auto simp: level_ok_nat)
  moreover from this(1) have "l = 0 \<or> l = 1 \<or> l = 2 \<or> l = 3" by (auto simp: NQUEUE_def)
  ultimately show thesis using that by auto
qed

text \<open>What a quantum check makes of the running process.\<close>

definition after_quantum :: "proc \<Rightarrow> proc" where
  "after_quantum P =
     (let l = nat (sint (p_q_level P)) in
      if sint (p_cpu_burst P) < 10 * 2 ^ l \<or> p_type P \<noteq> IDLE then P
      else if l = 3 then P\<lparr>p_cpu_burst := 0\<rparr>
      else P\<lparr>p_q_level := of_nat (l + 1), p_cpu_burst := 0, p_cpu_wait := 0, p_io_wait_time := 0\<rparr>)"

lemma check_time_quantum_eq:
  assumes "level_ok (procs t p)"
  shows "check_time_quantum p t = Inr (p_upd p after_quantum t)"
  using assms
  by (cases rule: level_cases; cases "p_type (procs t p)")
    (simp_all add: check_time_quantum_def quantum_at_def time_quantum_def demote_process_def
      after_quantum_def p_upd_def fun_upd_idem)

lemma after_quantum_level: "level_ok P \<Longrightarrow> level_ok (after_quantum P)"
  by (erule level_cases) (auto simp: after_quantum_def level_ok_def Let_def)

lemma after_quantum_same [simp]:
  "p_next (after_quantum P) = p_next P" "p_prev (after_quantum P) = p_prev P"
  "p_state (after_quantum P) = p_state P" "p_type (after_quantum P) = p_type P"
  "nolinks (after_quantum P) = after_quantum (nolinks P)"
  by (simp_all add: after_quantum_def nolinks_def Let_def)

text \<open>
  C21. One quantum check of a running process with a valid level never goes wrong.  A process
  that used up the quantum of its level (10, 20, 40 and 80 ticks) goes down one level with
  its counters cleared, or stays in level 3 with a fresh quantum; the init process and shells
  are never demoted; below its quantum nothing changes.  The level stays valid.
\<close>

theorem check_time_quantum_spec:
  assumes "level_ok (procs t p)"
  shows "\<exists>t'. check_time_quantum p t = Inr t' \<and> queues t' = queues t \<and> level_ok (procs t' p) \<and>
    (\<forall>x. x \<noteq> p \<longrightarrow> procs t' x = procs t x) \<and>
    procs t' p = (let P = procs t p; l = nat (sint (p_q_level P)) in
      if sint (p_cpu_burst P) < 10 * 2 ^ l \<or> p_type P \<noteq> IDLE then P
      else if l = 3 then P\<lparr>p_cpu_burst := 0\<rparr>
      else P\<lparr>p_q_level := of_nat (l + 1), p_cpu_burst := 0, p_cpu_wait := 0, p_io_wait_time := 0\<rparr>)"
  using check_time_quantum_eq[OF assms] after_quantum_level[OF assms]
  by (simp add: after_quantum_def Let_def)

subsection \<open>Promotion and aging\<close>

definition aged :: "proc \<Rightarrow> bool" where
  "aged P \<longleftrightarrow> 250 \<le> sint (p_cpu_wait P) \<and> p_type P = IDLE \<and> p_q_level P \<noteq> 0"

definition promoted :: "cuint \<Rightarrow> proc \<Rightarrow> proc" where
  "promoted tk P = P\<lparr>p_q_level := p_q_level P - 1, p_cpu_wait := 0, p_cpu_burst := 0, p_queue_entry_time := tk\<rparr>"

lemma pview_p_upd:
  "(\<And>P. nolinks (f P) = f (nolinks P)) \<Longrightarrow> pview (p_upd p f t) = (pview t)(p := f (pview t p))"
  by (auto simp: pview_def)

lemma promote_process_ok:
  assumes q: "queues_ok t qs" and l: "Suc l < NQUEUE" and p: "p \<in> set (qs (Suc l))"
    and ty: "p_type (procs t p) = IDLE"
  shows "\<exists>t'. promote_process tk p t = Inr t' \<and>
    queues_ok t' (qs(Suc l := remove1 p (qs (Suc l)), l := prio_insert (pview t') p (qs l))) \<and>
    pview t' = (pview t)(p := promoted tk (pview t p))"
proof -
  let ?q = "qs(Suc l := remove1 p (qs (Suc l)))"
  let ?f = "\<lambda>P. P\<lparr>p_q_level := p_q_level P - 1, p_cpu_wait := 0, p_cpu_burst := 0\<rparr>"
  note r = queues_okD[OF q]
  have lv: "p_q_level (procs t p) = of_nat (Suc l)" and pn: "p < NPROC" using table_rep_member[OF r l p] by auto
  obtain t1 where t1: "remove_from_queue p t = Inr t1" "queues_ok t1 ?q" "pview t1 = pview t"
    using deq_queues_ok[OF q l p] by blast
  have nq: "p \<notin> queued ?q" by (simp add: queued_remove1[OF r l p])
  have q2: "queues_ok (p_upd p ?f t1) ?q" by (rule queues_ok_cong[OF t1(2)]) (use nq in auto)
  have v2: "pview (p_upd p ?f t1) = (pview t)(p := ?f (pview t p))"
    using pview_p_upd[of ?f p t1] by (simp add: t1(3) nolinks_def)
  have lv2: "p_q_level (procs (p_upd p ?f t1) p) = of_nat l"
    using arg_cong[OF fun_cong[OF t1(3), of p], of p_q_level] lv by simp
  obtain t' where t': "add_to_queue tk p (of_nat l) (p_upd p ?f t1) = Inr t'"
    "queues_ok t' (?q(l := prio_insert (pview t') p (?q l)))"
    "pview t' = (pview (p_upd p ?f t1))(p := (pview (p_upd p ?f t1) p)\<lparr>p_q_level := of_nat l, p_queue_entry_time := tk\<rparr>)"
    using enq_queues_ok[OF q2 pn nq, of l tk] l by auto
  have nz: "p_q_level (procs t p) \<noteq> 0" using lv level_inj[of "Suc l" 0] l by (auto simp: NQUEUE_def)
  have "promote_process tk p t = Inr t'"
    using t1(1) t'(1) lv2 nz ty by (simp add: promote_process_def Let_def)
  moreover have "pview t' = (pview t)(p := promoted tk (pview t p))"
    using t'(3) v2 lv by (auto simp: promoted_def)
  ultimately show ?thesis using t'(2) by auto
qed

text \<open>The walk over the rest \<open>vs\<close> of queue \<open>l + 1\<close>.\<close>

lemma aging_walk_ok:
  assumes "queues_ok t qs" and "Suc l < NQUEUE" and "qs (Suc l) = us @ vs" and "length vs \<le> fuel"
  shows "\<exists>t' qs'. aging_walk fuel tk (first_or vs None) t = Inr t' \<and> queues_ok t' qs' \<and>
    queued qs' = queued qs \<and> (\<forall>k. k \<noteq> l \<and> k \<noteq> Suc l \<longrightarrow> qs' k = qs k) \<and>
    pview t' = (\<lambda>x. if x \<in> set vs \<and> aged (pview t x) then promoted tk (pview t x) else pview t x)"
  using assms
proof (induction vs arbitrary: t qs us fuel)
  case Nil
  then show ?case by auto
next
  case (Cons v vs)
  then obtain k where k: "fuel = Suc k" by (cases fuel) auto
  note r = queues_okD[OF Cons.prems(1)] and l = Cons.prems(2)
  have v: "v \<in> set (qs (Suc l))" using Cons.prems(3) by simp
  have d: "v \<notin> set vs" "v \<notin> set us" using table_rep_distinct[OF r l] Cons.prems(3) by auto
  have lv: "p_q_level (procs t v) \<noteq> 0"
    using table_rep_member[OF r l v] level_inj[of "Suc l" 0] l by (auto simp: NQUEUE_def)
  have nx: "p_next (procs t v) = first_or vs None"
    using table_repD[OF r l] Cons.prems(3) by (simp add: queue_rep_def seg_append)
  show ?case
  proof (cases "aged (pview t v)")
    case False
    then have "(if 250 \<le> sint (p_cpu_wait (procs t v)) then promote_process tk v t else Inr t) = Inr t"
      by (cases "p_type (procs t v)") (auto simp: aged_def promote_process_def lv)
    moreover have "qs (Suc l) = (us @ [v]) @ vs" using Cons.prems(3) by simp
    from Cons.IH[OF Cons.prems(1) l this, of k] Cons.prems(4) k obtain t' qs' where
      "aging_walk k tk (first_or vs None) t = Inr t'" "queues_ok t' qs'" "queued qs' = queued qs"
      "\<forall>k. k \<noteq> l \<and> k \<noteq> Suc l \<longrightarrow> qs' k = qs k"
      "pview t' = (\<lambda>x. if x \<in> set vs \<and> aged (pview t x) then promoted tk (pview t x) else pview t x)" by auto
    moreover from False have "(x = v \<or> x \<in> set vs) \<and> aged (pview t x) \<longleftrightarrow> x \<in> set vs \<and> aged (pview t x)" for x
      by auto
    ultimately show ?thesis by (intro exI[of _ t'] exI[of _ qs']) (simp add: k nx)
  next
    case True
    then have ty: "p_type (procs t v) = IDLE" and w: "250 \<le> sint (p_cpu_wait (procs t v))" by (auto simp: aged_def)
    obtain t1 where t1: "promote_process tk v t = Inr t1"
      "queues_ok t1 (qs(Suc l := remove1 v (qs (Suc l)), l := prio_insert (pview t1) v (qs l)))"
      "pview t1 = (pview t)(v := promoted tk (pview t v))"
      using promote_process_ok[OF Cons.prems(1) l v ty] by blast
    define qs1 where "qs1 = qs(Suc l := remove1 v (qs (Suc l)), l := prio_insert (pview t1) v (qs l))"
    have q1: "qs1 (Suc l) = us @ vs" using Cons.prems(3) d by (simp add: qs1_def remove1_append)
    have "queued qs1 = insert v (queued (qs(Suc l := remove1 v (qs (Suc l)))))"
      unfolding qs1_def using queued_prio_insert[of l "qs(Suc l := remove1 v (qs (Suc l)))" "pview t1" v] l by simp
    then have qd: "queued qs1 = queued qs"
      using v l by (auto simp: queued_remove1[OF r l v] queued_iff)
    from Cons.IH[OF t1(2)[folded qs1_def] l q1, of k] Cons.prems(4) k obtain t' qs' where
      t': "aging_walk k tk (first_or vs None) t1 = Inr t'" "queues_ok t' qs'" "queued qs' = queued qs1"
      "\<forall>k. k \<noteq> l \<and> k \<noteq> Suc l \<longrightarrow> qs' k = qs1 k"
      "pview t' = (\<lambda>x. if x \<in> set vs \<and> aged (pview t1 x) then promoted tk (pview t1 x) else pview t1 x)" by auto
    have "pview t' = (\<lambda>x. if x \<in> set (v # vs) \<and> aged (pview t x) then promoted tk (pview t x) else pview t x)"
      using t'(5) t1(3) d True by (auto simp: fun_eq_iff)
    moreover have "\<forall>k. k \<noteq> l \<and> k \<noteq> Suc l \<longrightarrow> qs' k = qs k" using t'(4) by (simp add: qs1_def)
    ultimately show ?thesis using t' w t1(1) qd
      by (intro exI[of _ t'] exI[of _ qs']) (simp add: k nx)
  qed
qed

lemma in_queue_iff:
  assumes "table_rep t qs" and "l < NQUEUE"
  shows "x \<in> set (qs l) \<longleftrightarrow> x \<in> queued qs \<and> p_q_level (procs t x) = of_nat l"
  unfolding queued_iff by (metis table_rep_member[OF assms(1)] assms(2) level_inj)

lemma aging_level_ok:
  assumes q: "queues_ok t qs" and l: "Suc l < NQUEUE"
  shows "\<exists>t' qs'. aging_walk (Suc NPROC) tk (q_head (queues t (Suc l))) t = Inr t' \<and> queues_ok t' qs' \<and>
    queued qs' = queued qs \<and> pview t' = (\<lambda>x. if x \<in> queued qs \<and> p_q_level (pview t x) = of_nat (Suc l) \<and>
      aged (pview t x) then promoted tk (pview t x) else pview t x)"
proof -
  note r = queues_okD[OF q]
  have "length (qs (Suc l)) \<le> Suc NPROC" using table_rep_length[OF r l] by simp
  from aging_walk_ok[OF q l _ this, of "[]" tk] obtain t' qs' where
    t': "aging_walk (Suc NPROC) tk (first_or (qs (Suc l)) None) t = Inr t'" "queues_ok t' qs'"
    "queued qs' = queued qs"
    "pview t' = (\<lambda>x. if x \<in> set (qs (Suc l)) \<and> aged (pview t x) then promoted tk (pview t x) else pview t x)"
    by auto
  have "q_head (queues t (Suc l)) = first_or (qs (Suc l)) None"
    using table_repD[OF r l] by (simp add: queue_rep_def)
  then show ?thesis using t' unfolding in_queue_iff[OF r l]
    by (intro exI[of _ t'] exI[of _ qs']) (simp add: conj_assoc)
qed

lemma promoted_not_aged [simp]: "\<not> aged (promoted tk P)"
  by (simp add: aged_def promoted_def)

lemma queued_level: "queues_ok t qs \<Longrightarrow> x \<in> queued qs \<Longrightarrow> level_ok (pview t x)"
  by (force simp: queued_iff level_ok_nat dest: queues_okD table_rep_member)

lemma check_aging_ok:
  assumes "queues_ok t qs"
  shows "\<exists>t' qs'. check_aging tk t = Inr t' \<and> queues_ok t' qs' \<and> queued qs' = queued qs \<and>
    pview t' = (\<lambda>x. if x \<in> queued qs \<and> aged (pview t x) then promoted tk (pview t x) else pview t x)"
proof -
  let ?up = "\<lambda>l t x. if x \<in> queued qs \<and> p_q_level (pview t x) = of_nat l \<and> aged (pview t x)
    then promoted tk (pview t x) else pview t x"
  obtain t1 qs1 where t1: "aging_walk (Suc NPROC) tk (q_head (queues t 1)) t = Inr t1" "queues_ok t1 qs1"
    "queued qs1 = queued qs" "pview t1 = ?up 1 t"
    using aging_level_ok[OF assms, of 0 tk] by (auto simp: NQUEUE_def)
  obtain t2 qs2 where t2: "aging_walk (Suc NPROC) tk (q_head (queues t1 2)) t1 = Inr t2" "queues_ok t2 qs2"
    "queued qs2 = queued qs" "pview t2 = ?up 2 t1"
    using aging_level_ok[OF t1(2), of 1 tk] t1(3) by (auto simp: NQUEUE_def numeral_2_eq_2)
  obtain t3 qs3 where t3: "aging_walk (Suc NPROC) tk (q_head (queues t2 3)) t2 = Inr t3" "queues_ok t3 qs3"
    "queued qs3 = queued qs" "pview t3 = ?up 3 t2"
    using aging_level_ok[OF t2(2), of 2 tk] t2(3) by (auto simp: NQUEUE_def numeral_3_eq_3 numeral_2_eq_2)
  have "[1..<4] = [1, 2, 3 :: nat]" by (simp add: upt_rec)
  then have "check_aging tk t = Inr t3" using t1(1) t2(1) t3(1) by (simp add: check_aging_def)
  moreover have "pview t3 = (\<lambda>x. if x \<in> queued qs \<and> aged (pview t x) then promoted tk (pview t x) else pview t x)"
  proof
    fix x
    show "pview t3 x = (if x \<in> queued qs \<and> aged (pview t x) then promoted tk (pview t x) else pview t x)"
    proof (cases "x \<in> queued qs \<and> aged (pview t x)")
      case True
      then have "level_ok (pview t x)" "p_q_level (pview t x) \<noteq> 0"
        using queued_level[OF assms] by (auto simp: aged_def)
      then show ?thesis using True t1(4) t2(4) t3(4) by (cases rule: level_cases) simp_all
    qed (use t1(4) t2(4) t3(4) in auto)
  qed
  ultimately show ?thesis using t3(2,3) by blast
qed

text \<open>
  C9. Aging is exact: \<^verbatim>\<open>check_aging\<close> returns (its walks end although it relinks the
  queues while walking them), every queued process below level 0 that has waited 250 ticks or
  more and is neither init nor a shell goes up exactly one level with its wait and burst
  counters cleared, no other process changes, the same processes stay queued, and all queues
  are well linked and ordered by rank afterwards.
\<close>

theorem check_aging_spec:
  assumes "queues_ok t qs"
  shows "\<exists>t' qs'. check_aging tk t = Inr t' \<and> queues_ok t' qs' \<and> queued qs' = queued qs \<and>
    pview t' = (\<lambda>x. if x \<in> queued qs \<and> aged (pview t x) then promoted tk (pview t x) else pview t x)"
  using assms by (rule check_aging_ok)

subsection \<open>Witnesses\<close>

text \<open>Process 5 runs at level 1 and used its 20 ticks; process 4 waited 250 ticks at level 3.\<close>

definition ptable2 :: ptable_t where
  "ptable2 = q_upd 3 (\<lambda>q. q\<lparr>q_tail := Some 4, q_head := Some 4\<rparr>)
     (p_upd 4 (\<lambda>P. P\<lparr>p_pid := 4, p_state := RUNNABLE, p_q_level := 3, p_cpu_wait := 250\<rparr>)
     (p_upd 5 (\<lambda>P. P\<lparr>p_pid := 5, p_state := RUNNING, p_q_level := 1, p_cpu_burst := 20\<rparr>) ptable0))"

lemma ptable2_ok: "queues_ok ptable2 ((\<lambda>_. [])(3 := [4]))"
  by (auto simp: queues_ok_def table_rep_def queue_rep_def ptable2_def ptable0_def proc0_def NPROC_def
      NQUEUE_def prio_sorted_def)

theorem check_time_quantum_spec_witness:
  "\<exists>t'. check_time_quantum 5 ptable2 = Inr t' \<and> p_q_level (procs t' 5) = 2 \<and> p_cpu_burst (procs t' 5) = 0"
proof -
  have "level_ok (procs ptable2 5)" by (simp add: ptable2_def level_ok_def)
  from check_time_quantum_spec[OF this] show ?thesis
    by (auto simp: Let_def ptable2_def ptable0_def proc0_def)
qed

theorem check_aging_spec_witness:
  "\<exists>t'. check_aging 1000 ptable2 = Inr t' \<and> p_q_level (procs t' 4) = 2 \<and> p_cpu_wait (procs t' 4) = 0"
proof -
  from check_aging_spec[OF ptable2_ok, of 1000] obtain t' where
    t': "check_aging 1000 ptable2 = Inr t'"
    "pview t' = (\<lambda>x. if x \<in> queued ((\<lambda>_. [])(3 := [4])) \<and> aged (pview ptable2 x)
       then promoted 1000 (pview ptable2 x) else pview ptable2 x)" by blast
  have "4 \<in> queued ((\<lambda>_. [])(3 := [4]))" "aged (pview ptable2 4)"
    by (auto simp: queued_iff NQUEUE_def aged_def ptable2_def ptable0_def proc0_def)
  then have v: "pview t' 4 = promoted 1000 (pview ptable2 4)" using t'(2) by simp
  have "p_q_level (procs t' 4) = 2 \<and> p_cpu_wait (procs t' 4) = 0"
    using arg_cong[OF v, of p_q_level] arg_cong[OF v, of p_cpu_wait]
    by (simp add: promoted_def ptable2_def)
  with t'(1) show ?thesis by blast
qed

subsection \<open>The invariant of the process table\<close>

text \<open>
  Exactly the runnable processes are in the queues, the queues are well linked and ordered,
  and every process has a level.
\<close>

definition pt_inv_qs :: "ptable_t \<Rightarrow> (nat \<Rightarrow> nat list) \<Rightarrow> bool" where
  "pt_inv_qs t qs \<longleftrightarrow> queues_ok t qs \<and> (\<forall>i < NPROC. p_state (procs t i) = RUNNABLE \<longleftrightarrow> i \<in> queued qs) \<and>
     (\<forall>i < NPROC. level_ok (procs t i))"

definition pt_inv :: "ptable_t \<Rightarrow> bool" where
  "pt_inv t \<longleftrightarrow> (\<exists>qs. pt_inv_qs t qs)"

lemma pt_inv_qsD:
  assumes "pt_inv_qs t qs"
  shows "queues_ok t qs" "table_rep t qs" "i < NPROC \<Longrightarrow> p_state (procs t i) = RUNNABLE \<longleftrightarrow> i \<in> queued qs"
    "i < NPROC \<Longrightarrow> level_ok (procs t i)" "queued qs \<subseteq> {..<NPROC}"
proof -
  show q: "queues_ok t qs" using assms by (simp add: pt_inv_qs_def)
  show r: "table_rep t qs" by (rule queues_okD[OF q])
  show "i < NPROC \<Longrightarrow> p_state (procs t i) = RUNNABLE \<longleftrightarrow> i \<in> queued qs"
    "i < NPROC \<Longrightarrow> level_ok (procs t i)" using assms by (simp_all add: pt_inv_qs_def)
  show "queued qs \<subseteq> {..<NPROC}" using table_rep_member[OF r] by (auto simp: queued_iff)
qed

lemma level_ok_view [simp]: "level_ok (pview t x) \<longleftrightarrow> level_ok (procs t x)"
  by (simp add: level_ok_def)

text \<open>The invariant depends on states and levels only through the views.\<close>

lemma pt_inv_qsI:
  assumes "queues_ok t qs" and "\<And>i. i < NPROC \<Longrightarrow> p_state (pview t i) = RUNNABLE \<longleftrightarrow> i \<in> queued qs"
    and "\<And>i. i < NPROC \<Longrightarrow> level_ok (pview t i)"
  shows "pt_inv_qs t qs"
  using assms by (simp add: pt_inv_qs_def)

lemma pt_inv_edit:
  assumes i: "pt_inv_qs t qs" and p: "p \<notin> queued qs"
    and f: "p_next (f (procs t p)) = p_next (procs t p)" "p_prev (f (procs t p)) = p_prev (procs t p)"
      "p_state (f (procs t p)) \<noteq> RUNNABLE" "level_ok (f (procs t p))"
  shows "pt_inv_qs (p_upd p f t) qs"
proof -
  have "queues_ok (p_upd p f t) qs"
    by (rule queues_ok_cong[OF pt_inv_qsD(1)[OF i]]) (use p f in auto)
  then show ?thesis using pt_inv_qsD(3,4)[OF i] p f by (auto simp: pt_inv_qs_def)
qed

text \<open>
  Making a process runnable: the state change and \<^verbatim>\<open>add_to_queue(p, p->q_level)\<close>, as
  \<^verbatim>\<open>yield\<close>, \<^verbatim>\<open>wakeup1\<close> and \<^verbatim>\<open>kill\<close> do it.
\<close>

definition make_runnable :: "cuint \<Rightarrow> nat \<Rightarrow> ptable_t \<Rightarrow> ptable_t res" where
  "make_runnable tk p t =
     (let t1 = p_upd p (\<lambda>P. P\<lparr>p_state := RUNNABLE\<rparr>) t in add_to_queue tk p (p_q_level (procs t1 p)) t1)"

lemma make_runnable_ok:
  assumes i: "pt_inv_qs t qs" and p: "p < NPROC" "p_state (procs t p) \<noteq> RUNNABLE"
  shows "\<exists>t' l. make_runnable tk p t = Inr t' \<and> l < NQUEUE \<and> p_q_level (procs t p) = of_nat l \<and>
    pt_inv_qs t' (qs(l := prio_insert (pview t') p (qs l))) \<and>
    pview t' = (pview t)(p := (pview t p)\<lparr>p_state := RUNNABLE, p_queue_entry_time := tk\<rparr>)"
proof -
  let ?f = "\<lambda>P. P\<lparr>p_state := RUNNABLE\<rparr>"
  have nq: "p \<notin> queued qs" using pt_inv_qsD(3)[OF i p(1)] p(2) by simp
  obtain l where l: "l < NQUEUE" "p_q_level (procs t p) = of_nat l"
    using pt_inv_qsD(4)[OF i p(1)] by (auto simp: level_ok_nat)
  have q1: "queues_ok (p_upd p ?f t) qs"
    by (rule queues_ok_cong[OF pt_inv_qsD(1)[OF i]]) (use nq in auto)
  have v1: "pview (p_upd p ?f t) = (pview t)(p := ?f (pview t p))"
    using pview_p_upd[of ?f p t] by (simp add: nolinks_def)
  obtain t' where t': "add_to_queue tk p (of_nat l) (p_upd p ?f t) = Inr t'"
    "queues_ok t' (qs(l := prio_insert (pview t') p (qs l)))"
    "pview t' = (pview (p_upd p ?f t))(p := (pview (p_upd p ?f t) p)\<lparr>p_q_level := of_nat l, p_queue_entry_time := tk\<rparr>)"
    using enq_queues_ok[OF q1 p(1) nq l(1), of tk] by blast
  have v: "pview t' = (pview t)(p := (pview t p)\<lparr>p_state := RUNNABLE, p_queue_entry_time := tk\<rparr>)"
  proof -
    have "(pview t p)\<lparr>p_q_level := of_nat l\<rparr> = pview t p"
      using l(2) by (cases "pview t p") (metis pview_sel(4) proc.select_convs(14) proc.update_convs(14))
    then show ?thesis unfolding t'(3) v1 by (cases "pview t p") simp
  qed
  have "pt_inv_qs t' (qs(l := prio_insert (pview t') p (qs l)))"
  proof (rule pt_inv_qsI[OF t'(2)])
    fix x assume x: "x < NPROC"
    show "p_state (pview t' x) = RUNNABLE \<longleftrightarrow> x \<in> queued (qs(l := prio_insert (pview t') p (qs l)))"
      using pt_inv_qsD(3)[OF i x] unfolding queued_prio_insert[OF l(1)] v by simp
    show "level_ok (pview t' x)" using pt_inv_qsD(4)[OF i x] unfolding v by (auto simp: level_ok_def)
  qed
  then show ?thesis using t'(1) l v by (intro exI[of _ t'] exI[of _ l]) (simp add: make_runnable_def)
qed

text \<open>Taking a runnable process out of its queue to run it, as \<^verbatim>\<open>scheduler\<close> does.\<close>

lemma dispatch_ok:
  assumes i: "pt_inv_qs t qs" and p: "p \<in> set (qs l)" "l < NQUEUE"
  shows "\<exists>t'. remove_from_queue p (p_upd p (\<lambda>P. P\<lparr>p_state := RUNNING\<rparr>) t) = Inr t' \<and>
    pt_inv_qs t' (qs(l := remove1 p (qs l))) \<and> pview t' = (pview t)(p := (pview t p)\<lparr>p_state := RUNNING\<rparr>)"
proof -
  let ?f = "\<lambda>P. P\<lparr>p_state := RUNNING\<rparr>"
  have q1: "queues_ok (p_upd p ?f t) qs"
    by (rule queues_ok_cong[OF pt_inv_qsD(1)[OF i]]) (auto simp: prio_def)
  obtain t' where t': "remove_from_queue p (p_upd p ?f t) = Inr t'" "queues_ok t' (qs(l := remove1 p (qs l)))"
    "pview t' = pview (p_upd p ?f t)" using deq_queues_ok[OF q1 p(2,1)] by blast
  have v: "pview t' = (pview t)(p := ?f (pview t p))"
    using t'(3) pview_p_upd[of ?f p t] by (simp add: nolinks_def)
  have qd: "queued (qs(l := remove1 p (qs l))) = queued qs - {p}"
    by (rule queued_remove1[OF pt_inv_qsD(2)[OF i] p(2,1)])
  have "pt_inv_qs t' (qs(l := remove1 p (qs l)))"
  proof (rule pt_inv_qsI[OF t'(2)])
    fix x assume x: "x < NPROC"
    show "p_state (pview t' x) = RUNNABLE \<longleftrightarrow> x \<in> queued (qs(l := remove1 p (qs l)))"
      using pt_inv_qsD(3)[OF i x] unfolding qd v by simp
    show "level_ok (pview t' x)" using pt_inv_qsD(4)[OF i x] unfolding v by (auto simp: level_ok_def)
  qed
  then show ?thesis using t'(1) v by blast
qed

end
