(* ===== verification/Sched.thy ===== *)
theory Sched
  imports Vm Mlfq
begin

section \<open>Scheduling: choosing, yielding, sleeping, waking, killing (proc.c, trap.c)\<close>

text \<open>
  The functions of proc.c that move processes between states, with their locking, and the
  timer part of \<^verbatim>\<open>trap\<close>.  A context switch ends one kernel thread's step and begins
  another's: a function that calls \<^verbatim>\<open>swtch\<close> is split there into the part up to the
  switch and the part after it (\<open>_pre\<close> and \<open>_post\<close>).  \<^verbatim>\<open>swtch\<close> itself and the saved
  registers it moves are assembly and are not modelled; that control returns to the right
  half is the step relation at the end of this theory.
\<close>

subsection \<open>State\<close>

record sched_state = vm_state +
  ptable :: ptable_t
  initproc :: "nat option"
  nextpid :: cint
  ticks :: cuint

definition KSTACKSIZE :: cuint where
  "KSTACKSIZE = 4096"

definition SEG_KDATA :: "16 word" where
  "SEG_KDATA = 2"

definition upd_pt :: "(ptable_t \<Rightarrow> ptable_t) \<Rightarrow> 'a sched_state_scheme \<Rightarrow> 'a sched_state_scheme" where
  "upd_pt f s = s\<lparr>ptable := f (ptable s)\<rparr>"

definition try_pt :: "(ptable_t \<Rightarrow> ptable_t res) \<Rightarrow> 'a sched_state_scheme \<Rightarrow> 'a sched_state_scheme res" where
  "try_pt f s = bindR (f (ptable s)) (\<lambda>t. Inr (s\<lparr>ptable := t\<rparr>))"

definition proc_at :: "'a sched_state_scheme \<Rightarrow> nat \<Rightarrow> proc" where
  "proc_at s p = procs (ptable s) p"

text \<open>Following a pointer that may be null.\<close>

definition deref :: "string \<Rightarrow> 'b option \<Rightarrow> 'b res" where
  "deref what p = (case p of None \<Rightarrow> Inl (Undefined what) | Some x \<Rightarrow> Inr x)"

subsection \<open>Operations\<close>

definition pinit :: "'a sched_state_scheme \<Rightarrow> 'a sched_state_scheme" where
  "pinit s = upd_pt init_qeueus (initlock L_ptable ''ptable'' s)"

definition cpuid :: "8 word \<Rightarrow> 'a machine_scheme \<Rightarrow> nat res" where
  "cpuid a s = mycpu a s"

definition myproc :: "8 word \<Rightarrow> 'a machine_scheme \<Rightarrow> (nat option \<times> 'a machine_scheme) res" where
  "myproc a s =
     bindR (pushcli a s) (\<lambda>s1.
     bindR (mycpu a s1) (\<lambda>c.
       let p = cpu_proc (cpus s1 c) in
       bindR (popcli a s1) (\<lambda>s2. Inr (p, s2))))"

definition switchuvm :: "8 word \<Rightarrow> nat option \<Rightarrow> 'a sched_state_scheme \<Rightarrow> 'a sched_state_scheme res" where
  "switchuvm a q s =
     (case q of
        None \<Rightarrow> Inl (Panic ''switchuvm: no process'')
      | Some p \<Rightarrow>
          if p_kstack (proc_at s p) = 0 then Inl (Panic ''switchuvm: no kstack'')
          else if p_pgdir (proc_at s p) = 0 then Inl (Panic ''switchuvm: no pgdir'')
          else
            bindR (pushcli a s) (\<lambda>s1.
            bindR (mycpu a s1) (\<lambda>c.
              let s2 = upd_cpu c (\<lambda>k. k\<lparr>ts_ss0 := push_bit 3 SEG_KDATA,
                                        ts_esp0 := p_kstack (proc_at s1 p) + KSTACKSIZE,
                                        ts_iomb := 0xFFFF\<rparr>) s1;
                  s3 = lcr3 a (V2P (p_pgdir (proc_at s2 p))) s2
              in popcli a s3)))"

text \<open>
  \<open>scheduler_start\<close> is the code before the loop.  \<open>scheduler_pick\<close> is one turn of the loop
  up to \<^verbatim>\<open>swtch\<close>; it returns the process switched to, and when there is none it is the
  whole turn.  \<open>scheduler_back\<close> is what follows \<^verbatim>\<open>swtch\<close> when the process gives the CPU
  back.  The local variable \<^verbatim>\<open>c\<close> is the CPU found before the loop.
\<close>

definition scheduler_start :: "8 word \<Rightarrow> 'a sched_state_scheme \<Rightarrow> (nat \<times> 'a sched_state_scheme) res" where
  "scheduler_start a s = bindR (mycpu a s) (\<lambda>c. Inr (c, upd_cpu c (\<lambda>k. k\<lparr>cpu_proc := None\<rparr>) s))"

definition scheduler_pick ::
  "8 word \<Rightarrow> nat \<Rightarrow> 'a sched_state_scheme \<Rightarrow> (nat option \<times> 'a sched_state_scheme) res" where
  "scheduler_pick a c s =
     bindR (acquire a L_ptable (sti a s)) (\<lambda>s1.
       case get_next_proc (ptable s1) of
         None \<Rightarrow> bindR (release a L_ptable s1) (\<lambda>s2. Inr (None, s2))
       | Some p \<Rightarrow>
           if p_state (proc_at s1 p) = RUNNABLE \<and> p_kstack (proc_at s1 p) \<noteq> 0 then
             let s2 = upd_cpu c (\<lambda>k. k\<lparr>cpu_proc := Some p\<rparr>) s1 in
             bindR (switchuvm a (Some p) s2) (\<lambda>s3.
             let s4 = upd_pt (p_upd p (\<lambda>P. P\<lparr>p_state := RUNNING\<rparr>)) s3 in
             bindR (try_pt (remove_from_queue p) s4) (\<lambda>s5. Inr (Some p, s5)))
           else bindR (release a L_ptable s1) (\<lambda>s2. Inr (None, s2)))"

definition scheduler_back :: "8 word \<Rightarrow> nat \<Rightarrow> 'a sched_state_scheme \<Rightarrow> 'a sched_state_scheme res" where
  "scheduler_back a c s =
     release a L_ptable (upd_cpu c (\<lambda>k. k\<lparr>cpu_proc := None\<rparr>) (switchkvm a s))"

text \<open>\<open>sched_pre\<close> returns the saved \<^verbatim>\<open>intena\<close>, which \<open>sched_post\<close> restores.\<close>

definition sched_pre :: "8 word \<Rightarrow> 'a sched_state_scheme \<Rightarrow> (cint \<times> 'a sched_state_scheme) res" where
  "sched_pre a s =
     bindR (myproc a s) (\<lambda>(q, s1).
     bindR (holding a L_ptable s1) (\<lambda>(h, s2).
       if \<not> h then Inl (Panic ''sched ptable.lock'')
       else bindR (mycpu a s2) (\<lambda>c.
         if ncli (cpus s2 c) \<noteq> 1 then Inl (Panic ''sched locks'')
         else bindR (deref ''sched: p->state'' q) (\<lambda>p.
           if p_state (proc_at s2 p) = RUNNING then Inl (Panic ''sched running'')
           else if readeflags_IF a s2 \<noteq> 0 then Inl (Panic ''sched interruptible'')
           else Inr (intena (cpus s2 c), s2)))))"

definition sched_post :: "8 word \<Rightarrow> cint \<Rightarrow> 'a sched_state_scheme \<Rightarrow> 'a sched_state_scheme res" where
  "sched_post a ie s = bindR (mycpu a s) (\<lambda>c. Inr (upd_cpu c (\<lambda>k. k\<lparr>intena := ie\<rparr>) s))"

definition yield_pre :: "8 word \<Rightarrow> 'a sched_state_scheme \<Rightarrow> (cint \<times> 'a sched_state_scheme) res" where
  "yield_pre a s =
     bindR (acquire a L_ptable s) (\<lambda>s1.
     bindR (myproc a s1) (\<lambda>(q1, s2).
     bindR (deref ''yield: myproc()->state'' q1) (\<lambda>p1.
     let s3 = upd_pt (p_upd p1 (\<lambda>P. P\<lparr>p_state := RUNNABLE\<rparr>)) s2 in
     bindR (myproc a s3) (\<lambda>(q2, s4).
     bindR (deref ''yield: myproc()->q_level'' q2) (\<lambda>p2.
     bindR (try_pt (add_to_queue (ticks s4) p2 (p_q_level (proc_at s4 p2))) s4) (\<lambda>s5.
     sched_pre a s5))))))"

definition yield_post :: "8 word \<Rightarrow> cint \<Rightarrow> 'a sched_state_scheme \<Rightarrow> 'a sched_state_scheme res" where
  "yield_post a ie s = bindR (sched_post a ie s) (release a L_ptable)"

text \<open>
  \<^verbatim>\<open>sleep(chan, lk)\<close>; a null \<^verbatim>\<open>lk\<close> is \<^const>\<open>None\<close>.  The second half runs when the
  process is scheduled again.
\<close>

definition sleep_pre ::
  "8 word \<Rightarrow> chan \<Rightarrow> lockid option \<Rightarrow> 'a sched_state_scheme \<Rightarrow> (cint \<times> 'a sched_state_scheme) res" where
  "sleep_pre a ch lk s =
     bindR (myproc a s) (\<lambda>(q, s1).
       case q of
         None \<Rightarrow> Inl (Panic ''sleep'')
       | Some p \<Rightarrow>
           (case lk of
              None \<Rightarrow> Inl (Panic ''sleep without lk'')
            | Some L \<Rightarrow>
                bindR (if L \<noteq> L_ptable then bindR (acquire a L_ptable s1) (release a L) else Inr s1) (\<lambda>s2.
                sched_pre a (upd_pt (p_upd p (\<lambda>P. P\<lparr>p_chan := ch, p_state := SLEEPING\<rparr>)) s2))))"

definition sleep_post ::
  "8 word \<Rightarrow> nat \<Rightarrow> lockid \<Rightarrow> cint \<Rightarrow> 'a sched_state_scheme \<Rightarrow> 'a sched_state_scheme res" where
  "sleep_post a p L ie s =
     bindR (sched_post a ie s) (\<lambda>s1.
       let s2 = upd_pt (p_upd p (\<lambda>P. P\<lparr>p_chan := Ch_null\<rparr>)) s1 in
       if L \<noteq> L_ptable then bindR (release a L_ptable s2) (acquire a L) else Inr s2)"

definition wakeup1 :: "chan \<Rightarrow> 'a sched_state_scheme \<Rightarrow> 'a sched_state_scheme res" where
  "wakeup1 ch s =
     foldR (\<lambda>p s.
       if p_state (proc_at s p) = SLEEPING \<and> p_chan (proc_at s p) = ch then
         let s1 = upd_pt (p_upd p (\<lambda>P. P\<lparr>p_state := RUNNABLE\<rparr>)) s in
         try_pt (add_to_queue (ticks s1) p (p_q_level (proc_at s1 p))) s1
       else Inr s) [0..<NPROC] s"

definition wakeup :: "8 word \<Rightarrow> chan \<Rightarrow> 'a sched_state_scheme \<Rightarrow> 'a sched_state_scheme res" where
  "wakeup a ch s = bindR (acquire a L_ptable s) (\<lambda>s1. bindR (wakeup1 ch s1) (release a L_ptable))"

definition kill :: "8 word \<Rightarrow> cint \<Rightarrow> 'a sched_state_scheme \<Rightarrow> (cint \<times> 'a sched_state_scheme) res" where
  "kill a pid s =
     bindR (acquire a L_ptable s) (\<lambda>s1.
       case List.find (\<lambda>p. p_pid (proc_at s1 p) = pid) [0..<NPROC] of
         None \<Rightarrow> bindR (release a L_ptable s1) (\<lambda>s2. Inr (-1, s2))
       | Some p \<Rightarrow>
           let s2 = upd_pt (p_upd p (\<lambda>P. P\<lparr>p_killed := 1\<rparr>)) s1 in
           bindR (if p_state (proc_at s2 p) = SLEEPING then
                    let s3 = upd_pt (p_upd p (\<lambda>P. P\<lparr>p_state := RUNNABLE\<rparr>)) s2 in
                    try_pt (add_to_queue (ticks s3) p (p_q_level (proc_at s3 p))) s3
                  else Inr s2) (\<lambda>s4.
           bindR (release a L_ptable s4) (\<lambda>s5. Inr (0, s5))))"

subsection \<open>The timer interrupt of trap.c\<close>

text \<open>The part under \<^verbatim>\<open>cpuid() == 0\<close>.\<close>

definition clock_tick :: "8 word \<Rightarrow> 'a sched_state_scheme \<Rightarrow> 'a sched_state_scheme res" where
  "clock_tick a s =
     bindR (cpuid a s) (\<lambda>c.
       if c = 0 then
         bindR (acquire a L_ticks s) (\<lambda>s1.
         bindR (wakeup a Ch_ticks (s1\<lparr>ticks := ticks s1 + 1\<rparr>)) (release a L_ticks))
       else Inr s)"

text \<open>
  The part between \<^verbatim>\<open>acquire(&ptable.lock)\<close> and \<^verbatim>\<open>release(&ptable.lock)\<close> for the
  process \<open>p\<close> that \<^verbatim>\<open>myproc()\<close> returns.
\<close>

definition tick_running :: "cuint \<Rightarrow> nat \<Rightarrow> ptable_t \<Rightarrow> ptable_t res" where
  "tick_running tk p t =
     (let t1 = update_all_proc_timers t in
      bindR (if 0 < sint (p_end_time (procs t1 p)) \<and>
                sint (p_end_time (procs t1 p)) \<le> sint (p_total_cpu_time (procs t1 p))
             then Inr (p_upd p (\<lambda>P. P\<lparr>p_killed := 1\<rparr>) t1)
             else if p_killed (procs t1 p) = 0 then check_time_quantum p t1
             else Inr t1) (check_aging tk))"

definition trap_timer :: "8 word \<Rightarrow> 'a sched_state_scheme \<Rightarrow> 'a sched_state_scheme res" where
  "trap_timer a s =
     bindR (clock_tick a s) (\<lambda>s1.
     bindR (myproc a s1) (\<lambda>(q, s2).
       case q of
         None \<Rightarrow> Inr s2
       | Some p \<Rightarrow>
           if p_state (proc_at s2 p) = RUNNING then
             bindR (acquire a L_ptable s2) (\<lambda>s3.
             bindR (try_pt (tick_running (ticks s3) p) s3) (release a L_ptable))
           else Inr s2))"

subsection \<open>One timer tick of the process table\<close>

lemma nolinks_tick [simp]: "nolinks (tick_proc P) = tick_proc (nolinks P)"
  by (simp add: tick_proc_def nolinks_def)

lemma nolinks_sel [simp]:
  "p_end_time (nolinks P) = p_end_time P" "p_total_cpu_time (nolinks P) = p_total_cpu_time P"
  "p_killed (nolinks P) = p_killed P" "nolinks (P\<lparr>p_killed := k\<rparr>) = (nolinks P)\<lparr>p_killed := k\<rparr>"
  by (simp_all add: nolinks_def)

lemma level_ok_same [simp]:
  "level_ok (tick_proc P) \<longleftrightarrow> level_ok P" "level_ok (P\<lparr>p_killed := k\<rparr>) \<longleftrightarrow> level_ok P"
  "level_ok (P\<lparr>p_state := st\<rparr>) \<longleftrightarrow> level_ok P" "level_ok (P\<lparr>p_chan := ch\<rparr>) \<longleftrightarrow> level_ok P"
  by (simp_all add: level_ok_def)

lemma pview_timers: "pview (update_all_proc_timers t) = (\<lambda>x. if x < NPROC then tick_proc (pview t x) else pview t x)"
  by (auto simp: pview_def update_all_proc_timers_eq)

lemma timers_inv: "pt_inv_qs t qs \<Longrightarrow> pt_inv_qs (update_all_proc_timers t) qs"
proof -
  assume i: "pt_inv_qs t qs"
  have "\<forall>x \<in> queued qs. p_state (procs t x) = RUNNABLE" using pt_inv_qsD(3,5)[OF i] by auto
  then have "queues_ok (update_all_proc_timers t) qs"
    by (rule update_all_proc_timers_ok[OF pt_inv_qsD(1)[OF i]])
  then show ?thesis using pt_inv_qsD(3,4)[OF i]
    by (auto simp: pt_inv_qs_def update_all_proc_timers_eq level_ok_def)
qed

text \<open>What the tick does to the process that runs, and to one that waits.\<close>

definition ran_tick :: "proc \<Rightarrow> proc" where
  "ran_tick P =
     (let Q = tick_proc P in
      if 0 < sint (p_end_time Q) \<and> sint (p_end_time Q) \<le> sint (p_total_cpu_time Q) then Q\<lparr>p_killed := 1\<rparr>
      else if p_killed Q = 0 then after_quantum Q else Q)"

definition wait_tick :: "cuint \<Rightarrow> proc \<Rightarrow> proc" where
  "wait_tick tk P = (let Q = tick_proc P in if aged Q then promoted tk Q else Q)"

lemma ran_tick_same: "p_state (ran_tick P) = p_state P" "level_ok P \<Longrightarrow> level_ok (ran_tick P)"
  by (auto simp: ran_tick_def Let_def after_quantum_level)

lemma tick_running_ok:
  assumes i: "pt_inv_qs t qs" and p: "p < NPROC" "p_state (procs t p) = RUNNING"
  shows "\<exists>t' qs'. tick_running tk p t = Inr t' \<and> pt_inv_qs t' qs' \<and> queued qs' = queued qs \<and>
    pview t' = (\<lambda>x. if x = p then ran_tick (pview t x) else if x \<in> queued qs then wait_tick tk (pview t x)
                     else if x < NPROC then tick_proc (pview t x) else pview t x)"
proof -
  define t1 where "t1 = update_all_proc_timers t"
  define f where "f = (\<lambda>Q. if 0 < sint (p_end_time Q) \<and> sint (p_end_time Q) \<le> sint (p_total_cpu_time Q)
      then Q\<lparr>p_killed := 1\<rparr> else if p_killed Q = 0 then after_quantum Q else Q)"
  have i1: "pt_inv_qs t1 qs" unfolding t1_def by (rule timers_inv[OF i])
  have np: "p \<notin> queued qs" using pt_inv_qsD(3)[OF i p(1)] p(2) by simp
  have lv: "level_ok (procs t1 p)" by (rule pt_inv_qsD(4)[OF i1 p(1)])
  have st: "p_state (procs t1 p) = RUNNING" using p by (simp add: t1_def update_all_proc_timers_eq)
  have nf: "nolinks (f P) = f (nolinks P)" for P
    by (simp add: f_def)
  have "p_upd p f t1 = (if 0 < sint (p_end_time (procs t1 p)) \<and>
                sint (p_end_time (procs t1 p)) \<le> sint (p_total_cpu_time (procs t1 p))
             then p_upd p (\<lambda>P. P\<lparr>p_killed := 1\<rparr>) t1
             else if p_killed (procs t1 p) = 0 then p_upd p after_quantum t1 else t1)"
    by (simp add: f_def p_upd_def fun_upd_idem)
  then have e: "tick_running tk p t = check_aging tk (p_upd p f t1)"
    using check_time_quantum_eq[OF lv] by (simp add: tick_running_def t1_def[symmetric] Let_def)
  have i2: "pt_inv_qs (p_upd p f t1) qs"
    by (rule pt_inv_edit[OF i1 np]) (auto simp: f_def st lv after_quantum_level)
  have v2: "pview (p_upd p f t1) = (pview t1)(p := f (pview t1 p))" by (rule pview_p_upd) (rule nf)
  obtain t' qs' where t': "check_aging tk (p_upd p f t1) = Inr t'" "queues_ok t' qs'" "queued qs' = queued qs"
    "pview t' = (\<lambda>x. if x \<in> queued qs \<and> aged (pview (p_upd p f t1) x)
       then promoted tk (pview (p_upd p f t1) x) else pview (p_upd p f t1) x)"
    using check_aging_ok[OF pt_inv_qsD(1)[OF i2], of tk] by blast
  have q: "queued qs \<subseteq> {..<NPROC}" by (rule pt_inv_qsD(5)[OF i])
  have v: "pview t' = (\<lambda>x. if x = p then ran_tick (pview t x) else if x \<in> queued qs then wait_tick tk (pview t x)
                     else if x < NPROC then tick_proc (pview t x) else pview t x)"
  proof
    fix x
    have fp: "f (tick_proc P) = ran_tick P" for P by (simp only: f_def ran_tick_def Let_def)
    show "pview t' x = (if x = p then ran_tick (pview t x) else if x \<in> queued qs then wait_tick tk (pview t x)
                     else if x < NPROC then tick_proc (pview t x) else pview t x)"
    proof (cases "x = p")
      case True
      then show ?thesis unfolding t'(4) v2 unfolding t1_def pview_timers using np p(1) by (simp add: fp)
    next
      case False
      show ?thesis
      proof (cases "x \<in> queued qs")
        case True
        then have "x < NPROC" using q by auto
        with False True show ?thesis unfolding t'(4) v2 unfolding t1_def pview_timers wait_tick_def Let_def by (simp only: fun_upd_other) simp
      next
        case nq: False
        with False show ?thesis unfolding t'(4) v2 unfolding t1_def pview_timers by simp
      qed
    qed
  qed
  have "pt_inv_qs t' qs'"
  proof (rule pt_inv_qsI[OF t'(2)])
    fix x assume x: "x < NPROC"
    have "p_state (pview t' x) = p_state (pview (p_upd p f t1) x)" unfolding t'(4) by (simp add: promoted_def)
    then show "p_state (pview t' x) = RUNNABLE \<longleftrightarrow> x \<in> queued qs'"
      using pt_inv_qsD(3)[OF i2 x] t'(3) by simp
    show "level_ok (pview t' x)"
    proof (cases "x \<in> queued qs'")
      case True
      then show ?thesis using queued_level[OF t'(2)] by blast
    next
      case False
      then have "pview t' x = pview (p_upd p f t1) x" unfolding t'(4) using t'(3) by simp
      then show ?thesis using pt_inv_qsD(4)[OF i2 x] by (metis level_ok_view)
    qed
  qed
  then show ?thesis using e t'(1,3) v by (intro exI[of _ t'] exI[of _ qs']) simp
qed


subsection \<open>Aging prevents starvation\<close>

text \<open>An upper bound on the ticks a waiting process needs to reach level 0.\<close>

definition ticks_to_top :: "proc \<Rightarrow> nat" where
  "ticks_to_top P =
     (let l = nat (sint (p_q_level P)) in
      if l = 0 then 0 else 250 * (l - 1) + (if 249 \<le> sint (p_cpu_wait P) then 1 else nat (250 - sint (p_cpu_wait P))))"

definition waiting :: "proc \<Rightarrow> bool" where
  "waiting P \<longleftrightarrow> p_state P = RUNNABLE \<and> p_pid P \<noteq> 0 \<and> p_type P = IDLE \<and> level_ok P \<and>
     (0 < sint (p_q_level P) \<longrightarrow> 0 \<le> sint (p_cpu_wait P) \<and> sint (p_cpu_wait P) < 2 ^ 31 - 1)"

lemma wait_tick_progress:
  assumes "waiting P"
  shows "waiting (wait_tick tk P) \<and> ticks_to_top (wait_tick tk P) \<le> ticks_to_top P - 1"
proof (cases "p_q_level P = 0")
  case True
  then show ?thesis using assms
    by (simp add: waiting_def wait_tick_def Let_def tick_proc_def aged_def ticks_to_top_def level_ok_def)
next
  case False
  then have l: "0 < sint (p_q_level P)" "sint (p_q_level P) < 4"
    using assms sint_inject[of "p_q_level P" 0] by (auto simp: waiting_def level_ok_def order_le_less)
  have w: "0 \<le> sint (p_cpu_wait P)" "sint (p_cpu_wait P + 1) = sint (p_cpu_wait P) + 1"
    using assms l by (auto simp: waiting_def intro: sint_plus_one)
  have d: "sint (p_q_level P - 1) = sint (p_q_level P) - 1" using l by (intro sint_minus_one) simp
  have t: "tick_proc P = P\<lparr>p_cpu_wait := p_cpu_wait P + 1\<rparr>" using assms by (simp add: waiting_def tick_proc_def)
  show ?thesis
  proof (cases "250 \<le> sint (p_cpu_wait P) + 1")
    case True
    then have "wait_tick tk P = promoted tk (tick_proc P)"
      using assms False w by (simp add: wait_tick_def Let_def t aged_def waiting_def)
    then show ?thesis using assms True l d
      by (auto simp: waiting_def ticks_to_top_def Let_def t promoted_def level_ok_def nat_diff_distrib)
  next
    case lt: False
    then have "wait_tick tk P = tick_proc P"
      using w by (simp add: wait_tick_def Let_def t aged_def)
    then show ?thesis using assms lt l w
      by (auto simp: waiting_def ticks_to_top_def Let_def t level_ok_def)
  qed
qed

lemma waiting_run:
  assumes "pt_inv t" and "x < NPROC" and "waiting (pview t x)" and "ticks_to_top (pview t x) \<le> length ts"
    and "\<forall>(tk, p) \<in> set ts. p < NPROC \<and> p_state (procs t p) = RUNNING"
  shows "\<exists>t'. foldR (\<lambda>(tk, p). tick_running tk p) ts t = Inr t' \<and> pt_inv t' \<and> waiting (pview t' x) \<and>
    ticks_to_top (pview t' x) = 0"
  using assms
proof (induction ts arbitrary: t)
  case Nil
  then show ?case by auto
next
  case (Cons e ts)
  obtain tk p where e: "e = (tk, p)" by (cases e)
  from Cons.prems(1) obtain qs where i: "pt_inv_qs t qs" by (auto simp: pt_inv_def)
  have p: "p < NPROC" "p_state (procs t p) = RUNNING" using Cons.prems(5) e by auto
  from tick_running_ok[OF i p, of tk] obtain t' qs' where
    t': "tick_running tk p t = Inr t'" "pt_inv_qs t' qs'" "queued qs' = queued qs"
    "pview t' = (\<lambda>x. if x = p then ran_tick (pview t x) else if x \<in> queued qs then wait_tick tk (pview t x)
                     else if x < NPROC then tick_proc (pview t x) else pview t x)" by blast
  have xq: "x \<in> queued qs" "x \<noteq> p"
    using Cons.prems(2,3) pt_inv_qsD(3)[OF i Cons.prems(2)] p(2) by (auto simp: waiting_def)
  then have vx: "pview t' x = wait_tick tk (pview t x)" using t'(4) by simp
  have "waiting (pview t' x)" "ticks_to_top (pview t' x) \<le> length ts"
    using wait_tick_progress[OF Cons.prems(3), of tk] Cons.prems(4) vx by auto
  moreover have "p_state (procs t' y) = p_state (procs t y)" if "y < NPROC" for y
    using arg_cong[OF fun_cong[OF t'(4), of y], of p_state]
    by (simp add: ran_tick_same wait_tick_def Let_def promoted_def)
  then have "\<forall>(tk, p) \<in> set ts. p < NPROC \<and> p_state (procs t' p) = RUNNING"
    using Cons.prems(5) by fastforce
  moreover have "pt_inv t'" using t'(2) by (auto simp: pt_inv_def)
  ultimately show ?case using Cons.IH[of t'] Cons.prems(2) e t'(1) by simp
qed


end
