(* ===== verification/SchedInv.thy ===== *)
theory SchedInv
  imports Sched
begin

section \<open>The scheduler as a transition system\<close>

text \<open>
  What each operation of \<open>Sched\<close> did when it returned, and the interleavings of these
  operations on several CPUs: every reachable state has a well-formed process table, and no
  process runs on two CPUs.
\<close>

subsection \<open>What each operation did when it returned\<close>

lemma sched_more_eq:
  assumes "machine.more s' = machine.more (s :: 'a sched_state_scheme)"
  shows "mem s' = mem s" "freelist s' = freelist s" "use_lock s' = use_lock s" "kend s' = kend s"
    "kpgdir s' = kpgdir s" "cr3 s' = cr3 s" "data_seg s' = data_seg s" "ptable s' = ptable s"
    "initproc s' = initproc s" "nextpid s' = nextpid s" "ticks s' = ticks s"
    "sched_state.more s' = sched_state.more s" "proc_at s' p = proc_at s p"
  using assms by (cases s, cases s', simp add: proc_at_def)+

text \<open>The CPUs, which process each runs, and the holder of the process-table lock.\<close>

definition same_cpus :: "'a sched_state_scheme \<Rightarrow> 'a sched_state_scheme \<Rightarrow> bool" where
  "same_cpus s s' \<longleftrightarrow> ncpu s' = ncpu s \<and> (\<forall>i. cpu_proc (cpus s' i) = cpu_proc (cpus s i)) \<and>
     (\<forall>b. cpu_at b s' = cpu_at b s)"

definition holder :: "'a machine_scheme \<Rightarrow> nat option" where
  "holder s = (if locked (locks s L_ptable) \<noteq> 0 then lk_cpu (locks s L_ptable) else None)"

lemma same_cpus_refl [simp]: "same_cpus s s"
  by (simp add: same_cpus_def)

lemma same_cpus_trans [trans]: "same_cpus s s' \<Longrightarrow> same_cpus s' s'' \<Longrightarrow> same_cpus s s''"
  by (simp add: same_cpus_def)

lemma same_procs_cpus: "same_procs s s' \<Longrightarrow> same_cpus s s'"
  by (simp add: same_procs_def same_cpus_def)

lemma same_procsD:
  assumes "same_procs s (s' :: 'a sched_state_scheme)"
  shows "ptable s' = ptable s" "ticks s' = ticks s" "proc_at s' p = proc_at s p"
  using assms sched_more_eq[of s' s] by (simp_all add: same_procs_def)

lemma upd_pt_sel [simp]:
  "ptable (upd_pt f s) = f (ptable s)" "ticks (upd_pt f s) = ticks s" "locks (upd_pt f s) = locks s"
  "cpus (upd_pt f s) = cpus s" "ncpu (upd_pt f s) = ncpu s" "hw_if (upd_pt f s) = hw_if s"
  "same_cpus s (upd_pt f s)" "holder (upd_pt f s) = holder s" "cpu_at b (upd_pt f s) = cpu_at b s"
  "same_machine s (upd_pt f s)"
  by (simp_all add: upd_pt_def same_cpus_def holder_def cpu_at_def same_machine_def)

lemma try_pt_Inr: "try_pt f s = Inr s' \<longleftrightarrow> (\<exists>t. f (ptable s) = Inr t \<and> s' = upd_pt (\<lambda>_. t) s)"
  by (auto simp: try_pt_def bindR_eq_Inr upd_pt_def)

lemma proc_at_upd [simp]: "proc_at (upd_pt f s) p = procs (f (ptable s)) p"
  by (simp add: proc_at_def)

lemma acquire_pt:
  "acquire a L_ptable s = Inr s' \<Longrightarrow>
   same_procs s s' \<and> holder s = None \<and> (\<exists>c. cpu_at a s = Some c \<and> holder s' = Some c)"
  using acquire_Inr[of a L_ptable s s'] by (auto simp: holder_def acquire_same_procs)

lemma release_pt:
  "release a L_ptable s = Inr s' \<Longrightarrow>
   same_procs s s' \<and> holder s' = None \<and> (\<exists>c. cpu_at a s = Some c \<and> holder s = Some c)"
  using release_Inr[of a L_ptable s s'] by (auto simp: holder_def release_same_procs)

lemma other_lock_pt:
  "acquire a L s = Inr s' \<Longrightarrow> L \<noteq> L_ptable \<Longrightarrow> same_procs s s' \<and> holder s' = holder s"
  "release a L s = Inr s' \<Longrightarrow> L \<noteq> L_ptable \<Longrightarrow> same_procs s s' \<and> holder s' = holder s"
  using acquire_Inr[of a L s s'] release_Inr[of a L s s']
  by (auto simp: holder_def acquire_same_procs release_same_procs)

lemma myproc_Inr:
  assumes "myproc a s = Inr (q, s')"
  shows "same_procs s s' \<and> locks s' = locks s \<and> (\<exists>c. cpu_at a s = Some c \<and> cpu_proc (cpus s c) = q)"
proof -
  from assms obtain s1 c where s: "pushcli a s = Inr s1" "mycpu a s1 = Inr c" "popcli a s1 = Inr s'"
    "q = cpu_proc (cpus s1 c)" by (auto simp: myproc_def bindR_eq_Inr Let_def)
  show ?thesis
    using pushcli_same_procs[OF s(1)] popcli_same_procs[OF s(3)] pushcli_Inr[OF s(1)] popcli_Inr[OF s(3)] s
    by (auto simp: mycpu_Inr same_procs_def)
qed

lemma deref_Inr [simp]: "deref w q = Inr p \<longleftrightarrow> q = Some p"
  by (auto simp: deref_def split: option.splits)

lemma sched_pre_Inr:
  assumes "sched_pre a s = Inr (ie, s')"
  shows "same_procs s s' \<and> locks s' = locks s \<and>
    (\<exists>c p. cpu_at a s = Some c \<and> cpu_proc (cpus s c) = Some p \<and> holder s = Some c \<and> p_state (proc_at s p) \<noteq> RUNNING)"
proof -
  from assms obtain q s1 c p where s: "myproc a s = Inr (q, s1)" "holding a L_ptable s1 = Inr (True, s')"
    "mycpu a s' = Inr c" "q = Some p" "p_state (proc_at s' p) \<noteq> RUNNING"
    by (auto simp: sched_pre_def bindR_eq_Inr split: if_splits)
  have sp: "same_procs s s'"
    using myproc_Inr[OF s(1)] holding_same_procs[OF s(2)] by (blast intro: same_procs_trans)
  have "holder s = Some c" using holding_Inr[OF s(2)] myproc_Inr[OF s(1)] s(3)
    by (auto simp: holder_def mycpu_Inr same_procs_def)
  then show ?thesis using sp s myproc_Inr[OF s(1)] holding_Inr[OF s(2)] same_procsD(3)[OF sp, of p]
    by (auto simp: mycpu_Inr same_procs_def)
qed

lemma yield_pre_Inr:
  assumes "yield_pre a s = Inr (ie, s')"
  shows "same_cpus s s' \<and> holder s = None \<and> ticks s' = ticks s \<and> (\<exists>c p. cpu_at a s = Some c \<and>
    cpu_proc (cpus s c) = Some p \<and> holder s' = Some c \<and> make_runnable (ticks s) p (ptable s) = Inr (ptable s'))"
proof -
  from assms obtain s1 s2 p1 s4 p2 t where s: "acquire a L_ptable s = Inr s1" "myproc a s1 = Inr (Some p1, s2)"
    "myproc a (upd_pt (p_upd p1 (\<lambda>P. P\<lparr>p_state := RUNNABLE\<rparr>)) s2) = Inr (Some p2, s4)"
    "add_to_queue (ticks s4) p2 (p_q_level (proc_at s4 p2)) (ptable s4) = Inr t"
    "sched_pre a (upd_pt (\<lambda>_. t) s4) = Inr (ie, s')"
    by (auto simp: yield_pre_def bindR_eq_Inr try_pt_Inr Let_def)
  note A = acquire_pt[OF s(1)] and M1 = myproc_Inr[OF s(2)] and M2 = myproc_Inr[OF s(3)] and S = sched_pre_Inr[OF s(5)]
  let ?s3 = "upd_pt (p_upd p1 (\<lambda>P. P\<lparr>p_state := RUNNABLE\<rparr>)) s2"
  have pp: "p2 = p1" using M1 M2 by (auto simp: same_procs_def)
  have t: "ptable s1 = ptable s" "ptable s2 = ptable s" "ticks s2 = ticks s" "ptable s4 = ptable ?s3" "ticks s4 = ticks s"
    using A M1 M2 same_procsD(1,2) by (metis upd_pt_sel(2))+
  have "same_cpus s s'"
    using A M1 M2 S same_procs_cpus upd_pt_sel(7) by (meson same_cpus_trans)
  moreover have "ptable s' = t" "ticks s' = ticks s" using S same_procsD(1,2)[of "upd_pt (\<lambda>_. t) s4" s'] t by auto
  moreover have "make_runnable (ticks s) p1 (ptable s) = Inr t"
    using s(4) pp t by (simp add: make_runnable_def Let_def proc_at_def)
  moreover have "holder s' = Some c" "cpu_proc (cpus s c) = Some p1" if "cpu_at a s = Some c" for c
    using that A M1 M2 S by (auto simp: holder_def same_procs_def)
  ultimately show ?thesis using A M1 by (auto simp: same_procs_def)
qed

lemma lcr3_sel [simp]:
  "cpu_at b (lcr3 a v s) = cpu_at b s" "cpus (lcr3 a v s) = cpus s" "ncpu (lcr3 a v s) = ncpu s"
  "locks (lcr3 a v s) = locks s" "hw_if (lcr3 a v s) = hw_if s"
  by (simp_all add: lcr3_def cpu_at_def)

lemma upd_sched_sel [simp]:
  "ptable (lcr3 a v s) = ptable (s :: 'a sched_state_scheme)" "ticks (lcr3 a v s) = ticks (s :: 'a sched_state_scheme)"
  "ptable (upd_cpu c f s) = ptable s" "ticks (upd_cpu c f s) = ticks s"
  "holder (upd_cpu c f m) = holder m" "holder (lcr3 a v u) = holder u"
  by (simp_all add: lcr3_def upd_cpu_def holder_def)

lemma sched_post_Inr:
  "sched_post a ie s = Inr s' \<Longrightarrow> same_procs s s' \<and> locks s' = locks s \<and> (\<exists>c. cpu_at a s = Some c)"
  by (auto simp: sched_post_def bindR_eq_Inr mycpu_Inr same_procs_def)

lemma yield_post_Inr:
  assumes "yield_post a ie s = Inr s'"
  shows "same_procs s s' \<and> holder s' = None \<and> (\<exists>c. cpu_at a s = Some c \<and> holder s = Some c)"
proof -
  from assms obtain s1 where s: "sched_post a ie s = Inr s1" "release a L_ptable s1 = Inr s'"
    by (auto simp: yield_post_def bindR_eq_Inr)
  from sched_post_Inr[OF s(1)] release_pt[OF s(2)] show ?thesis
    by (auto simp: same_procs_def holder_def)
qed

lemma sleep_pre_Inr:
  assumes "sleep_pre a ch lk s = Inr (ie, s')"
  shows "same_cpus s s' \<and> ticks s' = ticks s \<and> (\<exists>c p. cpu_at a s = Some c \<and> cpu_proc (cpus s c) = Some p \<and>
    (holder s = None \<or> holder s = Some c) \<and> holder s' = Some c \<and>
    ptable s' = p_upd p (\<lambda>P. P\<lparr>p_chan := ch, p_state := SLEEPING\<rparr>) (ptable s))"
proof -
  from assms obtain p s1 L s2 where s: "myproc a s = Inr (Some p, s1)" "lk = Some L"
    "(if L \<noteq> L_ptable then bindR (acquire a L_ptable s1) (release a L) else Inr s1) = Inr s2"
    "sched_pre a (upd_pt (p_upd p (\<lambda>P. P\<lparr>p_chan := ch, p_state := SLEEPING\<rparr>)) s2) = Inr (ie, s')"
    by (cases lk) (auto simp: sleep_pre_def bindR_eq_Inr split: option.splits)
  let ?s3 = "upd_pt (p_upd p (\<lambda>P. P\<lparr>p_chan := ch, p_state := SLEEPING\<rparr>)) s2"
  note M = myproc_Inr[OF s(1)] and S = sched_pre_Inr[OF s(4)]
  have A: "same_procs s1 s2 \<and> (holder s1 = None \<or> holder s1 = holder s2)"
  proof (cases "L = L_ptable")
    case False
    with s(3) obtain u where u: "acquire a L_ptable s1 = Inr u" "release a L u = Inr s2"
      by (auto simp: bindR_eq_Inr)
    with False acquire_pt[OF u(1)] other_lock_pt(2)[OF u(2)] show ?thesis by (auto intro: same_procs_trans)
  qed (use s(3) in simp)
  have sp: "same_procs s s2" using M A by (blast intro: same_procs_trans)
  have "same_cpus s s'"
    using sp S same_procs_cpus upd_pt_sel(7) by (meson same_cpus_trans)
  moreover have "ptable s' = p_upd p (\<lambda>P. P\<lparr>p_chan := ch, p_state := SLEEPING\<rparr>) (ptable s)" "ticks s' = ticks s"
    using S same_procsD(1,2)[of ?s3 s'] same_procsD(1,2)[OF sp] by auto
  ultimately show ?thesis using S M A by (auto simp: holder_def same_procs_def)
qed

lemma sleep_post_Inr:
  assumes "sleep_post a p L ie s = Inr s'"
  shows "same_cpus s s' \<and> ticks s' = ticks s \<and> (\<exists>c. cpu_at a s = Some c \<and>
    (L \<noteq> L_ptable \<longrightarrow> holder s = Some c) \<and> holder s' = (if L = L_ptable then holder s else None)) \<and>
    ptable s' = p_upd p (\<lambda>P. P\<lparr>p_chan := Ch_null\<rparr>) (ptable s)"
proof -
  let ?f = "p_upd p (\<lambda>P. P\<lparr>p_chan := Ch_null\<rparr>)"
  from assms obtain s1 where s: "sched_post a ie s = Inr s1"
    "(if L \<noteq> L_ptable then bindR (release a L_ptable (upd_pt ?f s1)) (acquire a L) else Inr (upd_pt ?f s1)) = Inr s'"
    by (auto simp: sleep_post_def bindR_eq_Inr Let_def)
  note P = sched_post_Inr[OF s(1)]
  have t1: "ptable s1 = ptable s" "ticks s1 = ticks s" "holder s1 = holder s"
    using P same_procsD(1,2)[of s s1] by (auto simp: holder_def)
  show ?thesis
  proof (cases "L = L_ptable")
    case True
    then have "s' = upd_pt ?f s1" using s(2) by simp
    then show ?thesis using True P t1 by (auto simp: same_procs_def same_cpus_def)
  next
    case False
    with s(2) obtain u where u: "release a L_ptable (upd_pt ?f s1) = Inr u" "acquire a L u = Inr s'"
      by (auto simp: bindR_eq_Inr)
    note R = release_pt[OF u(1)] and A = other_lock_pt(1)[OF u(2) False]
    have "same_procs (upd_pt ?f s1) s'" using R A by (blast intro: same_procs_trans)
    note D = same_procsD(1,2)[OF this]
    have "same_cpus s s'" using P R A by (auto simp: same_procs_def same_cpus_def)
    then show ?thesis using False R A D t1 P by (auto simp: same_procs_def)
  qed
qed

lemma switchuvm_Inr:
  assumes "switchuvm a (Some p) s = Inr s'"
  shows "same_cpus s s' \<and> locks s' = locks s \<and> ptable s' = ptable s \<and> ticks s' = ticks s"
proof -
  from assms obtain s1 c where s: "pushcli a s = Inr s1" "mycpu a s1 = Inr c"
    "popcli a (lcr3 a (V2P (p_pgdir (proc_at s1 p)))
      (upd_cpu c (\<lambda>k. k\<lparr>ts_ss0 := push_bit 3 SEG_KDATA, ts_esp0 := p_kstack (proc_at s1 p) + KSTACKSIZE,
         ts_iomb := 0xFFFF\<rparr>) s1)) = Inr s'"
    by (auto simp: switchuvm_def bindR_eq_Inr Let_def upd_cpu_def proc_at_def split: if_splits)
  note D1 = same_procsD(1,2)[OF pushcli_same_procs[OF s(1)]] and D2 = same_procsD(1,2)[OF popcli_same_procs[OF s(3)]]
  have "same_cpus s s'"
    using pushcli_same_procs[OF s(1)] popcli_same_procs[OF s(3)]
    by (auto simp: same_procs_def same_cpus_def)
  then show ?thesis using D1 D2 pushcli_Inr[OF s(1)] popcli_Inr[OF s(3)] by simp
qed

lemma scheduler_pick_Inr:
  assumes "scheduler_pick a c s = Inr (r, s')"
  shows "holder s = None \<and> ticks s' = ticks s \<and> ncpu s' = ncpu s \<and> (\<forall>b. cpu_at b s' = cpu_at b s) \<and>
    (case r of
       None \<Rightarrow> same_cpus s s' \<and> holder s' = None \<and> ptable s' = ptable s
     | Some p \<Rightarrow> get_next_proc (ptable s) = Some p \<and> p_state (proc_at s p) = RUNNABLE \<and>
         (\<exists>d. cpu_at a s = Some d \<and> holder s' = Some d) \<and>
         (\<forall>i. cpu_proc (cpus s' i) = (if i = c then Some p else cpu_proc (cpus s i))) \<and>
         remove_from_queue p (p_upd p (\<lambda>P. P\<lparr>p_state := RUNNING\<rparr>) (ptable s)) = Inr (ptable s'))"
proof -
  from assms obtain s1 where s1: "acquire a L_ptable (sti a s) = Inr s1"
    by (auto simp: scheduler_pick_def bindR_eq_Inr)
  note A = acquire_pt[OF s1]
  have sti: "same_cpus s (sti a s)" "ptable (sti a s) = ptable s" "ticks (sti a s) = ticks s" "holder (sti a s) = holder s"
    by (auto simp: sti_def same_cpus_def cpu_at_def holder_def)
  have t1: "ptable s1 = ptable s" "ticks s1 = ticks s" "same_cpus s s1" "\<And>p. proc_at s1 p = proc_at s p"
    using A same_procsD[of "sti a s" s1] sti same_procs_cpus[of "sti a s" s1]
    by (auto simp: proc_at_def intro: same_cpus_trans)
  show ?thesis
  proof (cases r)
    case None
    with assms s1 have "release a L_ptable s1 = Inr s'"
      by (auto simp: scheduler_pick_def bindR_eq_Inr Let_def split: option.splits if_splits)
    note R = release_pt[OF this]
    then have "same_cpus s s'" using t1(3) same_procs_cpus by (blast intro: same_cpus_trans)
    then show ?thesis using None R A t1 sti same_procsD(1,2)[of s1 s'] by (auto simp: same_cpus_def)
  next
    case (Some p)
    with assms s1 obtain s3 t where s3: "get_next_proc (ptable s1) = Some p" "p_state (proc_at s1 p) = RUNNABLE"
      "switchuvm a (Some p) (upd_cpu c (\<lambda>k. k\<lparr>cpu_proc := Some p\<rparr>) s1) = Inr s3"
      "remove_from_queue p (p_upd p (\<lambda>P. P\<lparr>p_state := RUNNING\<rparr>) (ptable s3)) = Inr t"
      "s' = upd_pt (\<lambda>_. t) (upd_pt (p_upd p (\<lambda>P. P\<lparr>p_state := RUNNING\<rparr>)) s3)"
      by (auto simp: scheduler_pick_def bindR_eq_Inr Let_def try_pt_Inr split: option.splits if_splits)
    note U = switchuvm_Inr[OF s3(3)]
    have "ptable s3 = ptable s" "ticks s3 = ticks s" "holder s3 = holder s1" using U t1 by (auto simp: holder_def)
    then show ?thesis using Some s3 A t1 sti U
      by (auto simp: same_cpus_def same_procs_def)
  qed
qed

lemma scheduler_back_Inr:
  assumes "scheduler_back a c s = Inr s'"
  shows "ptable s' = ptable s \<and> ticks s' = ticks s \<and> ncpu s' = ncpu s \<and> (\<forall>b. cpu_at b s' = cpu_at b s) \<and> holder s' = None \<and>
    (\<exists>d. cpu_at a s = Some d \<and> holder s = Some d) \<and>
    (\<forall>i. cpu_proc (cpus s' i) = (if i = c then None else cpu_proc (cpus s i)))"
proof -
  let ?u = "upd_cpu c (\<lambda>k. k\<lparr>cpu_proc := None\<rparr>) (switchkvm a s)"
  have "release a L_ptable ?u = Inr s'" using assms by (simp add: scheduler_back_def)
  note R = release_pt[OF this]
  have u: "ptable ?u = ptable s" "ticks ?u = ticks s" "holder ?u = holder s" "cpu_at b ?u = cpu_at b s" for b
    by (simp_all add: switchkvm_def)
  have "cpu_proc (cpus ?u i) = (if i = c then None else cpu_proc (cpus s i))" "ncpu ?u = ncpu s" for i
    by (simp_all add: switchkvm_def)
  then show ?thesis using R u same_procsD(1,2)[of ?u s'] by (auto simp: same_procs_def)
qed

subsection \<open>Waking and killing\<close>

definition woken :: "cuint \<Rightarrow> proc \<Rightarrow> proc" where
  "woken tk P = P\<lparr>p_state := RUNNABLE, p_queue_entry_time := tk\<rparr>"

lemma make_runnable_pt:
  assumes "pt_inv t" and "p < NPROC" and "p_state (procs t p) \<noteq> RUNNABLE"
  shows "\<exists>t'. make_runnable tk p t = Inr t' \<and> pt_inv t' \<and> pview t' = (pview t)(p := woken tk (pview t p))"
  using make_runnable_ok[OF _ assms(2,3)] assms(1) unfolding pt_inv_def woken_def by blast

lemma upd_pt_id [simp]: "upd_pt (\<lambda>_. ptable s) s = s"
  by (simp add: upd_pt_def)

lemma upd_pt_upd [simp]: "upd_pt f (upd_pt g s) = upd_pt (\<lambda>t. f (g t)) s"
  by (simp add: upd_pt_def)

lemma try_pt_runnable:
  "(let s1 = upd_pt (p_upd p (\<lambda>P. P\<lparr>p_state := RUNNABLE\<rparr>)) s in
     try_pt (add_to_queue (ticks s1) p (p_q_level (proc_at s1 p))) s1) =
   bindR (make_runnable (ticks s) p (ptable s)) (\<lambda>t. Inr (upd_pt (\<lambda>_. t) s))"
  by (simp add: try_pt_def make_runnable_def Let_def upd_pt_def proc_at_def)

text \<open>The scan of \<^verbatim>\<open>wakeup1\<close> over part of the table.\<close>

lemma wakeup_scan:
  assumes "pt_inv (ptable s)" and "distinct is" and "\<forall>i \<in> set is. i < NPROC"
  shows "\<exists>t'. foldR (\<lambda>p s. if p_state (proc_at s p) = SLEEPING \<and> p_chan (proc_at s p) = ch then
         let s1 = upd_pt (p_upd p (\<lambda>P. P\<lparr>p_state := RUNNABLE\<rparr>)) s in
         try_pt (add_to_queue (ticks s1) p (p_q_level (proc_at s1 p))) s1 else Inr s) is s = Inr (upd_pt (\<lambda>_. t') s) \<and>
    pt_inv t' \<and> pview t' = (\<lambda>x. if x \<in> set is \<and> p_state (pview (ptable s) x) = SLEEPING \<and> p_chan (pview (ptable s) x) = ch
      then woken (ticks s) (pview (ptable s) x) else pview (ptable s) x)"
  using assms
proof (induction "is" arbitrary: s)
  case Nil
  then show ?case by (intro exI[of _ "ptable s"]) simp
next
  case (Cons i ls)
  show ?case
  proof (cases "p_state (proc_at s i) = SLEEPING \<and> p_chan (proc_at s i) = ch")
    case True
    then have st: "p_state (procs (ptable s) i) \<noteq> RUNNABLE" by (simp add: proc_at_def)
    obtain t1 where t1: "make_runnable (ticks s) i (ptable s) = Inr t1" "pt_inv t1"
      "pview t1 = (pview (ptable s))(i := woken (ticks s) (pview (ptable s) i))"
      using make_runnable_pt[OF Cons.prems(1) _ st] Cons.prems(3) by auto
    have "pt_inv (ptable (upd_pt (\<lambda>_. t1) s))" "distinct ls" "\<forall>i \<in> set ls. i < NPROC"
      using t1(2) Cons.prems by simp_all
    from Cons.IH[OF this, unfolded upd_pt_sel] obtain t' where
      t': "foldR (\<lambda>p s. if p_state (proc_at s p) = SLEEPING \<and> p_chan (proc_at s p) = ch then
         let s1 = upd_pt (p_upd p (\<lambda>P. P\<lparr>p_state := RUNNABLE\<rparr>)) s in
         try_pt (add_to_queue (ticks s1) p (p_q_level (proc_at s1 p))) s1 else Inr s) ls (upd_pt (\<lambda>_. t1) s) =
        Inr (upd_pt (\<lambda>_. t') (upd_pt (\<lambda>_. t1) s))" "pt_inv t'"
      "pview t' = (\<lambda>x. if x \<in> set ls \<and> p_state (pview t1 x) = SLEEPING \<and> p_chan (pview t1 x) = ch
        then woken (ticks s) (pview t1 x) else pview t1 x)" by blast
    have "pview t' = (\<lambda>x. if x \<in> set (i # ls) \<and> p_state (pview (ptable s) x) = SLEEPING \<and>
      p_chan (pview (ptable s) x) = ch then woken (ticks s) (pview (ptable s) x) else pview (ptable s) x)"
    proof
      fix x
      show "pview t' x = (if x \<in> set (i # ls) \<and> p_state (pview (ptable s) x) = SLEEPING \<and>
        p_chan (pview (ptable s) x) = ch then woken (ticks s) (pview (ptable s) x) else pview (ptable s) x)"
        unfolding t'(3) t1(3) using Cons.prems(2) True by (cases "x = i") (simp_all add: proc_at_def)
    qed
    moreover have "(let s1 = upd_pt (p_upd i (\<lambda>P. P\<lparr>p_state := RUNNABLE\<rparr>)) s in
       try_pt (add_to_queue (ticks s1) i (p_q_level (proc_at s1 i))) s1) = Inr (upd_pt (\<lambda>_. t1) s)"
      unfolding try_pt_runnable t1(1) by simp
    ultimately show ?thesis using True t' by (intro exI[of _ t']) (simp only: foldR.simps if_True simp_thms bindR_Inr upd_pt_upd)
  next
    case False
    have "distinct ls" "\<forall>i \<in> set ls. i < NPROC" using Cons.prems by simp_all
    from Cons.IH[OF Cons.prems(1) this] obtain t' where
      t': "foldR (\<lambda>p s. if p_state (proc_at s p) = SLEEPING \<and> p_chan (proc_at s p) = ch then
         let s1 = upd_pt (p_upd p (\<lambda>P. P\<lparr>p_state := RUNNABLE\<rparr>)) s in
         try_pt (add_to_queue (ticks s1) p (p_q_level (proc_at s1 p))) s1 else Inr s) ls s = Inr (upd_pt (\<lambda>_. t') s)" "pt_inv t'"
      "pview t' = (\<lambda>x. if x \<in> set ls \<and> p_state (pview (ptable s) x) = SLEEPING \<and> p_chan (pview (ptable s) x) = ch
        then woken (ticks s) (pview (ptable s) x) else pview (ptable s) x)" by blast
    have "pview t' = (\<lambda>x. if x \<in> set (i # ls) \<and> p_state (pview (ptable s) x) = SLEEPING \<and>
      p_chan (pview (ptable s) x) = ch then woken (ticks s) (pview (ptable s) x) else pview (ptable s) x)"
      unfolding t'(3) using False by (auto simp: fun_eq_iff proc_at_def)
    then show ?thesis using False t' by (intro exI[of _ t']) (simp only: foldR.simps if_False simp_thms bindR_Inr)
  qed
qed

lemma wakeup1_ok:
  assumes "pt_inv (ptable s)"
  shows "\<exists>t'. wakeup1 ch s = Inr (upd_pt (\<lambda>_. t') s) \<and> pt_inv t' \<and>
    pview t' = (\<lambda>x. if x < NPROC \<and> p_state (pview (ptable s) x) = SLEEPING \<and> p_chan (pview (ptable s) x) = ch
      then woken (ticks s) (pview (ptable s) x) else pview (ptable s) x)"
  using wakeup_scan[OF assms, of "[0..<NPROC]" ch] by (simp add: wakeup1_def)

text \<open>The body of \<^verbatim>\<open>kill\<close> between its lock operations.\<close>

definition kill_body :: "cuint \<Rightarrow> cint \<Rightarrow> ptable_t \<Rightarrow> ptable_t res" where
  "kill_body tk pid t =
     (case List.find (\<lambda>p. p_pid (procs t p) = pid) [0..<NPROC] of
        None \<Rightarrow> Inr t
      | Some p \<Rightarrow> let t1 = p_upd p (\<lambda>P. P\<lparr>p_killed := 1\<rparr>) t in
          if p_state (procs t1 p) = SLEEPING then make_runnable tk p t1 else Inr t1)"

lemma kill_eq:
  "kill a pid s = bindR (acquire a L_ptable s) (\<lambda>s1. bindR (try_pt (kill_body (ticks s1) pid) s1) (\<lambda>s2.
     bindR (release a L_ptable s2) (\<lambda>s3.
       Inr (if \<exists>p < NPROC. p_pid (proc_at s1 p) = pid then 0 else -1, s3))))"
proof -
  have "(\<exists>p < NPROC. p_pid (proc_at s1 p) = pid) \<longleftrightarrow>
      (case List.find (\<lambda>p. p_pid (proc_at s1 p) = pid) [0..<NPROC] of None \<Rightarrow> False | Some _ \<Rightarrow> True)" for s1 :: "'a sched_state_scheme"
    using find_upt_None[of "\<lambda>p. p_pid (proc_at s1 p) = pid" NPROC]
      find_upt_Some[of "\<lambda>p. p_pid (proc_at s1 p) = pid" NPROC] by (auto split: option.splits)
  then show ?thesis
    unfolding kill_def kill_body_def
    by (auto simp: try_pt_def proc_at_def upd_pt_def make_runnable_def Let_def bindR_assoc split: option.splits
        intro!: bindR_cong)
qed

lemma kill_body_ok:
  assumes "pt_inv t"
  shows "\<exists>t'. kill_body tk pid t = Inr t' \<and> pt_inv t' \<and> pview t' =
    (case List.find (\<lambda>p. p_pid (procs t p) = pid) [0..<NPROC] of
       None \<Rightarrow> pview t
     | Some p \<Rightarrow> (pview t)(p := (if p_state (procs t p) = SLEEPING then woken tk else id) ((pview t p)\<lparr>p_killed := 1\<rparr>)))"
proof (cases "List.find (\<lambda>p. p_pid (procs t p) = pid) [0..<NPROC]")
  case None
  then show ?thesis using assms by (simp add: kill_body_def)
next
  case (Some p)
  then have p: "p < NPROC" by (simp add: find_upt_Some)
  from assms obtain qs where i: "pt_inv_qs t qs" by (auto simp: pt_inv_def)
  let ?t1 = "p_upd p (\<lambda>P. P\<lparr>p_killed := 1\<rparr>) t"
  have q: "queues_ok ?t1 qs" by (rule queues_ok_cong[OF pt_inv_qsD(1)[OF i]]) (auto simp: prio_def)
  have "pt_inv_qs ?t1 qs" using pt_inv_qsD(3,4)[OF i] q by (auto simp: pt_inv_qs_def)
  then have i1: "pt_inv ?t1" by (auto simp: pt_inv_def)
  have v1: "pview ?t1 = (pview t)(p := (pview t p)\<lparr>p_killed := 1\<rparr>)"
    by (rule pview_p_upd) (simp add: nolinks_def)
  show ?thesis
  proof (cases "p_state (procs t p) = SLEEPING")
    case True
    then have "p_state (procs ?t1 p) \<noteq> RUNNABLE" by simp
    from make_runnable_pt[OF i1 p this, of tk] show ?thesis using Some True
      by (auto simp: kill_body_def Let_def v1)
  qed (use Some i1 v1 in \<open>auto simp: kill_body_def Let_def\<close>)
qed

subsection \<open>The scheduler as a transition system\<close>

text \<open>
  CPUs run the operations in any order.  A CPU is in one of four phases, told apart by its
  current process and by who holds the process-table lock: looking for a process (no
  process), entering one it switched to (lock held, process running), running it (lock not
  held), and leaving it (lock held, process no longer running).  The guards say which phase
  an operation starts from; an operation that panics or spins makes no step.
\<close>

inductive sched_step :: "'a sched_state_scheme \<Rightarrow> 'a sched_state_scheme \<Rightarrow> bool" where
  pick: "cpu_at a s = Some c \<Longrightarrow> cpu_proc (cpus s c) = None \<Longrightarrow> scheduler_pick a c s = Inr (r, s') \<Longrightarrow>
    sched_step s s'"
| leaves: "cpu_at a s = Some c \<Longrightarrow> cpu_proc (cpus s c) = Some p \<Longrightarrow> p_state (proc_at s p) \<noteq> RUNNING \<Longrightarrow>
    scheduler_back a c s = Inr s' \<Longrightarrow> sched_step s s'"
| yields: "yield_pre a s = Inr (ie, s') \<Longrightarrow> sched_step s s'"
| yielded: "cpu_at a s = Some c \<Longrightarrow> cpu_proc (cpus s c) = Some p \<Longrightarrow> p_state (proc_at s p) = RUNNING \<Longrightarrow>
    yield_post a ie s = Inr s' \<Longrightarrow> sched_step s s'"
| sleeps: "cpu_at a s = Some c \<Longrightarrow> cpu_proc (cpus s c) = Some p \<Longrightarrow> p_state (proc_at s p) = RUNNING \<Longrightarrow>
    sleep_pre a ch lk s = Inr (ie, s') \<Longrightarrow> sched_step s s'"
| slept: "cpu_at a s = Some c \<Longrightarrow> cpu_proc (cpus s c) = Some p \<Longrightarrow> p_state (proc_at s p) = RUNNING \<Longrightarrow>
    sleep_post a p L ie s = Inr s' \<Longrightarrow> sched_step s s'"
| wakes: "wakeup a ch s = Inr s' \<Longrightarrow> sched_step s s'"
| kills: "kill a pid s = Inr (r, s') \<Longrightarrow> sched_step s s'"
| timer: "trap_timer a s = Inr s' \<Longrightarrow> sched_step s s'"

definition sched_inv :: "'a sched_state_scheme \<Rightarrow> bool" where
  "sched_inv s \<longleftrightarrow> pt_inv (ptable s) \<and>
     (\<forall>c p. c < ncpu s \<longrightarrow> cpu_proc (cpus s c) = Some p \<longrightarrow>
        p < NPROC \<and> (holder s \<noteq> Some c \<longrightarrow> p_state (proc_at s p) = RUNNING) \<and>
        (\<forall>d. d < ncpu s \<longrightarrow> cpu_proc (cpus s d) = Some p \<longrightarrow> d = c)) \<and>
     (\<forall>p < NPROC. p_state (proc_at s p) = RUNNING \<longrightarrow> (\<exists>c < ncpu s. cpu_proc (cpus s c) = Some p))"

lemma sched_invD:
  assumes "sched_inv s"
  shows "pt_inv (ptable s)"
    "c < ncpu s \<Longrightarrow> cpu_proc (cpus s c) = Some p \<Longrightarrow> p < NPROC"
    "c < ncpu s \<Longrightarrow> cpu_proc (cpus s c) = Some p \<Longrightarrow> holder s \<noteq> Some c \<Longrightarrow> p_state (proc_at s p) = RUNNING"
    "c < ncpu s \<Longrightarrow> d < ncpu s \<Longrightarrow> cpu_proc (cpus s c) = Some p \<Longrightarrow> cpu_proc (cpus s d) = Some p \<Longrightarrow> d = c"
    "p < NPROC \<Longrightarrow> p_state (proc_at s p) = RUNNING \<Longrightarrow> \<exists>c < ncpu s. cpu_proc (cpus s c) = Some p"
  using assms unfolding sched_inv_def by blast+

text \<open>Operations that start no process and stop none.\<close>

lemma sched_inv_same:
  assumes i: "sched_inv s" and c: "same_cpus s s'" and t: "pt_inv (ptable s')"
    and r: "\<And>p. p < NPROC \<Longrightarrow> p_state (proc_at s' p) = RUNNING \<longleftrightarrow> p_state (proc_at s p) = RUNNING"
    and h: "\<And>c p. c < ncpu s \<Longrightarrow> cpu_proc (cpus s c) = Some p \<Longrightarrow> holder s' \<noteq> Some c \<Longrightarrow> holder s = Some c \<Longrightarrow>
      p_state (proc_at s p) = RUNNING"
  shows "sched_inv s'"
proof -
  have p: "p < NPROC \<and> (holder s' \<noteq> Some c \<longrightarrow> p_state (proc_at s' p) = RUNNING)"
    if "c < ncpu s" "cpu_proc (cpus s c) = Some p" for c p
    using that sched_invD(2,3)[OF i that] r[of p] h[OF that] by blast
  have q: "\<exists>c < ncpu s. cpu_proc (cpus s c) = Some p" if "p < NPROC" "p_state (proc_at s' p) = RUNNING" for p
    using that r sched_invD(5)[OF i] by blast
  show ?thesis using c t p q sched_invD(4)[OF i]
    unfolding sched_inv_def same_cpus_def by simp
qed

text \<open>The running process of one CPU stops running; the CPU holds the lock.\<close>

lemma sched_inv_stop:
  assumes i: "sched_inv s" and c: "same_cpus s s'" and t: "pt_inv (ptable s')"
    and cp: "c < ncpu s" "cpu_proc (cpus s c) = Some p" "holder s' = Some c" "holder s = None \<or> holder s = Some c"
    and r: "\<And>x. x < NPROC \<Longrightarrow> p_state (proc_at s' x) = RUNNING \<longleftrightarrow> x \<noteq> p \<and> p_state (proc_at s x) = RUNNING"
  shows "sched_inv s'"
proof -
  have a: "x < NPROC \<and> (holder s' \<noteq> Some d \<longrightarrow> p_state (proc_at s' x) = RUNNING)"
    if d: "d < ncpu s" "cpu_proc (cpus s d) = Some x" for d x
  proof -
    have x: "x < NPROC" by (rule sched_invD(2)[OF i d])
    moreover have "p_state (proc_at s' x) = RUNNING" if h: "holder s' \<noteq> Some d"
    proof -
      have "d \<noteq> c" using h cp(3) by auto
      then have "x \<noteq> p" using sched_invD(4)[OF i cp(1) d(1) cp(2)] d(2) by blast
      moreover have "holder s \<noteq> Some d" using \<open>d \<noteq> c\<close> cp(4) by auto
      then have "p_state (proc_at s x) = RUNNING" by (rule sched_invD(3)[OF i d])
      ultimately show ?thesis using r[OF x] by blast
    qed
    ultimately show ?thesis by blast
  qed
  have b: "\<exists>d < ncpu s. cpu_proc (cpus s d) = Some x" if "x < NPROC" "p_state (proc_at s' x) = RUNNING" for x
    using that r sched_invD(5)[OF i] by blast
  show ?thesis using c t a b sched_invD(4)[OF i]
    unfolding sched_inv_def same_cpus_def by simp
qed

lemma cpu_at_lt: "cpu_at a s = Some c \<Longrightarrow> c < ncpu s"
  by (simp add: cpu_at_apicid)

lemma make_runnable_view:
  assumes "pt_inv t" and "p < NPROC" and "p_state (procs t p) \<noteq> RUNNABLE" and "make_runnable tk p t = Inr t'"
  shows "pt_inv t'" "p_state (procs t' x) = (if x = p then RUNNABLE else p_state (procs t x))"
proof -
  from make_runnable_pt[OF assms(1-3), of tk] assms(4) have
    i: "pt_inv t'" and v: "pview t' = (pview t)(p := woken tk (pview t p))" by auto
  show "pt_inv t'" by (rule i)
  show "p_state (procs t' x) = (if x = p then RUNNABLE else p_state (procs t x))"
    using arg_cong[OF fun_cong[OF v, of x], of p_state] by (simp add: woken_def split: if_splits)
qed

lemma pt_inv_state:
  assumes "pt_inv t" and "p < NPROC" and "p_state (procs t p) \<noteq> RUNNABLE"
    and "p_next (f (procs t p)) = p_next (procs t p)" and "p_prev (f (procs t p)) = p_prev (procs t p)"
    and "p_state (f (procs t p)) \<noteq> RUNNABLE" and "p_q_level (f (procs t p)) = p_q_level (procs t p)"
  shows "pt_inv (p_upd p f t)"
proof -
  from assms(1) obtain qs where i: "pt_inv_qs t qs" by (auto simp: pt_inv_def)
  have "p \<notin> queued qs" using pt_inv_qsD(3)[OF i assms(2)] assms(3) by simp
  moreover have "level_ok (f (procs t p))" using pt_inv_qsD(4)[OF i assms(2)] assms(7) by (simp add: level_ok_def)
  ultimately show ?thesis using pt_inv_edit[OF i, of p f] assms(4-6) by (auto simp: pt_inv_def)
qed

lemma wakeup_Inr:
  assumes "wakeup a ch s = Inr s'" and "pt_inv (ptable s)"
  shows "same_cpus s s' \<and> holder s = None \<and> holder s' = None \<and> ticks s' = ticks s \<and> pt_inv (ptable s') \<and>
    pview (ptable s') = (\<lambda>x. if x < NPROC \<and> p_state (pview (ptable s) x) = SLEEPING \<and> p_chan (pview (ptable s) x) = ch
      then woken (ticks s) (pview (ptable s) x) else pview (ptable s) x)"
proof -
  from assms obtain s1 s2 where s: "acquire a L_ptable s = Inr s1" "wakeup1 ch s1 = Inr s2" "release a L_ptable s2 = Inr s'"
    by (auto simp: wakeup_def bindR_eq_Inr)
  note A = acquire_pt[OF s(1)] and R = release_pt[OF s(3)]
  have t1: "ptable s1 = ptable s" "ticks s1 = ticks s" using A same_procsD(1,2) by blast+
  from wakeup1_ok[of s1 ch, unfolded t1] assms(2) s(2) obtain t' where t': "s2 = upd_pt (\<lambda>_. t') s1" "pt_inv t'"
    "pview t' = (\<lambda>x. if x < NPROC \<and> p_state (pview (ptable s) x) = SLEEPING \<and> p_chan (pview (ptable s) x) = ch
      then woken (ticks s) (pview (ptable s) x) else pview (ptable s) x)" by force
  have "same_cpus s s'" using A R t'(1) same_procs_cpus upd_pt_sel(7) by (meson same_cpus_trans)
  then show ?thesis using A R t' t1 same_procsD(1,2)[of s2 s'] by auto
qed

lemma running_after_wakeup:
  assumes "pview t' = (\<lambda>x. if x < NPROC \<and> p_state (pview t x) = SLEEPING \<and> p_chan (pview t x) = ch
      then woken tk (pview t x) else pview t x)"
  shows "p_state (procs t' x) = RUNNING \<longleftrightarrow> p_state (procs t x) = RUNNING"
  using arg_cong[OF fun_cong[OF assms, of x], of p_state] by (auto simp: woken_def split: if_splits)

lemma kill_Inr:
  assumes "kill a pid s = Inr (r, s')" and "pt_inv (ptable s)"
  shows "same_cpus s s' \<and> holder s = None \<and> holder s' = None \<and> pt_inv (ptable s') \<and>
    (\<forall>x. p_state (proc_at s' x) = RUNNING \<longleftrightarrow> p_state (proc_at s x) = RUNNING)"
proof -
  from assms obtain s1 t' where s: "acquire a L_ptable s = Inr s1" "kill_body (ticks s1) pid (ptable s1) = Inr t'"
    "release a L_ptable (upd_pt (\<lambda>_. t') s1) = Inr s'"
    by (auto simp: kill_eq bindR_eq_Inr try_pt_Inr)
  note A = acquire_pt[OF s(1)] and R = release_pt[OF s(3)]
  have t1: "ptable s1 = ptable s" using A same_procsD(1) by blast
  from kill_body_ok[of "ptable s" "ticks s1" pid] assms(2) s(2) t1 have t': "pt_inv t'"
    "pview t' = (case List.find (\<lambda>p. p_pid (procs (ptable s) p) = pid) [0..<NPROC] of
       None \<Rightarrow> pview (ptable s)
     | Some p \<Rightarrow> (pview (ptable s))(p := (if p_state (procs (ptable s) p) = SLEEPING then woken (ticks s1) else id)
         ((pview (ptable s) p)\<lparr>p_killed := 1\<rparr>)))" by auto
  have r: "p_state (procs t' x) = RUNNING \<longleftrightarrow> p_state (procs (ptable s) x) = RUNNING" for x
    using arg_cong[OF fun_cong[OF t'(2), of x], of p_state] by (auto simp: woken_def split: option.splits if_splits)
  have pt: "ptable s' = t'" using R same_procsD(1)[of "upd_pt (\<lambda>_. t') s1" s'] by auto
  have "same_cpus s s'" using A R same_procs_cpus upd_pt_sel(7) by (meson same_cpus_trans)
  then show ?thesis using A R t'(1) r pt by (auto simp: proc_at_def)
qed

lemma clock_tick_Inr:
  assumes "clock_tick a s = Inr s'" and "pt_inv (ptable s)"
  shows "same_cpus s s' \<and> holder s' = holder s \<and> pt_inv (ptable s') \<and>
    (\<forall>x. p_state (proc_at s' x) = RUNNING \<longleftrightarrow> p_state (proc_at s x) = RUNNING)"
proof (cases "\<exists>c. mycpu a s = Inr c \<and> c = 0")
  case True
  with assms obtain s1 s2 where s: "acquire a L_ticks s = Inr s1"
    "wakeup a Ch_ticks (s1\<lparr>ticks := ticks s1 + 1\<rparr>) = Inr s2" "release a L_ticks s2 = Inr s'"
    by (auto simp: clock_tick_def cpuid_def bindR_eq_Inr)
  let ?u = "s1\<lparr>ticks := ticks s1 + 1\<rparr>"
  note A = other_lock_pt(1)[OF s(1)] and R = other_lock_pt(2)[OF s(3)]
  have u: "same_cpus s1 ?u" "holder ?u = holder s1" "ptable ?u = ptable s1"
    by (simp_all add: same_cpus_def holder_def cpu_at_def)
  have t1: "ptable s1 = ptable s" using A same_procsD(1) by blast
  have W: "same_cpus ?u s2" "holder ?u = None" "holder s2 = None" "pt_inv (ptable s2)"
    "p_state (procs (ptable s2) x) = RUNNING \<longleftrightarrow> p_state (procs (ptable s) x) = RUNNING" for x
    using wakeup_Inr[OF s(2)] assms(2) t1 u(3) running_after_wakeup[of "ptable s2" "ptable ?u" Ch_ticks "ticks ?u"] by auto
  have "same_cpus s s'" using A R u(1) W(1) same_procs_cpus by (meson same_cpus_trans lockid.distinct)
  moreover have "ptable s' = ptable s2" using R same_procsD(1)[of s2 s'] by auto
  ultimately show ?thesis using A R u W by (auto simp: proc_at_def)
next
  case False
  with assms have "s' = s" by (auto simp: clock_tick_def cpuid_def bindR_eq_Inr split: if_splits)
  then show ?thesis using assms(2) by simp
qed

lemma running_after_tick:
  assumes i: "pt_inv t" and p: "p < NPROC" "p_state (procs t p) = RUNNING" and e: "tick_running tk p t = Inr t'"
  shows "pt_inv t'" "x < NPROC \<Longrightarrow> p_state (procs t' x) = p_state (procs t x)"
proof -
  from i obtain qs where q: "pt_inv_qs t qs" by (auto simp: pt_inv_def)
  from tick_running_ok[OF q p, of tk] e obtain qs' where
    t': "pt_inv_qs t' qs'"
    "pview t' = (\<lambda>x. if x = p then ran_tick (pview t x) else if x \<in> queued qs then wait_tick tk (pview t x)
                     else if x < NPROC then tick_proc (pview t x) else pview t x)" by auto
  show "pt_inv t'" using t'(1) by (auto simp: pt_inv_def)
  show "p_state (procs t' x) = p_state (procs t x)"
    using arg_cong[OF fun_cong[OF t'(2), of x], of p_state]
    by (simp add: ran_tick_same wait_tick_def Let_def promoted_def split: if_splits)
qed

lemma trap_timer_Inr:
  assumes "trap_timer a s = Inr s'" and i: "sched_inv s"
  shows "same_cpus s s' \<and> holder s' = holder s \<and> pt_inv (ptable s') \<and>
    (\<forall>x < NPROC. p_state (proc_at s' x) = RUNNING \<longleftrightarrow> p_state (proc_at s x) = RUNNING)"
proof -
  from assms obtain s1 q s2 where s: "clock_tick a s = Inr s1" "myproc a s1 = Inr (q, s2)"
    by (auto simp: trap_timer_def bindR_eq_Inr)
  note C = clock_tick_Inr[OF s(1) sched_invD(1)[OF i]] and M = myproc_Inr[OF s(2)]
  have t2: "ptable s2 = ptable s1" "holder s2 = holder s1" "same_cpus s s2"
    using M C same_procsD(1)[of s1 s2] same_procs_cpus by (auto simp: holder_def intro: same_cpus_trans)
  show ?thesis
  proof (cases "\<exists>p. q = Some p \<and> p_state (proc_at s2 p) = RUNNING")
    case False
    then have "s' = s2" using assms(1) s by (auto simp: trap_timer_def split: option.splits if_splits)
    then show ?thesis using C t2 by (auto simp: proc_at_def)
  next
    case True
    then obtain p where p: "q = Some p" "p_state (proc_at s2 p) = RUNNING" by blast
    with assms(1) s obtain s3 t' where s3: "acquire a L_ptable s2 = Inr s3"
      "tick_running (ticks s3) p (ptable s3) = Inr t'" "release a L_ptable (upd_pt (\<lambda>_. t') s3) = Inr s'"
      by (auto simp: trap_timer_def bindR_eq_Inr try_pt_Inr)
    note A = acquire_pt[OF s3(1)] and R = release_pt[OF s3(3)]
    have t3: "ptable s3 = ptable s1" using A t2 same_procsD(1)[of s2 s3] by auto
    obtain c where c: "cpu_at a s1 = Some c" "cpu_proc (cpus s1 c) = Some p" using M p by blast
    then have "c < ncpu s" "cpu_proc (cpus s c) = Some p"
      using C cpu_at_apicid[of a s1 c] by (auto simp: same_cpus_def)
    then have pn: "p < NPROC" by (rule sched_invD(2)[OF i])
    have st: "p_state (procs (ptable s3) p) = RUNNING" using p(2) t2(1) t3 by (simp add: proc_at_def)
    have i3: "pt_inv (ptable s3)" using C t3 by simp
    note T = running_after_tick[OF i3 pn st s3(2)]
    have "same_cpus s s'" using t2(3) A R same_procs_cpus upd_pt_sel(7) by (meson same_cpus_trans)
    moreover have "ptable s' = t'" using R same_procsD(1)[of "upd_pt (\<lambda>_. t') s3" s'] by auto
    ultimately show ?thesis using C A R t2 T t3 by (auto simp: proc_at_def)
  qed
qed

text \<open>Each operation keeps the invariant.\<close>

lemma first_queued_mem: "first_queued qs = Some p \<Longrightarrow> p \<in> queued qs"
proof -
  assume "first_queued qs = Some p"
  then have "p \<in> set (qs 0 @ qs 1 @ qs 2 @ qs 3)"
    unfolding first_queued_def by (metis first_or.elims list.set_intros(1) option.distinct(1) option.inject)
  moreover have "(0 :: nat) < NQUEUE" "1 < NQUEUE" "2 < NQUEUE" "3 < NQUEUE" by (simp_all add: NQUEUE_def)
  ultimately show ?thesis unfolding queued_iff set_append by blast
qed

lemma pick_inv:
  assumes i: "sched_inv s" and a: "cpu_at a s = Some c" and idle: "cpu_proc (cpus s c) = None"
    and run: "scheduler_pick a c s = Inr (r, s')"
  shows "sched_inv s'"
proof (cases r)
  case None
  then show ?thesis using scheduler_pick_Inr[OF run] sched_invD(1)[OF i]
    by (intro sched_inv_same[OF i]) (auto simp: proc_at_def)
next
  case (Some p)
  note P = scheduler_pick_Inr[OF run]
  from sched_invD(1)[OF i] obtain qs where q: "pt_inv_qs (ptable s) qs" by (auto simp: pt_inv_def)
  have "first_queued qs = Some p"
    using P Some get_next_proc_eq[OF pt_inv_qsD(2)[OF q]] by simp
  then obtain l where l: "l < NQUEUE" "p \<in> set (qs l)" using first_queued_mem queued_iff by blast
  have pn: "p < NPROC" using table_rep_member[OF pt_inv_qsD(2)[OF q] l] by simp
  have v: "pt_inv (ptable s')" "pview (ptable s') = (pview (ptable s))(p := (pview (ptable s) p)\<lparr>p_state := RUNNING\<rparr>)"
    using dispatch_ok[OF q l(2,1)] P Some by (auto simp: pt_inv_def)
  have st: "p_state (proc_at s' x) = (if x = p then RUNNING else p_state (proc_at s x))" for x
    using arg_cong[OF fun_cong[OF v(2), of x], of p_state] by (simp add: proc_at_def split: if_splits)
  have c: "c < ncpu s" by (rule cpu_at_lt[OF a])
  have np: "cpu_proc (cpus s d) \<noteq> Some p" if "d < ncpu s" for d
    using sched_invD(3)[OF i that] P Some by force
  have cp: "cpu_proc (cpus s' i) = (if i = c then Some p else cpu_proc (cpus s i))" "ncpu s' = ncpu s" for i
    using P Some by auto
  have run: "x < NPROC \<and> p_state (proc_at s' x) = RUNNING" if "d < ncpu s" "cpu_proc (cpus s' d) = Some x" for d x
    using that pn sched_invD(2,3)[OF i that(1)] P unfolding cp st by (auto split: if_splits)
  have inj: "d' = d" if "d < ncpu s" "d' < ncpu s" "cpu_proc (cpus s' d) = Some x" "cpu_proc (cpus s' d') = Some x" for d d' x
    using that np sched_invD(4)[OF i that(1,2)] unfolding cp by (auto split: if_splits)
  have ex: "\<exists>d < ncpu s. cpu_proc (cpus s' d) = Some x" if x: "x < NPROC" "p_state (proc_at s' x) = RUNNING" for x
  proof (cases "x = p")
    case False
    then obtain d where "d < ncpu s" "cpu_proc (cpus s d) = Some x" using sched_invD(5)[OF i x(1)] x(2) st by auto
    moreover from this idle have "d \<noteq> c" by auto
    ultimately show ?thesis unfolding cp by auto
  qed (use c cp in auto)
  show ?thesis using v(1) run inj ex unfolding sched_inv_def cp(2) by blast
qed

lemma leaves_inv:
  assumes i: "sched_inv s" and a: "cpu_at a s = Some c" and cur: "cpu_proc (cpus s c) = Some p"
    and ns: "p_state (proc_at s p) \<noteq> RUNNING" and run: "scheduler_back a c s = Inr s'"
  shows "sched_inv s'"
proof -
  note B = scheduler_back_Inr[OF run]
  have cp: "cpu_proc (cpus s' i) = (if i = c then None else cpu_proc (cpus s i))" "ncpu s' = ncpu s" for i
    using B by auto
  have st: "proc_at s' x = proc_at s x" for x using B by (simp add: proc_at_def)
  have h: "holder s = Some c" using B a by simp
  have run: "x < NPROC \<and> p_state (proc_at s' x) = RUNNING" if "d < ncpu s" "cpu_proc (cpus s' d) = Some x" for d x
    using that h sched_invD(2,3)[OF i that(1)] unfolding cp st by (auto split: if_splits)
  have inj: "d' = d" if "d < ncpu s" "d' < ncpu s" "cpu_proc (cpus s' d) = Some x" "cpu_proc (cpus s' d') = Some x" for d d' x
    using that sched_invD(4)[OF i that(1,2)] unfolding cp by (auto split: if_splits)
  have ex: "\<exists>d < ncpu s. cpu_proc (cpus s' d) = Some x" if x: "x < NPROC" "p_state (proc_at s' x) = RUNNING" for x
  proof -
    obtain d where d: "d < ncpu s" "cpu_proc (cpus s d) = Some x" using sched_invD(5)[OF i x(1)] x(2) st by auto
    moreover have "d \<noteq> c" using d(2) cur ns x(2) st by auto
    ultimately show ?thesis unfolding cp by auto
  qed
  show ?thesis using sched_invD(1)[OF i] B run inj ex unfolding sched_inv_def cp(2) by auto
qed

lemma yields_inv:
  assumes i: "sched_inv s" and run: "yield_pre a s = Inr (ie, s')"
  shows "sched_inv s'"
proof -
  from yield_pre_Inr[OF run] obtain c p where y: "same_cpus s s'" "holder s = None" "cpu_at a s = Some c"
    "cpu_proc (cpus s c) = Some p" "holder s' = Some c" "make_runnable (ticks s) p (ptable s) = Inr (ptable s')" by blast
  have c: "c < ncpu s" by (rule cpu_at_lt[OF y(3)])
  note pn = sched_invD(2)[OF i c y(4)]
  have st: "p_state (procs (ptable s) p) \<noteq> RUNNABLE"
    using sched_invD(3)[OF i c y(4)] y(2) by (simp add: proc_at_def)
  note m = make_runnable_view[OF sched_invD(1)[OF i] pn st y(6)]
  show ?thesis by (rule sched_inv_stop[OF i y(1) m(1) c y(4,5)]) (auto simp: y(2) m(2) proc_at_def)
qed

lemma sleeps_inv:
  assumes i: "sched_inv s" and a: "cpu_at a s = Some c" and cur: "cpu_proc (cpus s c) = Some p"
    and st: "p_state (proc_at s p) = RUNNING" and run: "sleep_pre a ch lk s = Inr (ie, s')"
  shows "sched_inv s'"
proof -
  have y: "same_cpus s s'" "holder s = None \<or> holder s = Some c" "holder s' = Some c"
    "ptable s' = p_upd p (\<lambda>P. P\<lparr>p_chan := ch, p_state := SLEEPING\<rparr>) (ptable s)"
    using sleep_pre_Inr[OF run] a cur by auto
  have c: "c < ncpu s" by (rule cpu_at_lt[OF a])
  note pn = sched_invD(2)[OF i c cur]
  have i': "pt_inv (ptable s')" unfolding y(4)
    by (rule pt_inv_state[OF sched_invD(1)[OF i] pn]) (use st in \<open>auto simp: proc_at_def\<close>)
  show ?thesis by (rule sched_inv_stop[OF i y(1) i' c cur y(3,2)]) (auto simp: y(4) proc_at_def)
qed

lemma slept_inv:
  assumes i: "sched_inv s" and a: "cpu_at a s = Some c" and cur: "cpu_proc (cpus s c) = Some p"
    and st: "p_state (proc_at s p) = RUNNING" and run: "sleep_post a p L ie s = Inr s'"
  shows "sched_inv s'"
proof -
  have y: "same_cpus s s'" "L \<noteq> L_ptable \<longrightarrow> holder s = Some c" "holder s' = (if L = L_ptable then holder s else None)"
    "ptable s' = p_upd p (\<lambda>P. P\<lparr>p_chan := Ch_null\<rparr>) (ptable s)"
    using sleep_post_Inr[OF run] a by auto
  have c: "c < ncpu s" by (rule cpu_at_lt[OF a])
  note pn = sched_invD(2)[OF i c cur]
  have i': "pt_inv (ptable s')" unfolding y(4)
    by (rule pt_inv_state[OF sched_invD(1)[OF i] pn]) (use st in \<open>auto simp: proc_at_def\<close>)
  show ?thesis
    by (rule sched_inv_same[OF i y(1) i']) (use st cur y in \<open>auto simp: proc_at_def split: if_splits\<close>)
qed

lemma sched_step_inv: "sched_step s s' \<Longrightarrow> sched_inv s \<Longrightarrow> sched_inv s'"
proof (induction rule: sched_step.induct)
  case (yielded a s c p ie s')
  note Y = yield_post_Inr[OF yielded.hyps(4)]
  have h: "holder s = Some c" "holder s' = None" using Y yielded.hyps(1) by auto
  show ?case using Y sched_invD(1)[OF yielded.prems] same_procsD[of s s'] yielded.hyps(2,3) h
    by (intro sched_inv_same[OF yielded.prems]) (auto simp: same_procs_cpus)
next
  case (wakes a ch s s')
  note W = wakeup_Inr[OF wakes.hyps sched_invD(1)[OF wakes.prems]]
  have "p_state (proc_at s' x) = RUNNING \<longleftrightarrow> p_state (proc_at s x) = RUNNING" for x
    using W running_after_wakeup[of "ptable s'" "ptable s" ch "ticks s" x] by (simp add: proc_at_def)
  then show ?case using W by (intro sched_inv_same[OF wakes.prems]) auto
next
  case (kills a pid s r s')
  show ?case using kill_Inr[OF kills.hyps sched_invD(1)[OF kills.prems]]
    by (intro sched_inv_same[OF kills.prems]) auto
next
  case (timer a s s')
  show ?case using trap_timer_Inr[OF timer.hyps timer.prems] by (intro sched_inv_same[OF timer.prems]) auto
qed (blast intro: pick_inv leaves_inv yields_inv sleeps_inv slept_inv)+

subsection \<open>The operations return when they should\<close>

text \<open>With interrupts off and a lock held, \<^verbatim>\<open>myproc\<close> and \<^verbatim>\<open>switchuvm\<close> nest and unnest once.\<close>

lemma myproc_eq:
  assumes c: "cpu_at a m = Some c" and "\<not> hw_if m a" and "0 \<le> sint (ncli (cpus m c))" and "ncli (cpus m c) \<noteq> 0"
  shows "myproc a m = Inr (cpu_proc (cpus m c), m)"
proof -
  let ?m1 = "upd_cpu c (\<lambda>k. k\<lparr>intena := (if ncli k = 0 then readeflags_IF a m else intena k),
                             ncli := ncli k + 1\<rparr>) (cli a m)"
  have p: "pushcli a m = Inr ?m1" by (rule pushcli_eq[OF c])
  have q: "popcli a ?m1 = Inr m"
    using assms by (subst popcli_eq[of a _ c]) (auto simp: Let_def upd_cpu_upd cli_id upd_cpu_id)
  show ?thesis using assms p q by (simp add: myproc_def mycpu_eq Let_def)
qed

definition load_tss :: "proc \<Rightarrow> cpu \<Rightarrow> cpu" where
  "load_tss P k = k\<lparr>ts_ss0 := push_bit 3 SEG_KDATA, ts_esp0 := p_kstack P + KSTACKSIZE, ts_iomb := 0xFFFF\<rparr>"

lemma upd_cpu_lcr3: "upd_cpu c f (lcr3 a v s) = lcr3 a v (upd_cpu c f s)"
  by (simp add: upd_cpu_def lcr3_def)

lemma cli_lcr3: "cli a (lcr3 b v s) = lcr3 b v (cli a s)"
  by (simp add: cli_def lcr3_def)

lemma switchuvm_eq:
  assumes c: "cpu_at a s = Some c" and "\<not> hw_if s a" and "0 \<le> sint (ncli (cpus s c))" and "ncli (cpus s c) \<noteq> 0"
    and "p_kstack (proc_at s p) \<noteq> 0" and "p_pgdir (proc_at s p) \<noteq> 0"
  shows "switchuvm a (Some p) s =
    Inr (lcr3 a (V2P (p_pgdir (proc_at s p))) (upd_cpu c (load_tss (proc_at s p)) s))"
proof -
  have cl: "cli a s = s" by (rule cli_id) (rule assms(2))
  let ?s1 = "upd_cpu c (\<lambda>k. k\<lparr>intena := (if ncli k = 0 then readeflags_IF a s else intena k), ncli := ncli k + 1\<rparr>) s"
  have p: "pushcli a s = Inr ?s1" using pushcli_eq[OF c] cl by simp
  have pa: "proc_at ?s1 p = proc_at s p" "proc_at (upd_cpu c f s) p = proc_at s p" for f by (simp_all add: proc_at_def)
  let ?s3 = "lcr3 a (V2P (p_pgdir (proc_at s p))) (upd_cpu c (load_tss (proc_at s p)) ?s1)"
  have "popcli a ?s3 = Inr (lcr3 a (V2P (p_pgdir (proc_at s p))) (upd_cpu c (load_tss (proc_at s p)) s))"
    using assms(1-4) by (subst popcli_eq[of a _ c])
      (auto simp: Let_def upd_cpu_lcr3 upd_cpu_upd load_tss_def intro!: arg_cong[where f = "lcr3 _ _"] upd_cpu_cong)
  then show ?thesis using assms p pa
    by (simp add: switchuvm_def mycpu_eq Let_def upd_cpu_upd load_tss_def)
qed

lemma sched_pre_eq:
  assumes h: "held a c L_ptable s" and n: "ncli (cpus s c) = 1" and p: "cpu_proc (cpus s c) = Some p"
    and st: "p_state (proc_at s p) \<noteq> RUNNING"
  shows "sched_pre a s = Inr (intena (cpus s c), s)"
proof -
  have c: "cpu_at a s = Some c" "\<not> hw_if s a" using h by (simp_all add: held_def)
  have m: "myproc a s = Inr (Some p, s)" using myproc_eq[OF c] n p by simp
  have ho: "holding a L_ptable s = Inr (True, s)" using holding_eq[OF c] n h by (simp add: held_def)
  show ?thesis using c n st by (simp add: sched_pre_def m ho mycpu_eq deref_def readeflags_IF_def)
qed

lemma held_upd_pt [simp]: "held a c L (upd_pt f s) \<longleftrightarrow> held a c L s"
  by (simp add: same_machine_held)

lemma depth_ok_0: "ncli (cpus s c) = 0 \<Longrightarrow> depth_ok c s"
  by (simp add: depth_ok_def)

lemma taken_more:
  "ptable (taken a c L s) = ptable s" "ticks (taken a c L s) = ticks s" "proc_at (taken a c L s) p = proc_at s p"
  using sched_more_eq[of "taken a c L s" s] by simp_all

lemma yield_pre_eq:
  assumes c: "cpu_at a s = Some c" and n: "ncli (cpus s c) = 0" and l: "locked (locks s L_ptable) = 0"
    and p: "cpu_proc (cpus s c) = Some p"
  shows "yield_pre a s = bindR (make_runnable (ticks s) p (ptable s)) (\<lambda>t.
    sched_pre a (upd_pt (\<lambda>_. t) (taken a c L_ptable s)))"
proof -
  let ?s1 = "taken a c L_ptable s"
  let ?s3 = "upd_pt (p_upd p (\<lambda>P. P\<lparr>p_state := RUNNABLE\<rparr>)) ?s1"
  have h: "held a c L_ptable ?s1" by (rule taken_held[OF c depth_ok_0[of s, OF n]])
  have m: "myproc a (upd_pt f ?s1) = Inr (Some p, upd_pt f ?s1)" for f
    using h n p myproc_eq[of a "upd_pt f ?s1" c] by (simp add: held_def)
  have m1: "myproc a ?s1 = Inr (Some p, ?s1)" using h n p myproc_eq[of a ?s1 c] by (simp add: held_def)
  show ?thesis
    using acquire_free[OF c depth_ok_0[of s, OF n] l] m1 m
    by (simp add: yield_pre_def deref_def Let_def try_pt_def make_runnable_def taken_more bindR_assoc)
       (simp add: upd_pt_def proc_at_def taken_more)
qed

lemma try_pt_eq: "try_pt f s = bindR (f (ptable s)) (\<lambda>t. Inr (upd_pt (\<lambda>_. t) s))"
  by (simp add: try_pt_def upd_pt_def)

lemma scheduler_pick_eq:
  assumes c: "cpu_at a s = Some c" and n: "ncli (cpus s c) = 0" and l: "locked (locks s L_ptable) = 0"
    and g: "get_next_proc (ptable s) = Some p" and p: "p_state (proc_at s p) = RUNNABLE"
    "p_kstack (proc_at s p) \<noteq> 0" "p_pgdir (proc_at s p) \<noteq> 0"
  shows "scheduler_pick a c s = bindR (remove_from_queue p (p_upd p (\<lambda>P. P\<lparr>p_state := RUNNING\<rparr>) (ptable s)))
    (\<lambda>t. Inr (Some p, upd_pt (\<lambda>_. t) (lcr3 a (V2P (p_pgdir (proc_at s p)))
       (upd_cpu c (load_tss (proc_at s p)) (upd_cpu c (\<lambda>k. k\<lparr>cpu_proc := Some p\<rparr>) (taken a c L_ptable (sti a s)))))))"
proof -
  have c1: "cpu_at a (sti a s) = Some c" "depth_ok c (sti a s)" "locked (locks (sti a s) L_ptable) = 0"
    using c n l by (simp_all add: depth_ok_def)
  let ?s1 = "taken a c L_ptable (sti a s)"
  let ?s2 = "upd_cpu c (\<lambda>k. k\<lparr>cpu_proc := Some p\<rparr>) ?s1"
  have sti: "ptable (sti a s) = ptable s" "proc_at (sti a s) p = proc_at s p" by (simp_all add: sti_def proc_at_def)
  have pa: "proc_at ?s1 p = proc_at s p" "proc_at ?s2 p = proc_at s p" "ptable ?s1 = ptable s"
    using taken_more(1)[of a c L_ptable "sti a s"] sti by (simp_all add: proc_at_def)
  have k: "cpu_at a ?s2 = Some c" "\<not> hw_if ?s2 a" "0 \<le> sint (ncli (cpus ?s2 c))" "ncli (cpus ?s2 c) \<noteq> 0"
    using c n by simp_all
  have "switchuvm a (Some p) ?s2 = Inr (lcr3 a (V2P (p_pgdir (proc_at s p))) (upd_cpu c (load_tss (proc_at s p)) ?s2))"
    using switchuvm_eq[OF k, of p] p pa by simp
  then show ?thesis using acquire_free[OF c1] g p pa
    by (simp add: scheduler_pick_def Let_def try_pt_eq bindR_assoc)
qed

text \<open>
  C5. A turn of the scheduler loop on an idle CPU, with the lock free: if some process is
  runnable, the turn ends by switching to the first process of the highest non-empty queue,
  which then is the running process of this CPU, out of its queue, on its own page table and
  kernel stack, with the process-table lock held for it to release.
\<close>

theorem scheduler_runs_highest:
  assumes "pt_inv_qs (ptable s) qs" and "first_queued qs = Some p"
    and "cpu_at a s = Some c" and "ncli (cpus s c) = 0" and "locked (locks s L_ptable) = 0"
    and "p_kstack (proc_at s p) \<noteq> 0" and "p_pgdir (proc_at s p) \<noteq> 0"
  shows "\<exists>s' l. scheduler_pick a c s = Inr (Some p, s') \<and> l < NQUEUE \<and> p \<in> set (qs l) \<and>
    pt_inv_qs (ptable s') (qs(l := remove1 p (qs l))) \<and>
    pview (ptable s') = (pview (ptable s))(p := (pview (ptable s) p)\<lparr>p_state := RUNNING\<rparr>) \<and>
    cpu_proc (cpus s' c) = Some p \<and> cr3 s' a = V2P (p_pgdir (proc_at s p)) \<and>
    ts_esp0 (cpus s' c) = p_kstack (proc_at s p) + KSTACKSIZE \<and> held a c L_ptable s'"
proof -
  obtain l where l: "l < NQUEUE" "p \<in> set (qs l)" using first_queued_mem[OF assms(2)] queued_iff by blast
  have pn: "p < NPROC" using table_rep_member[OF pt_inv_qsD(2)[OF assms(1)] l] by simp
  have st: "p_state (proc_at s p) = RUNNABLE"
    using pt_inv_qsD(3)[OF assms(1) pn] first_queued_mem[OF assms(2)] by (simp add: proc_at_def)
  have g: "get_next_proc (ptable s) = Some p" using get_next_proc_eq[OF pt_inv_qsD(2)[OF assms(1)]] assms(2) by simp
  obtain t where t: "remove_from_queue p (p_upd p (\<lambda>P. P\<lparr>p_state := RUNNING\<rparr>) (ptable s)) = Inr t"
    "pt_inv_qs t (qs(l := remove1 p (qs l)))" "pview t = (pview (ptable s))(p := (pview (ptable s) p)\<lparr>p_state := RUNNING\<rparr>)"
    using dispatch_ok[OF assms(1) l(2,1)] by blast
  have "held a c L_ptable (taken a c L_ptable (sti a s))"
    by (rule taken_held) (use assms(3,4) in \<open>simp_all add: depth_ok_def\<close>)
  then have "held a c L_ptable (upd_pt (\<lambda>_. t) (lcr3 a (V2P (p_pgdir (proc_at s p)))
       (upd_cpu c (load_tss (proc_at s p)) (upd_cpu c (\<lambda>k. k\<lparr>cpu_proc := Some p\<rparr>) (taken a c L_ptable (sti a s))))))"
    by (simp add: held_def load_tss_def)
  moreover have "cr3 (upd_pt f (lcr3 a v x)) a = v" for f v and x :: "'a sched_state_scheme"
    by (simp add: upd_pt_def lcr3_def)
  ultimately show ?thesis using t l scheduler_pick_eq[OF assms(3,4,5) g st assms(6,7)]
    by (intro exI[of _ "upd_pt (\<lambda>_. t) (lcr3 a (V2P (p_pgdir (proc_at s p)))
       (upd_cpu c (load_tss (proc_at s p)) (upd_cpu c (\<lambda>k. k\<lparr>cpu_proc := Some p\<rparr>) (taken a c L_ptable (sti a s)))))"]
       exI[of _ l]) (simp add: load_tss_def)
qed

lemma yield_total:
  assumes "pt_inv (ptable s)" and "cpu_at a s = Some c" and "cpu_proc (cpus s c) = Some p" and "p < NPROC"
    and "p_state (proc_at s p) \<noteq> RUNNABLE"
    and "ncli (cpus s c) = 0" and "locked (locks s L_ptable) = 0"
  shows "\<exists>ie s1 s2. yield_pre a s = Inr (ie, s1) \<and> scheduler_back a c s1 = Inr s2 \<and>
    cpu_at a s1 = Some c \<and> cpu_proc (cpus s1 c) = Some p \<and> ptable s2 = ptable s1 \<and>
    p_state (proc_at s2 p) = RUNNABLE \<and> p_q_level (proc_at s2 p) = p_q_level (proc_at s p) \<and>
    cpu_proc (cpus s2 c) = None \<and> locked (locks s2 L_ptable) = 0"
proof -
  have st: "p_state (procs (ptable s) p) \<noteq> RUNNABLE" using assms(5) by (simp add: proc_at_def)
  obtain t where t: "make_runnable (ticks s) p (ptable s) = Inr t" "pt_inv t"
    "pview t = (pview (ptable s))(p := woken (ticks s) (pview (ptable s) p))"
    using make_runnable_pt[OF assms(1,4) st] by blast
  have tp: "p_state (procs t p) = RUNNABLE" "p_q_level (procs t p) = p_q_level (procs (ptable s) p)"
    using arg_cong[OF fun_cong[OF t(3), of p], of p_state] arg_cong[OF fun_cong[OF t(3), of p], of p_q_level]
    by (simp_all add: woken_def)
  let ?s1 = "upd_pt (\<lambda>_. t) (taken a c L_ptable s)"
  have h: "held a c L_ptable ?s1" using taken_held[OF assms(2) depth_ok_0[of s, OF assms(6)]] by simp
  have y: "yield_pre a s = Inr (intena (cpus ?s1 c), ?s1)"
    using yield_pre_eq[OF assms(2,6,7,3)] t(1) sched_pre_eq[OF h, of p] tp(1) assms(3,6) by simp
  let ?u = "upd_cpu c (\<lambda>k. k\<lparr>cpu_proc := None\<rparr>) (switchkvm a ?s1)"
  have "held a c L_ptable ?u" using h by (simp add: held_def switchkvm_def)
  then obtain s2 where s2: "scheduler_back a c ?s1 = Inr s2" "locked (locks s2 L_ptable) = 0"
    using release_held[of a c L_ptable ?u] by (simp add: scheduler_back_def)
  note B = scheduler_back_Inr[OF s2(1)]
  show ?thesis using y s2 B tp assms(2,3) by (auto simp: proc_at_def)
qed

text \<open>
  C12. A running process that yields, with no lock held and the process-table lock free, does
  not panic: it ends up runnable in the queue of its level, and when the scheduler has taken
  the CPU back, the CPU has no process and the lock is free again.
\<close>

theorem yield_gives_up_cpu:
  assumes "sched_inv s" and "cpu_at a s = Some c" and "cpu_proc (cpus s c) = Some p"
    and "ncli (cpus s c) = 0" and "locked (locks s L_ptable) = 0"
  shows "\<exists>ie s1 s2. yield_pre a s = Inr (ie, s1) \<and> scheduler_back a c s1 = Inr s2 \<and> sched_inv s2 \<and>
    p_state (proc_at s2 p) = RUNNABLE \<and> p_q_level (proc_at s2 p) = p_q_level (proc_at s p) \<and>
    cpu_proc (cpus s2 c) = None \<and> locked (locks s2 L_ptable) = 0"
proof -
  have c: "c < ncpu s" by (rule cpu_at_lt[OF assms(2)])
  note pn = sched_invD(2)[OF assms(1) c assms(3)]
  have "holder s = None" using assms(5) by (simp add: holder_def)
  then have "p_state (proc_at s p) \<noteq> RUNNABLE" using sched_invD(3)[OF assms(1) c assms(3)] by simp
  from yield_total[OF sched_invD(1)[OF assms(1)] assms(2,3) pn this assms(4,5)]
  obtain ie s1 s2 where y: "yield_pre a s = Inr (ie, s1)" and b: "scheduler_back a c s1 = Inr s2"
    and m: "cpu_at a s1 = Some c" "cpu_proc (cpus s1 c) = Some p" "ptable s2 = ptable s1"
    and r: "p_state (proc_at s2 p) = RUNNABLE" "p_q_level (proc_at s2 p) = p_q_level (proc_at s p)"
      "cpu_proc (cpus s2 c) = None" "locked (locks s2 L_ptable) = 0" by (elim exE conjE) (rule that)
  have "sched_inv s1" by (rule yields_inv[OF assms(1) y])
  then have "sched_inv s2"
    by (rule leaves_inv[OF _ _ _ _ b]) (use m r(1) in \<open>auto simp: proc_at_def\<close>)
  then show ?thesis using y b r by blast
qed


text \<open>
  C13. \<^verbatim>\<open>wakeup(chan)\<close>, called with the process-table lock free, returns, leaves locks and
  interrupts as they were, makes exactly the processes that sleep on \<open>chan\<close> runnable, queued
  at their own level with the current time as entry time, and changes no other process.
\<close>

theorem wakeup_wakes_sleepers:
  assumes "pt_inv (ptable s)" and "can_acquire a L_ptable s"
  shows "\<exists>s'. wakeup a ch s = Inr s' \<and> quiet_eq s s' \<and> pt_inv (ptable s') \<and> ticks s' = ticks s \<and>
    (\<forall>x. pview (ptable s') x =
       (if x < NPROC \<and> p_state (proc_at s x) = SLEEPING \<and> p_chan (proc_at s x) = ch
        then (pview (ptable s) x)\<lparr>p_state := RUNNABLE, p_queue_entry_time := ticks s\<rparr> else pview (ptable s) x))"
proof -
  let ?v = "\<lambda>x. if x < NPROC \<and> p_state (pview (ptable s) x) = SLEEPING \<and> p_chan (pview (ptable s) x) = ch
      then woken (ticks s) (pview (ptable s) x) else pview (ptable s) x"
  have "\<exists>s2. wakeup1 ch s1 = Inr s2 \<and> same_machine s1 s2 \<and> (pt_inv (ptable s2) \<and> ticks s2 = ticks s \<and> pview (ptable s2) = ?v)"
    if "machine.more s1 = machine.more s" for s1
  proof -
    have t: "ptable s1 = ptable s" "ticks s1 = ticks s" using sched_more_eq[OF that] by simp_all
    from wakeup1_ok[of s1 ch, unfolded t] assms(1) t(2) show ?thesis by auto
  qed
  from critical_run[OF assms(2) this] obtain s2 s3 where
    s3: "bindR (acquire a L_ptable s) (\<lambda>s1. bindR (wakeup1 ch s1) (release a L_ptable)) = Inr s3" "quiet_eq s s3"
    "machine.more s3 = machine.more s2" "pt_inv (ptable s2)" "ticks s2 = ticks s" "pview (ptable s2) = ?v" by blast
  have "ptable s3 = ptable s2" "ticks s3 = ticks s2" using sched_more_eq[OF s3(3)] by simp_all
  then show ?thesis using s3 by (intro exI[of _ s3]) (simp add: wakeup_def woken_def proc_at_def)
qed

text \<open>
  C14. \<^verbatim>\<open>kill(pid)\<close>, called with the process-table lock free, returns 0 if some slot has that
  pid and -1 otherwise.  It marks the first such slot killed and, if that process sleeps,
  makes it runnable; every other process is unchanged.  Pid 0 is not special: it matches the
  first slot with pid 0, so it marks a slot that is not in use.
\<close>

theorem kill_marks_first_match:
  assumes "pt_inv (ptable s)" and "can_acquire a L_ptable s"
  shows "\<exists>s'. kill a pid s = Inr (if \<exists>p < NPROC. p_pid (proc_at s p) = pid then 0 else -1, s') \<and>
    quiet_eq s s' \<and> pt_inv (ptable s') \<and>
    (\<forall>x. pview (ptable s') x =
       (if x < NPROC \<and> p_pid (proc_at s x) = pid \<and> (\<forall>y < x. p_pid (proc_at s y) \<noteq> pid)
        then (if p_state (proc_at s x) = SLEEPING
              then (pview (ptable s) x)\<lparr>p_killed := 1, p_state := RUNNABLE, p_queue_entry_time := ticks s\<rparr>
              else (pview (ptable s) x)\<lparr>p_killed := 1\<rparr>)
        else pview (ptable s) x))"
proof -
  from critical_section[OF assms(2)] obtain s1 where s1: "acquire a L_ptable s = Inr s1"
    "machine.more s1 = machine.more s" "\<forall>s2. same_machine s1 s2 \<longrightarrow>
       (\<exists>s3. release a L_ptable s2 = Inr s3 \<and> machine.more s3 = machine.more s2 \<and> quiet_eq s s3)" by blast
  have t1: "ptable s1 = ptable s" "ticks s1 = ticks s" using sched_more_eq[OF s1(2)] by simp_all
  obtain t where t: "kill_body (ticks s) pid (ptable s) = Inr t" "pt_inv t" "pview t =
    (case List.find (\<lambda>p. p_pid (procs (ptable s) p) = pid) [0..<NPROC] of
       None \<Rightarrow> pview (ptable s)
     | Some p \<Rightarrow> (pview (ptable s))(p := (if p_state (procs (ptable s) p) = SLEEPING then woken (ticks s) else id)
         ((pview (ptable s) p)\<lparr>p_killed := 1\<rparr>)))" using kill_body_ok[OF assms(1)] by blast
  from s1(3) obtain s3 where s3: "release a L_ptable (upd_pt (\<lambda>_. t) s1) = Inr s3"
    "machine.more s3 = machine.more (upd_pt (\<lambda>_. t) s1)" "quiet_eq s s3" by (metis upd_pt_sel(10))
  have p3: "ptable s3 = t" using sched_more_eq(8)[OF s3(2)] by simp
  have v: "pview t x = (if x < NPROC \<and> p_pid (proc_at s x) = pid \<and> (\<forall>y < x. p_pid (proc_at s y) \<noteq> pid)
        then (if p_state (proc_at s x) = SLEEPING
              then (pview (ptable s) x)\<lparr>p_killed := 1, p_state := RUNNABLE, p_queue_entry_time := ticks s\<rparr>
              else (pview (ptable s) x)\<lparr>p_killed := 1\<rparr>)
        else pview (ptable s) x)" for x
  proof (cases "List.find (\<lambda>p. p_pid (procs (ptable s) p) = pid) [0..<NPROC]")
    case None
    then have "\<not> (x < NPROC \<and> p_pid (proc_at s x) = pid)" by (auto simp: find_upt_None proc_at_def)
    then show ?thesis unfolding t(3) None by auto
  next
    case (Some p)
    then have "p < NPROC" "p_pid (procs (ptable s) p) = pid" "\<forall>y < p. p_pid (procs (ptable s) y) \<noteq> pid"
      by (simp_all add: find_upt_Some)
    then have "x < NPROC \<and> p_pid (proc_at s x) = pid \<and> (\<forall>y < x. p_pid (proc_at s y) \<noteq> pid) \<longleftrightarrow> x = p"
      by (metis linorder_neqE_nat proc_at_def)
    then show ?thesis unfolding t(3) using Some by (simp add: proc_at_def woken_def)
  qed
  then have "\<forall>x. pview (ptable s3) x = (if x < NPROC \<and> p_pid (proc_at s x) = pid \<and> (\<forall>y < x. p_pid (proc_at s y) \<noteq> pid)
        then (if p_state (proc_at s x) = SLEEPING
              then (pview (ptable s) x)\<lparr>p_killed := 1, p_state := RUNNABLE, p_queue_entry_time := ticks s\<rparr>
              else (pview (ptable s) x)\<lparr>p_killed := 1\<rparr>)
        else pview (ptable s) x)" unfolding p3 by blast
  moreover have "kill a pid s = Inr (if \<exists>p < NPROC. p_pid (proc_at s p) = pid then 0 else -1, s3)"
    using s1(1) t(1) s3(1) t1 by (simp add: kill_eq try_pt_eq proc_at_def)
  ultimately show ?thesis using s3(3) p3 t(2) by blast
qed

subsection \<open>Sleeping\<close>

lemma dropped_nested:
  assumes h: "held a c L s" and n: "ncli (cpus s c) = 1" and l: "L \<noteq> L_ptable" and f: "locked (locks s L_ptable) = 0"
  shows "acquire a L_ptable s = Inr (taken a c L_ptable s)"
    "release a L (taken a c L_ptable s) = Inr (dropped a c L (taken a c L_ptable s))"
    "held a c L_ptable (dropped a c L (taken a c L_ptable s))"
    "ncli (cpus (dropped a c L (taken a c L_ptable s)) c) = 1"
proof -
  have c: "cpu_at a s = Some c" "depth_ok c s" using h n by (simp_all add: held_def depth_ok_def)
  show "acquire a L_ptable s = Inr (taken a c L_ptable s)" by (rule acquire_free[OF c f])
  have "held a c L (taken a c L_ptable s)" using h l n by (simp add: held_def taken_def)
  then show "release a L (taken a c L_ptable s) = Inr (dropped a c L (taken a c L_ptable s))" by (rule release_held)
  show "held a c L_ptable (dropped a c L (taken a c L_ptable s))"
    using h l n by (simp add: held_def dropped_def Let_def) (simp add: taken_def)
  show "ncli (cpus (dropped a c L (taken a c L_ptable s)) c) = 1" using n by simp
qed

lemma sleep_pre_eq:
  assumes h: "held a c L s" and n: "ncli (cpus s c) = 1" and l: "L \<noteq> L_ptable" and f: "locked (locks s L_ptable) = 0"
    and p: "cpu_proc (cpus s c) = Some p"
  shows "\<exists>ie. sleep_pre a ch (Some L) s = Inr (ie, upd_pt (p_upd p (\<lambda>P. P\<lparr>p_chan := ch, p_state := SLEEPING\<rparr>))
    (dropped a c L (taken a c L_ptable s)))"
proof -
  note D = dropped_nested[OF h n l f]
  let ?s3 = "upd_pt (p_upd p (\<lambda>P. P\<lparr>p_chan := ch, p_state := SLEEPING\<rparr>)) (dropped a c L (taken a c L_ptable s))"
  have m: "myproc a s = Inr (Some p, s)" using myproc_eq[of a s c] h n p by (simp add: held_def)
  have "sched_pre a ?s3 = Inr (intena (cpus ?s3 c), ?s3)"
    by (rule sched_pre_eq[of a c _ p]) (use D p in \<open>simp_all add: proc_at_def\<close>)
  then show ?thesis using m D l by (simp add: sleep_pre_def)
qed


subsection \<open>Witnesses\<close>

text \<open>
  Two CPUs; CPU 0 runs process 5, process 4 waits at level 3, process 6 sleeps on
  \<^verbatim>\<open>ticks\<close>.
\<close>

definition ptable3 :: ptable_t where
  "ptable3 = p_upd 6 (\<lambda>P. P\<lparr>p_pid := 6, p_state := SLEEPING, p_chan := Ch_ticks, p_q_level := 1\<rparr>)
     (p_upd 4 (\<lambda>P. P\<lparr>p_kstack := 0x8DFFE000, p_pgdir := 0x8DFFD000\<rparr>) ptable2)"

definition sched0 :: sched_state where
  "sched0 = \<lparr>cpus = (\<lambda>i. (cpus two_cpus i)\<lparr>cpu_proc := (if i = 0 then Some 5 else None)\<rparr>), ncpu = 2, hw_if = (\<lambda>_. True),
     locks = locks two_cpus, mem = (\<lambda>_. 0), freelist = 0, use_lock = 1, kend = 0x80100000,
     kpgdir = 0x80110000, cr3 = (\<lambda>_. 0x110000), data_seg = 0x80108000,
     ptable = ptable3, initproc = Some 1, nextpid = 7, ticks = 1000\<rparr>"

lemma ptable3_inv: "pt_inv_qs ptable3 ((\<lambda>_. [])(3 := [4]))"
proof (rule pt_inv_qsI)
  show "queues_ok ptable3 ((\<lambda>_. [])(3 := [4]))"
    by (rule queues_ok_cong[OF ptable2_ok]) (auto simp: ptable3_def prio_def queued_iff split: if_splits)
  have "queued ((\<lambda>_. [])(3 := [4])) = {4}" by (auto simp: queued_iff NQUEUE_def split: if_splits)
  then show "p_state (pview ptable3 i) = RUNNABLE \<longleftrightarrow> i \<in> queued ((\<lambda>_. [])(3 := [4]))" for i
    by (simp add: ptable3_def ptable2_def ptable0_def proc0_def)
  show "level_ok (pview ptable3 i)" for i
    by (simp add: ptable3_def ptable2_def ptable0_def proc0_def level_ok_def)
qed

lemma sched0_sel [simp]:
  "ncpu sched0 = 2" "locks sched0 = locks two_cpus" "hw_if sched0 = (\<lambda>_. True)" "ptable sched0 = ptable3"
  "cpu_proc (cpus sched0 i) = (if i = 0 then Some 5 else None)" "ncli (cpus sched0 i) = 0"
  "ticks sched0 = 1000" "locked (locks two_cpus L) = 0" "lk_cpu (locks two_cpus L) = None"
  by (simp_all add: sched0_def two_cpus_def)

lemma sched0_at: "cpu_at 0 sched0 = Some 0" "cpu_at 1 sched0 = Some 1"
  by (simp_all add: cpu_at_def sched0_def two_cpus_def upt_rec numeral_2_eq_2)

lemma sched0_inv: "sched_inv sched0"
proof -
  have run: "p_state (proc_at sched0 p) = RUNNING \<longleftrightarrow> p = 5" for p
    by (simp add: proc_at_def ptable3_def ptable2_def ptable0_def proc0_def)
  have "pt_inv (ptable sched0)" unfolding sched0_sel pt_inv_def using ptable3_inv by blast
  moreover have "c < ncpu sched0 \<longrightarrow> cpu_proc (cpus sched0 c) = Some p \<longrightarrow> c = 0 \<and> p = 5" for c p
    by simp
  moreover have "cpu_proc (cpus sched0 0) = Some 5" "0 < ncpu sched0" by simp_all
  ultimately show ?thesis unfolding sched_inv_def run using small_indices(2) by metis
qed

lemma sched0_free: "can_acquire a L sched0" if "a = 0 \<or> a = 1"
  using that sched0_at by (auto simp: can_acquire_def depth_ok_def)

theorem scheduler_runs_highest_witness:
  "\<exists>s'. scheduler_pick 1 1 sched0 = Inr (Some 4, s') \<and> cpu_proc (cpus s' 1) = Some 4"
proof -
  have "p_kstack (proc_at sched0 4) \<noteq> 0" "p_pgdir (proc_at sched0 4) \<noteq> 0"
    by (simp_all add: proc_at_def ptable3_def)
  then show ?thesis
    using scheduler_runs_highest[of sched0 "(\<lambda>_. [])(3 := [4])" 4 1 1] ptable3_inv sched0_at(2)
    by (auto simp: first_queued_def)
qed

theorem yield_gives_up_cpu_witness:
  "\<exists>ie s1 s2. yield_pre 0 sched0 = Inr (ie, s1) \<and> scheduler_back 0 0 s1 = Inr s2 \<and> p_state (proc_at s2 5) = RUNNABLE"
  using yield_gives_up_cpu[OF sched0_inv sched0_at(1), of 5] by auto


theorem wakeup_wakes_sleepers_witness:
  "\<exists>s'. wakeup 0 Ch_ticks sched0 = Inr s' \<and> p_state (proc_at s' 6) = RUNNABLE"
proof -
  have i: "pt_inv (ptable sched0)" using ptable3_inv by (auto simp: pt_inv_def)
  from wakeup_wakes_sleepers[OF i sched0_free, of 0 Ch_ticks] obtain s' where s': "wakeup 0 Ch_ticks sched0 = Inr s'"
    "\<forall>x. pview (ptable s') x =
       (if x < NPROC \<and> p_state (proc_at sched0 x) = SLEEPING \<and> p_chan (proc_at sched0 x) = Ch_ticks
        then (pview (ptable sched0) x)\<lparr>p_state := RUNNABLE, p_queue_entry_time := ticks sched0\<rparr>
        else pview (ptable sched0) x)" by auto
  have "p_state (pview (ptable s') 6) = RUNNABLE"
    unfolding spec[OF s'(2), of 6] by (simp add: proc_at_def ptable3_def NPROC_def)
  then show ?thesis using s'(1) by (auto simp: proc_at_def)
qed

theorem kill_marks_first_match_witness:
  "\<exists>s'. kill 0 0 sched0 = Inr (0, s') \<and> p_state (proc_at s' 0) = UNUSED \<and> p_killed (proc_at s' 0) = 1"
proof -
  have i: "pt_inv (ptable sched0)" using ptable3_inv by (auto simp: pt_inv_def)
  have p: "p_pid (proc_at sched0 0) = 0" "p_state (proc_at sched0 0) = UNUSED"
    by (simp_all add: proc_at_def ptable3_def ptable2_def ptable0_def proc0_def)
  then have ex: "\<exists>p < NPROC. p_pid (proc_at sched0 p) = 0" by (intro exI[of _ 0]) (simp add: NPROC_def)
  from kill_marks_first_match[OF i sched0_free, of 0 0] ex obtain s' where s': "kill 0 0 sched0 = Inr (0, s')"
    "pview (ptable s') 0 = (pview (ptable sched0) 0)\<lparr>p_killed := 1\<rparr>" using p by (auto simp: NPROC_def)
  have "p_state (pview (ptable s') 0) = UNUSED \<and> p_killed (pview (ptable s') 0) = 1"
    unfolding s'(2) using p(2) by (simp add: proc_at_def)
  then show ?thesis using s'(1) by (auto simp: proc_at_def)
qed




end
