(* ===== verification/Sleeplock.thy ===== *)
theory Sleeplock
  imports SchedInv
begin

section \<open>Sleeping locks (sleeplock.c)\<close>

text \<open>
  Long-term locks owned by processes.  A sleep lock is named by the spin lock inside it.
  \<open>acquiresleep\<close> is the call up to the point where it returns or goes to sleep because the
  lock is held: in the second case it is \<open>Blocks\<close>, and what \<^verbatim>\<open>sleep\<close> does from there is
  the subject of the scheduler theories.
\<close>

subsection \<open>State and operations\<close>

record sleeplock =
  sl_locked :: cuint
  sl_name :: string
  sl_pid :: cint

record sl_state = sched_state +
  slocks :: "lockid \<Rightarrow> sleeplock"

text \<open>The address of a sleep lock, as something to sleep on.\<close>

fun lock_chan :: "lockid \<Rightarrow> chan" where
  "lock_chan (L_buf n) = Ch_buflock n"
| "lock_chan (L_inode n) = Ch_inodelock n"
| "lock_chan _ = Ch_null"

definition upd_sl :: "lockid \<Rightarrow> (sleeplock \<Rightarrow> sleeplock) \<Rightarrow> 'a sl_state_scheme \<Rightarrow> 'a sl_state_scheme" where
  "upd_sl L f s = s\<lparr>slocks := (slocks s)(L := f (slocks s L))\<rparr>"

text \<open>\<^verbatim>\<open>myproc()->...\<close>: the current process, which must not be null.\<close>

definition curproc :: "8 word \<Rightarrow> 'a sched_state_scheme \<Rightarrow> (nat \<times> 'a sched_state_scheme) res" where
  "curproc a s = bindR (myproc a s) (\<lambda>(q, s1). bindR (deref ''myproc()'' q) (\<lambda>p. Inr (p, s1)))"

definition initsleeplock :: "lockid \<Rightarrow> string \<Rightarrow> 'a sl_state_scheme \<Rightarrow> 'a sl_state_scheme" where
  "initsleeplock L name s =
     upd_sl L (\<lambda>_. \<lparr>sl_locked = 0, sl_name = name, sl_pid = 0\<rparr>) (initlock L ''sleep lock'' s)"

definition acquiresleep :: "8 word \<Rightarrow> lockid \<Rightarrow> 'a sl_state_scheme \<Rightarrow> 'a sl_state_scheme res" where
  "acquiresleep a L s =
     bindR (acquire a L s) (\<lambda>s1.
       if sl_locked (slocks s1 L) \<noteq> 0 then Inl Blocks
       else
         let s2 = upd_sl L (\<lambda>k. k\<lparr>sl_locked := 1\<rparr>) s1 in
         bindR (curproc a s2) (\<lambda>(p, s3).
         release a L (upd_sl L (\<lambda>k. k\<lparr>sl_pid := p_pid (proc_at s3 p)\<rparr>) s3)))"

definition releasesleep :: "8 word \<Rightarrow> lockid \<Rightarrow> 'a sl_state_scheme \<Rightarrow> 'a sl_state_scheme res" where
  "releasesleep a L s =
     bindR (acquire a L s) (\<lambda>s1.
     bindR (wakeup a (lock_chan L) (upd_sl L (\<lambda>k. k\<lparr>sl_locked := 0, sl_pid := 0\<rparr>) s1)) (release a L))"

text \<open>The second operand of \<^verbatim>\<open>&&\<close> is evaluated only when the lock is held by someone.\<close>

definition holdingsleep :: "8 word \<Rightarrow> lockid \<Rightarrow> 'a sl_state_scheme \<Rightarrow> (bool \<times> 'a sl_state_scheme) res" where
  "holdingsleep a L s =
     bindR (acquire a L s) (\<lambda>s1.
     bindR (if sl_locked (slocks s1 L) = 0 then Inr (False, s1)
            else bindR (curproc a s1) (\<lambda>(p, s2). Inr (sl_pid (slocks s2 L) = p_pid (proc_at s2 p), s2)))
       (\<lambda>(r, s3). bindR (release a L s3) (\<lambda>s4. Inr (r, s4))))"

end
