(* ===== verification/Bio.thy ===== *)
theory Bio
  imports Sleeplock
begin

section \<open>Disk driver and buffer cache (ide.c, bio.c)\<close>

text \<open>
  The buffers form a circular list through \<^verbatim>\<open>prev\<close> and \<^verbatim>\<open>next\<close>, most recently used
  first; buffer \<open>NBUF\<close> is \<^verbatim>\<open>bcache.head\<close>.  The IDE controller is hardware: the state
  has the contents of its two drives, the drive and sector selected by the last command, and
  its error status.  A write command stores the data that \<^verbatim>\<open>outsl\<close> sends; \<^verbatim>\<open>insl\<close>
  reads the selected sector.  The controller is taken to be ready whenever it is polled.
\<close>

subsection \<open>State\<close>

definition BSIZE :: nat where
  "BSIZE = 512"

definition NBUF :: nat where
  "NBUF = 30"

definition FSSIZE :: cuint where
  "FSSIZE = 1000"

definition B_VALID :: cint where
  "B_VALID = 0x2"

definition B_DIRTY :: cint where
  "B_DIRTY = 0x4"

type_synonym block = "cchar list"

record buf =
  b_flags :: cint
  b_dev :: cuint
  b_blockno :: cuint
  b_refcnt :: cuint
  b_prev :: nat
  b_next :: nat
  b_qnext :: "nat option"
  b_data :: block

record bio_state = sl_state +
  bufs :: "nat \<Rightarrow> buf"
  idequeue :: "nat option"
  havedisk1 :: cint
  ide_drive :: cuint
  ide_lba :: cuint
  ide_error :: bool
  disk :: "cuint \<Rightarrow> cuint \<Rightarrow> block"

definition b_upd :: "nat \<Rightarrow> (buf \<Rightarrow> buf) \<Rightarrow> 'a bio_state_scheme \<Rightarrow> 'a bio_state_scheme" where
  "b_upd b f s = s\<lparr>bufs := (bufs s)(b := f (bufs s b))\<rparr>"

subsection \<open>The disk driver\<close>

definition idewait :: "bool \<Rightarrow> 'a bio_state_scheme \<Rightarrow> cint" where
  "idewait checkerr s = (if checkerr \<and> ide_error s then -1 else 0)"

text \<open>
  The sector goes out in four byte-wide registers, 28 bits in all; bit 0 of the device number
  selects the drive.
\<close>

definition idestart :: "nat option \<Rightarrow> 'a bio_state_scheme \<Rightarrow> 'a bio_state_scheme res" where
  "idestart q s =
     (case q of
        None \<Rightarrow> Inl (Panic ''idestart'')
      | Some b \<Rightarrow>
          if FSSIZE \<le> b_blockno (bufs s b) then Inl (Panic ''incorrect blockno'')
          else
            let sector = b_blockno (bufs s b);
                drive = b_dev (bufs s b) AND 1;
                lba = (sector AND 0xFF) OR push_bit 8 (drop_bit 8 sector AND 0xFF) OR
                      push_bit 16 (drop_bit 16 sector AND 0xFF) OR push_bit 24 (drop_bit 24 sector AND 0x0F);
                s1 = s\<lparr>ide_drive := drive, ide_lba := lba\<rparr>
            in Inr (if b_flags (bufs s1 b) AND B_DIRTY \<noteq> 0
                    then s1\<lparr>disk := (disk s1)(drive := (disk s1 drive)(lba := b_data (bufs s1 b)))\<rparr>
                    else s1))"

definition ideintr :: "8 word \<Rightarrow> 'a bio_state_scheme \<Rightarrow> 'a bio_state_scheme res" where
  "ideintr a s =
     bindR (acquire a L_ide s) (\<lambda>s1.
       case idequeue s1 of
         None \<Rightarrow> release a L_ide s1
       | Some b \<Rightarrow>
           let s2 = s1\<lparr>idequeue := b_qnext (bufs s1 b)\<rparr>;
               s3 = (if b_flags (bufs s2 b) AND B_DIRTY = 0 \<and> 0 \<le> sint (idewait True s2)
                     then b_upd b (\<lambda>B. B\<lparr>b_data := disk s2 (ide_drive s2) (ide_lba s2)\<rparr>) s2 else s2);
               s4 = b_upd b (\<lambda>B. B\<lparr>b_flags := (b_flags B OR B_VALID) AND NOT B_DIRTY\<rparr>) s3
           in bindR (wakeup a (Ch_buf b) s4) (\<lambda>s5.
              bindR (if idequeue s5 \<noteq> None then idestart (idequeue s5) s5 else Inr s5)
                (release a L_ide)))"

text \<open>The walk to the last request of the queue, whose \<^verbatim>\<open>qnext\<close> (or \<^verbatim>\<open>idequeue\<close>) is set.\<close>

fun ide_last :: "nat \<Rightarrow> (nat \<Rightarrow> buf) \<Rightarrow> nat \<Rightarrow> nat res" where
  "ide_last fuel bs q =
     (case b_qnext (bs q) of
        None \<Rightarrow> Inr q
      | Some q' \<Rightarrow> (case fuel of 0 \<Rightarrow> Inl Diverges | Suc n \<Rightarrow> ide_last n bs q'))"

definition ide_append :: "nat \<Rightarrow> 'a bio_state_scheme \<Rightarrow> 'a bio_state_scheme res" where
  "ide_append b s =
     (let s1 = b_upd b (\<lambda>B. B\<lparr>b_qnext := None\<rparr>) s in
      case idequeue s1 of
        None \<Rightarrow> Inr (s1\<lparr>idequeue := Some b\<rparr>)
      | Some q \<Rightarrow> bindR (ide_last NBUF (bufs s1) q) (\<lambda>r.
          Inr (b_upd r (\<lambda>B. B\<lparr>b_qnext := Some b\<rparr>) s1)))"

text \<open>
  While the request of \<open>b\<close> is not finished, \<^verbatim>\<open>iderw\<close> sleeps: it gives up \<^verbatim>\<open>idelock\<close>,
  the controller interrupts, and it takes the lock again.  That the process is off the CPU
  meanwhile is left out.  At most \<open>NBUF\<close> requests can be in front of this one.
\<close>

fun iderw_wait :: "nat \<Rightarrow> 8 word \<Rightarrow> nat \<Rightarrow> 'a bio_state_scheme \<Rightarrow> 'a bio_state_scheme res" where
  "iderw_wait fuel a b s =
     (if b_flags (bufs s b) AND (B_VALID OR B_DIRTY) = B_VALID then Inr s
      else (case fuel of
              0 \<Rightarrow> Inl Diverges
            | Suc n \<Rightarrow>
                bindR (release a L_ide s) (\<lambda>s1.
                bindR (ideintr a s1) (\<lambda>s2.
                bindR (acquire a L_ide s2) (iderw_wait n a b)))))"

declare ide_last.simps [simp del]
declare iderw_wait.simps [simp del]

definition iderw :: "8 word \<Rightarrow> nat \<Rightarrow> 'a bio_state_scheme \<Rightarrow> 'a bio_state_scheme res" where
  "iderw a b s =
     bindR (holdingsleep a (L_buf b) s) (\<lambda>(h, s1).
       if \<not> h then Inl (Panic ''iderw: buf not locked'')
       else if b_flags (bufs s1 b) AND (B_VALID OR B_DIRTY) = B_VALID then Inl (Panic ''iderw: nothing to do'')
       else if b_dev (bufs s1 b) \<noteq> 0 \<and> havedisk1 s1 = 0 then Inl (Panic ''iderw: ide disk 1 not present'')
       else
         bindR (acquire a L_ide s1) (\<lambda>s2.
         bindR (ide_append b s2) (\<lambda>s3.
         bindR (if idequeue s3 = Some b then idestart (Some b) s3 else Inr s3) (\<lambda>s4.
         bindR (iderw_wait (Suc NBUF) a b s4) (release a L_ide)))))"

subsection \<open>The buffer cache\<close>

definition binit_step :: "nat \<Rightarrow> 'a bio_state_scheme \<Rightarrow> 'a bio_state_scheme" where
  "binit_step b s =
     (let s1 = b_upd b (\<lambda>B. B\<lparr>b_next := b_next (bufs s NBUF)\<rparr>) s;
          s2 = b_upd b (\<lambda>B. B\<lparr>b_prev := NBUF\<rparr>) s1;
          s3 = initsleeplock (L_buf b) ''buffer'' s2;
          s4 = b_upd (b_next (bufs s3 NBUF)) (\<lambda>B. B\<lparr>b_prev := b\<rparr>) s3
      in b_upd NBUF (\<lambda>B. B\<lparr>b_next := b\<rparr>) s4)"

definition binit :: "'a bio_state_scheme \<Rightarrow> 'a bio_state_scheme" where
  "binit s =
     fold binit_step [0..<NBUF]
       (b_upd NBUF (\<lambda>B. B\<lparr>b_prev := NBUF, b_next := NBUF\<rparr>) (initlock L_bcache ''bcache'' s))"

text \<open>The two scans of \<^verbatim>\<open>bget\<close>: forwards for the block, backwards for a free buffer.\<close>

fun buf_scan :: "nat \<Rightarrow> (buf \<Rightarrow> nat) \<Rightarrow> (buf \<Rightarrow> bool) \<Rightarrow> (nat \<Rightarrow> buf) \<Rightarrow> nat \<Rightarrow> nat option res" where
  "buf_scan fuel link P bs b =
     (if b = NBUF then Inr None
      else if P (bs b) then Inr (Some b)
      else (case fuel of 0 \<Rightarrow> Inl Diverges | Suc n \<Rightarrow> buf_scan n link P bs (link (bs b))))"

declare buf_scan.simps [simp del]

definition bget :: "8 word \<Rightarrow> cuint \<Rightarrow> cuint \<Rightarrow> 'a bio_state_scheme \<Rightarrow> (nat \<times> 'a bio_state_scheme) res" where
  "bget a dev blockno s =
     bindR (acquire a L_bcache s) (\<lambda>s1.
     bindR (buf_scan NBUF b_next (\<lambda>B. b_dev B = dev \<and> b_blockno B = blockno) (bufs s1) (b_next (bufs s1 NBUF))) (\<lambda>r.
       case r of
         Some b \<Rightarrow>
           bindR (release a L_bcache (b_upd b (\<lambda>B. B\<lparr>b_refcnt := b_refcnt B + 1\<rparr>) s1)) (\<lambda>s2.
           bindR (acquiresleep a (L_buf b) s2) (\<lambda>s3. Inr (b, s3)))
       | None \<Rightarrow>
           bindR (buf_scan NBUF b_prev (\<lambda>B. b_refcnt B = 0 \<and> b_flags B AND B_DIRTY = 0)
                    (bufs s1) (b_prev (bufs s1 NBUF))) (\<lambda>r.
             case r of
               Some b \<Rightarrow>
                 bindR (release a L_bcache
                   (b_upd b (\<lambda>B. B\<lparr>b_dev := dev, b_blockno := blockno, b_flags := 0, b_refcnt := 1\<rparr>) s1)) (\<lambda>s2.
                 bindR (acquiresleep a (L_buf b) s2) (\<lambda>s3. Inr (b, s3)))
             | None \<Rightarrow> Inl (Panic ''bget: no buffers''))))"

definition bread :: "8 word \<Rightarrow> cuint \<Rightarrow> cuint \<Rightarrow> 'a bio_state_scheme \<Rightarrow> (nat \<times> 'a bio_state_scheme) res" where
  "bread a dev blockno s =
     bindR (bget a dev blockno s) (\<lambda>(b, s1).
     bindR (if b_flags (bufs s1 b) AND B_VALID = 0 then iderw a b s1 else Inr s1) (\<lambda>s2. Inr (b, s2)))"

definition bwrite :: "8 word \<Rightarrow> nat \<Rightarrow> 'a bio_state_scheme \<Rightarrow> 'a bio_state_scheme res" where
  "bwrite a b s =
     bindR (holdingsleep a (L_buf b) s) (\<lambda>(h, s1).
       if \<not> h then Inl (Panic ''bwrite'')
       else iderw a b (b_upd b (\<lambda>B. B\<lparr>b_flags := b_flags B OR B_DIRTY\<rparr>) s1))"

definition to_front :: "nat \<Rightarrow> 'a bio_state_scheme \<Rightarrow> 'a bio_state_scheme" where
  "to_front b s =
     (let s1 = b_upd (b_next (bufs s b)) (\<lambda>B. B\<lparr>b_prev := b_prev (bufs s b)\<rparr>) s;
          s2 = b_upd (b_prev (bufs s1 b)) (\<lambda>B. B\<lparr>b_next := b_next (bufs s1 b)\<rparr>) s1;
          s3 = b_upd b (\<lambda>B. B\<lparr>b_next := b_next (bufs s2 NBUF)\<rparr>) s2;
          s4 = b_upd b (\<lambda>B. B\<lparr>b_prev := NBUF\<rparr>) s3;
          s5 = b_upd (b_next (bufs s4 NBUF)) (\<lambda>B. B\<lparr>b_prev := b\<rparr>) s4
      in b_upd NBUF (\<lambda>B. B\<lparr>b_next := b\<rparr>) s5)"

definition brelse :: "8 word \<Rightarrow> nat \<Rightarrow> 'a bio_state_scheme \<Rightarrow> 'a bio_state_scheme res" where
  "brelse a b s =
     bindR (holdingsleep a (L_buf b) s) (\<lambda>(h, s1).
       if \<not> h then Inl (Panic ''brelse'')
       else
         bindR (releasesleep a (L_buf b) s1) (\<lambda>s2.
         bindR (acquire a L_bcache s2) (\<lambda>s3.
           let s4 = b_upd b (\<lambda>B. B\<lparr>b_refcnt := b_refcnt B - 1\<rparr>) s3 in
           release a L_bcache (if b_refcnt (bufs s4 b) = 0 then to_front b s4 else s4))))"

end
