(* ===== verification/Bytes.thy ===== *)
theory Bytes
  imports KString
begin

section \<open>Structures in byte arrays\<close>

text \<open>
  Disk blocks, directory entries and other structures the source lays over byte arrays:
  reading and writing 16- and 32-bit little-endian fields and copying bytes into an array.
  The C strings of path names are lists without their terminating NUL.
\<close>

definition slice :: "nat \<Rightarrow> nat \<Rightarrow> 'b list \<Rightarrow> 'b list" where
  "slice i n xs = take n (drop i xs)"

definition blit :: "nat \<Rightarrow> 'b list \<Rightarrow> 'b list \<Rightarrow> 'b list" where
  "blit i ys xs = take i xs @ ys @ drop (i + length ys) xs"

definition bytes32 :: "cuint \<Rightarrow> cchar list" where
  "bytes32 w = [ucast w, ucast (drop_bit 8 w), ucast (drop_bit 16 w), ucast (drop_bit 24 w)]"

definition word32 :: "cchar list \<Rightarrow> cuint" where
  "word32 xs = ucast (xs ! 0) OR push_bit 8 (ucast (xs ! 1)) OR push_bit 16 (ucast (xs ! 2)) OR push_bit 24 (ucast (xs ! 3))"

definition bytes16 :: "16 word \<Rightarrow> cchar list" where
  "bytes16 w = [ucast w, ucast (drop_bit 8 w)]"

definition word16 :: "cchar list \<Rightarrow> 16 word" where
  "word16 xs = ucast (xs ! 0) OR push_bit 8 (ucast (xs ! 1))"

definition get32 :: "nat \<Rightarrow> cchar list \<Rightarrow> cuint" where
  "get32 i xs = word32 (slice i 4 xs)"

definition put32 :: "nat \<Rightarrow> cuint \<Rightarrow> cchar list \<Rightarrow> cchar list" where
  "put32 i w xs = blit i (bytes32 w) xs"

definition get16 :: "nat \<Rightarrow> cchar list \<Rightarrow> 16 word" where
  "get16 i xs = word16 (slice i 2 xs)"

definition put16 :: "nat \<Rightarrow> 16 word \<Rightarrow> cchar list \<Rightarrow> cchar list" where
  "put16 i w xs = blit i (bytes16 w) xs"

text \<open>The byte of a C string at an index: NUL from its end on.\<close>

definition cstr_at :: "cchar list \<Rightarrow> nat \<Rightarrow> cchar" where
  "cstr_at xs i = (if i < length xs then xs ! i else 0)"

subsection \<open>Laws\<close>

lemma length_slice [simp]: "length (slice i n xs) = min n (length xs - i)"
  by (simp add: slice_def)

lemma length_blit [simp]: "i + length ys \<le> length xs \<Longrightarrow> length (blit i ys xs) = length xs"
  by (simp add: blit_def)

lemma length_bytes [simp]: "length (bytes32 w) = 4" "length (bytes16 h) = 2"
  by (simp_all add: bytes32_def bytes16_def)

lemma length_put [simp]:
  "i + 4 \<le> length xs \<Longrightarrow> length (put32 i w xs) = length xs"
  "i + 2 \<le> length xs \<Longrightarrow> length (put16 i h xs) = length xs"
  by (simp_all add: put32_def put16_def)

lemma slice_blit_same [simp]: "i + length ys \<le> length xs \<Longrightarrow> slice i (length ys) (blit i ys xs) = ys"
  by (simp add: slice_def blit_def)

lemma nth_slice: "i + n \<le> length xs \<Longrightarrow> j < n \<Longrightarrow> slice i n xs ! j = xs ! (i + j)"
  by (simp add: slice_def)

lemma nth_blit:
  "i + length ys \<le> length xs \<Longrightarrow> j < length xs \<Longrightarrow>
   blit i ys xs ! j = (if i \<le> j \<and> j < i + length ys then ys ! (j - i) else xs ! j)"
  by (auto simp: blit_def nth_append min_def)

lemma slice_blit_other:
  assumes "i + length ys \<le> length xs" and "j + n \<le> length xs" and "j + n \<le> i \<or> i + length ys \<le> j"
  shows "slice j n (blit i ys xs) = slice j n xs"
proof (rule nth_equalityI)
  show "length (slice j n (blit i ys xs)) = length (slice j n xs)" using assms by simp
  fix k assume "k < length (slice j n (blit i ys xs))"
  then have k: "k < n" by simp
  with assms show "slice j n (blit i ys xs) ! k = slice j n xs ! k"
    by (subst (1 2) nth_slice) (auto simp: nth_blit)
qed

lemma word32_bytes32 [simp]: "word32 (bytes32 w) = w"
proof (rule bit_word_eqI)
  fix n assume "n < LENGTH(32)"
  then consider "n < 8" | "8 \<le> n" "n < 16" | "16 \<le> n" "n < 24" | "24 \<le> n" "n < 32" by fastforce
  then show "bit (word32 (bytes32 w)) n = bit w n"
    by cases (auto simp: word32_def bytes32_def bit_simps)
qed

lemma word16_bytes16 [simp]: "word16 (bytes16 w) = w"
proof (rule bit_word_eqI)
  fix n assume "n < LENGTH(16)"
  then consider "n < 8" | "8 \<le> n" "n < 16" by fastforce
  then show "bit (word16 (bytes16 w)) n = bit w n"
    by cases (auto simp: word16_def bytes16_def bit_simps)
qed

lemma get_put32 [simp]: "i + 4 \<le> length xs \<Longrightarrow> get32 i (put32 i w xs) = w"
  using slice_blit_same[of i "bytes32 w" xs] by (simp add: get32_def put32_def)

lemma get_put16 [simp]: "i + 2 \<le> length xs \<Longrightarrow> get16 i (put16 i w xs) = w"
  using slice_blit_same[of i "bytes16 w" xs] by (simp add: get16_def put16_def)

lemma get_put_other [simp]:
  "i + 4 \<le> length xs \<Longrightarrow> j + 4 \<le> length xs \<Longrightarrow> j + 4 \<le> i \<or> i + 4 \<le> j \<Longrightarrow> get32 j (put32 i w xs) = get32 j xs"
  "i + 2 \<le> length xs \<Longrightarrow> j + 4 \<le> length xs \<Longrightarrow> j + 4 \<le> i \<or> i + 2 \<le> j \<Longrightarrow> get32 j (put16 i h xs) = get32 j xs"
  "i + 4 \<le> length xs \<Longrightarrow> j + 2 \<le> length xs \<Longrightarrow> j + 2 \<le> i \<or> i + 4 \<le> j \<Longrightarrow> get16 j (put32 i w xs) = get16 j xs"
  "i + 2 \<le> length xs \<Longrightarrow> j + 2 \<le> length xs \<Longrightarrow> j + 2 \<le> i \<or> i + 2 \<le> j \<Longrightarrow> get16 j (put16 i h xs) = get16 j xs"
  by (simp_all add: get32_def put32_def get16_def put16_def slice_blit_other)

end
