(* ===== verification/Log.thy ===== *)
theory Log
  imports Bio Bytes
begin

section \<open>The redo log (log.c)\<close>

text \<open>
  File-system calls bracket their updates with \<^verbatim>\<open>begin_op\<close> and \<^verbatim>\<open>end_op\<close>;
  \<^verbatim>\<open>log_write\<close> records a changed block and pins its buffer, and the last \<^verbatim>\<open>end_op\<close>
  commits.  The header block holds the number of logged blocks and, in words 1 to
  \<open>LOGSIZE\<close>, their home locations.  \<open>begin_op\<close> is \<open>Blocks\<close> where the source sleeps.
\<close>

subsection \<open>State\<close>

definition MAXOPBLOCKS :: nat where
  "MAXOPBLOCKS = 10"

definition LOGSIZE :: nat where
  "LOGSIZE = MAXOPBLOCKS * 3"

record logheader =
  lh_n :: cint
  lh_block :: "cint list"

record log =
  log_start :: cint
  log_size :: cint
  log_outstanding :: cint
  log_committing :: cint
  log_dev :: cint
  log_lh :: logheader

record log_state = bio_state +
  log :: log

record superblock =
  sb_size :: cuint
  sb_nblocks :: cuint
  sb_ninodes :: cuint
  sb_nlog :: cuint
  sb_logstart :: cuint
  sb_inodestart :: cuint
  sb_bmapstart :: cuint

definition upd_log :: "(log \<Rightarrow> log) \<Rightarrow> 'a log_state_scheme \<Rightarrow> 'a log_state_scheme" where
  "upd_log f s = s\<lparr>log := f (log s)\<rparr>"

definition set_lh :: "(logheader \<Rightarrow> logheader) \<Rightarrow> 'a log_state_scheme \<Rightarrow> 'a log_state_scheme" where
  "set_lh f s = upd_log (\<lambda>l. l\<lparr>log_lh := f (log_lh l)\<rparr>) s"

abbreviation lhn :: "'a log_state_scheme \<Rightarrow> cint" where
  "lhn s \<equiv> lh_n (log_lh (log s))"

abbreviation lhb :: "'a log_state_scheme \<Rightarrow> cint list" where
  "lhb s \<equiv> lh_block (log_lh (log s))"

subsection \<open>Operations\<close>

definition superblock_of :: "block \<Rightarrow> superblock" where
  "superblock_of d =
     \<lparr>sb_size = get32 0 d, sb_nblocks = get32 4 d, sb_ninodes = get32 8 d, sb_nlog = get32 12 d,
      sb_logstart = get32 16 d, sb_inodestart = get32 20 d, sb_bmapstart = get32 24 d\<rparr>"

definition readsb :: "8 word \<Rightarrow> cint \<Rightarrow> 'a bio_state_scheme \<Rightarrow> (superblock \<times> 'a bio_state_scheme) res" where
  "readsb a dev s =
     bindR (bread a dev 1 s) (\<lambda>(bp, s1).
       let sb = superblock_of (b_data (bufs s1 bp)) in
       bindR (brelse a bp s1) (\<lambda>s2. Inr (sb, s2)))"

text \<open>An access to \<^verbatim>\<open>block[i]\<close> of a header, which has \<open>LOGSIZE\<close> entries.\<close>

definition block_at :: "cint list \<Rightarrow> nat \<Rightarrow> cint res" where
  "block_at bs i = (if i < length bs then Inr (bs ! i) else Inl (Undefined ''lh.block[]''))"

definition install_block :: "8 word \<Rightarrow> nat \<Rightarrow> 'a log_state_scheme \<Rightarrow> 'a log_state_scheme res" where
  "install_block a tail s =
     bindR (bread a (log_dev (log s)) (log_start (log s) + of_nat tail + 1) s) (\<lambda>(lbuf, s1).
     bindR (block_at (lhb s1) tail) (\<lambda>home.
     bindR (bread a (log_dev (log s1)) home s1) (\<lambda>(dbuf, s2).
     let s3 = b_upd dbuf (\<lambda>B. B\<lparr>b_data := b_data (bufs s2 lbuf)\<rparr>) s2 in
     bindR (bwrite a dbuf s3) (\<lambda>s4.
     bindR (brelse a lbuf s4) (brelse a dbuf)))))"

definition install_trans :: "8 word \<Rightarrow> 'a log_state_scheme \<Rightarrow> 'a log_state_scheme res" where
  "install_trans a s = foldR (install_block a) [0..<nat (sint (lhn s))] s"

text \<open>Reading a header block into an array of \<open>LOGSIZE\<close> entries, and writing one over it.\<close>

definition header_of :: "block \<Rightarrow> cint list \<Rightarrow> logheader" where
  "header_of d bs =
     (let n = get32 0 d in
      \<lparr>lh_n = n, lh_block = map (\<lambda>i. get32 (4 + 4 * i) d) [0..<nat (sint n)] @ drop (nat (sint n)) bs\<rparr>)"

definition put_header :: "logheader \<Rightarrow> block \<Rightarrow> block" where
  "put_header lh d =
     fold (\<lambda>i d. put32 (4 + 4 * i) (lh_block lh ! i) d) [0..<nat (sint (lh_n lh))] (put32 0 (lh_n lh) d)"

definition read_head :: "8 word \<Rightarrow> 'a log_state_scheme \<Rightarrow> 'a log_state_scheme res" where
  "read_head a s =
     bindR (bread a (log_dev (log s)) (log_start (log s)) s) (\<lambda>(b, s1).
       let d = b_data (bufs s1 b) in
       if int LOGSIZE < sint (get32 0 d) then Inl (Undefined ''lh.block[]'')
       else brelse a b (set_lh (\<lambda>lh. header_of d (lh_block lh)) s1))"

definition write_head :: "8 word \<Rightarrow> 'a log_state_scheme \<Rightarrow> 'a log_state_scheme res" where
  "write_head a s =
     bindR (bread a (log_dev (log s)) (log_start (log s)) s) (\<lambda>(b, s1).
       if int LOGSIZE < sint (lhn s1) then Inl (Undefined ''lh.block[]'')
       else
         bindR (bwrite a b (b_upd b (\<lambda>B. B\<lparr>b_data := put_header (log_lh (log s1)) (b_data B)\<rparr>) s1)) (brelse a b))"

definition recover_from_log :: "8 word \<Rightarrow> 'a log_state_scheme \<Rightarrow> 'a log_state_scheme res" where
  "recover_from_log a s =
     bindR (read_head a s) (\<lambda>s1.
     bindR (install_trans a s1) (\<lambda>s2.
     write_head a (set_lh (\<lambda>lh. lh\<lparr>lh_n := 0\<rparr>) s2)))"

text \<open>\<^verbatim>\<open>sizeof(struct logheader)\<close> is \<open>4 * (LOGSIZE + 1)\<close>, smaller than a block.\<close>

definition initlog :: "8 word \<Rightarrow> cint \<Rightarrow> 'a log_state_scheme \<Rightarrow> 'a log_state_scheme res" where
  "initlog a dev s =
     (if BSIZE \<le> 4 * (LOGSIZE + 1) then Inl (Panic ''initlog: too big logheader'')
      else
        bindR (readsb a dev (initlock L_log ''log'' s)) (\<lambda>(sb, s1).
        recover_from_log a
          (upd_log (\<lambda>l. l\<lparr>log_start := sb_logstart sb, log_size := sb_nlog sb, log_dev := dev\<rparr>) s1)))"

definition begin_op :: "8 word \<Rightarrow> 'a log_state_scheme \<Rightarrow> 'a log_state_scheme res" where
  "begin_op a s =
     bindR (acquire a L_log s) (\<lambda>s1.
       if log_committing (log s1) \<noteq> 0 then Inl Blocks
       else if sint (of_nat LOGSIZE :: cint) <
               sint (lhn s1 + (log_outstanding (log s1) + 1) * of_nat MAXOPBLOCKS) then Inl Blocks
       else release a L_log (upd_log (\<lambda>l. l\<lparr>log_outstanding := log_outstanding l + 1\<rparr>) s1))"

definition write_block :: "8 word \<Rightarrow> nat \<Rightarrow> 'a log_state_scheme \<Rightarrow> 'a log_state_scheme res" where
  "write_block a tail s =
     bindR (bread a (log_dev (log s)) (log_start (log s) + of_nat tail + 1) s) (\<lambda>(to, s1).
     bindR (block_at (lhb s1) tail) (\<lambda>home.
     bindR (bread a (log_dev (log s1)) home s1) (\<lambda>(from, s2).
     let s3 = b_upd to (\<lambda>B. B\<lparr>b_data := b_data (bufs s2 from)\<rparr>) s2 in
     bindR (bwrite a to s3) (\<lambda>s4.
     bindR (brelse a from s4) (brelse a to)))))"

definition write_log :: "8 word \<Rightarrow> 'a log_state_scheme \<Rightarrow> 'a log_state_scheme res" where
  "write_log a s = foldR (write_block a) [0..<nat (sint (lhn s))] s"

definition commit :: "8 word \<Rightarrow> 'a log_state_scheme \<Rightarrow> 'a log_state_scheme res" where
  "commit a s =
     (if 0 < sint (lhn s) then
        bindR (write_log a s) (\<lambda>s1.
        bindR (write_head a s1) (\<lambda>s2.
        bindR (install_trans a s2) (\<lambda>s3.
        write_head a (set_lh (\<lambda>lh. lh\<lparr>lh_n := 0\<rparr>) s3))))
      else Inr s)"

definition end_op :: "8 word \<Rightarrow> 'a log_state_scheme \<Rightarrow> 'a log_state_scheme res" where
  "end_op a s =
     bindR (acquire a L_log s) (\<lambda>s1.
       let s2 = upd_log (\<lambda>l. l\<lparr>log_outstanding := log_outstanding l - 1\<rparr>) s1 in
       if log_committing (log s2) \<noteq> 0 then Inl (Panic ''log.committing'')
       else if log_outstanding (log s2) = 0 then
         bindR (release a L_log (upd_log (\<lambda>l. l\<lparr>log_committing := 1\<rparr>) s2)) (\<lambda>s3.
         bindR (commit a s3) (\<lambda>s4.
         bindR (acquire a L_log s4) (\<lambda>s5.
         bindR (wakeup a Ch_log (upd_log (\<lambda>l. l\<lparr>log_committing := 0\<rparr>) s5)) (release a L_log))))
       else bindR (wakeup a Ch_log s2) (release a L_log))"

definition log_write :: "8 word \<Rightarrow> nat \<Rightarrow> 'a log_state_scheme \<Rightarrow> 'a log_state_scheme res" where
  "log_write a b s =
     (if int LOGSIZE \<le> sint (lhn s) \<or> sint (log_size (log s) - 1) \<le> sint (lhn s)
      then Inl (Panic ''too big a transaction'')
      else if sint (log_outstanding (log s)) < 1 then Inl (Panic ''log_write outside of trans'')
      else
        bindR (acquire a L_log s) (\<lambda>s1.
          let n = nat (sint (lhn s1));
              i = (case List.find (\<lambda>i. lhb s1 ! i = b_blockno (bufs s1 b)) [0..<n] of Some i \<Rightarrow> i | None \<Rightarrow> n);
              s2 = set_lh (\<lambda>lh. lh\<lparr>lh_block := (lh_block lh)[i := b_blockno (bufs s1 b)]\<rparr>) s1;
              s3 = (if i = n then set_lh (\<lambda>lh. lh\<lparr>lh_n := lh_n lh + 1\<rparr>) s2 else s2)
          in release a L_log (b_upd b (\<lambda>B. B\<lparr>b_flags := b_flags B OR B_DIRTY\<rparr>) s3)))"

end
