(* ===== verification/Inode.thy ===== *)
theory Inode
  imports Log
begin

section \<open>Disk blocks and inodes (fs.c, first half)\<close>

text \<open>
  The block bitmap, the inode cache and the map from file blocks to disk blocks.  An inode is
  named by its index in \<^verbatim>\<open>icache.inode[]\<close>; a disk inode is the 64 bytes at its place in
  its block.  The message \<^verbatim>\<open>iinit\<close> prints is not modelled.
\<close>

subsection \<open>State\<close>

definition NINODE :: nat where
  "NINODE = 50"

definition NDIRECT :: nat where
  "NDIRECT = 12"

definition NINDIRECT :: nat where
  "NINDIRECT = BSIZE div 4"

definition MAXFILE :: nat where
  "MAXFILE = NDIRECT + NINDIRECT"

definition BPB :: nat where
  "BPB = BSIZE * 8"

definition IPB :: nat where
  "IPB = BSIZE div 64"

record inode =
  i_dev :: cuint
  i_inum :: cuint
  i_ref :: cint
  i_valid :: cint
  i_type :: "16 word"
  i_major :: "16 word"
  i_minor :: "16 word"
  i_nlink :: "16 word"
  i_size :: cuint
  i_addrs :: "cuint list"

record fs_state = log_state +
  inodes :: "nat \<Rightarrow> inode"
  sb :: superblock

definition i_upd :: "nat \<Rightarrow> (inode \<Rightarrow> inode) \<Rightarrow> 'a fs_state_scheme \<Rightarrow> 'a fs_state_scheme" where
  "i_upd ip f s = s\<lparr>inodes := (inodes s)(ip := f (inodes s ip))\<rparr>"

definition set_data :: "nat \<Rightarrow> (block \<Rightarrow> block) \<Rightarrow> 'a bio_state_scheme \<Rightarrow> 'a bio_state_scheme" where
  "set_data bp f s = b_upd bp (\<lambda>B. B\<lparr>b_data := f (b_data B)\<rparr>) s"

definition IBLOCK :: "cuint \<Rightarrow> superblock \<Rightarrow> cuint" where
  "IBLOCK i b = i div of_nat IPB + sb_inodestart b"

definition BBLOCK :: "cuint \<Rightarrow> superblock \<Rightarrow> cuint" where
  "BBLOCK b k = b div of_nat BPB + sb_bmapstart k"

text \<open>Where disk inode \<open>inum\<close> starts in its block.\<close>

definition dip_off :: "cuint \<Rightarrow> nat" where
  "dip_off inum = 64 * (unat inum mod IPB)"

subsection \<open>Blocks\<close>

definition bzero :: "8 word \<Rightarrow> cint \<Rightarrow> cint \<Rightarrow> 'a log_state_scheme \<Rightarrow> 'a log_state_scheme res" where
  "bzero a dev bno s =
     bindR (bread a dev bno s) (\<lambda>(bp, s1).
     bindR (log_write a bp (set_data bp (\<lambda>_. replicate BSIZE 0) s1)) (brelse a bp))"

definition bit_clear :: "block \<Rightarrow> nat \<Rightarrow> bool" where
  "bit_clear d bi \<longleftrightarrow> d ! (bi div 8) AND push_bit (bi mod 8) 1 = 0"

definition mark_bit :: "nat \<Rightarrow> block \<Rightarrow> block" where
  "mark_bit bi d = d[bi div 8 := d ! (bi div 8) OR push_bit (bi mod 8) 1]"

definition unmark_bit :: "nat \<Rightarrow> block \<Rightarrow> block" where
  "unmark_bit bi d = d[bi div 8 := d ! (bi div 8) AND NOT (push_bit (bi mod 8) 1)]"

text \<open>The outer loop of \<^verbatim>\<open>balloc\<close> over the first block \<open>b\<close> of each bitmap block.\<close>

fun balloc_loop :: "8 word \<Rightarrow> cuint \<Rightarrow> nat list \<Rightarrow> 'a fs_state_scheme \<Rightarrow> (cuint \<times> 'a fs_state_scheme) res" where
  "balloc_loop a dev [] s = Inl (Panic ''balloc: out of blocks'')"
| "balloc_loop a dev (b # bs) s =
     bindR (bread a dev (BBLOCK (of_nat b) (sb s)) s) (\<lambda>(bp, s1).
       case List.find (bit_clear (b_data (bufs s1 bp))) [0..<min BPB (unat (sb_size (sb s1)) - b)] of
         Some bi \<Rightarrow>
           bindR (log_write a bp (set_data bp (mark_bit bi) s1)) (\<lambda>s2.
           bindR (brelse a bp s2) (\<lambda>s3.
           bindR (bzero a dev (of_nat (b + bi)) s3) (\<lambda>s4. Inr (of_nat (b + bi), s4))))
       | None \<Rightarrow> bindR (brelse a bp s1) (balloc_loop a dev bs))"

definition balloc :: "8 word \<Rightarrow> cuint \<Rightarrow> 'a fs_state_scheme \<Rightarrow> (cuint \<times> 'a fs_state_scheme) res" where
  "balloc a dev s =
     balloc_loop a dev (map (\<lambda>k. k * BPB) [0..<(unat (sb_size (sb s)) + BPB - 1) div BPB]) s"

definition bfree :: "8 word \<Rightarrow> cint \<Rightarrow> cuint \<Rightarrow> 'a fs_state_scheme \<Rightarrow> 'a fs_state_scheme res" where
  "bfree a dev b s =
     bindR (bread a dev (BBLOCK b (sb s)) s) (\<lambda>(bp, s1).
       let bi = unat b mod BPB in
       if bit_clear (b_data (bufs s1 bp)) bi then Inl (Panic ''freeing free block'')
       else bindR (log_write a bp (set_data bp (unmark_bit bi) s1)) (brelse a bp))"

subsection \<open>Inodes\<close>

definition iinit :: "8 word \<Rightarrow> cint \<Rightarrow> 'a fs_state_scheme \<Rightarrow> 'a fs_state_scheme res" where
  "iinit a dev s =
     bindR (readsb a dev (fold (\<lambda>i. initsleeplock (L_inode i) ''inode'') [0..<NINODE] (initlock L_icache ''icache'' s)))
       (\<lambda>(b, s1). Inr (s1\<lparr>sb := b\<rparr>))"

definition iget :: "8 word \<Rightarrow> cuint \<Rightarrow> cuint \<Rightarrow> 'a fs_state_scheme \<Rightarrow> (nat \<times> 'a fs_state_scheme) res" where
  "iget a dev inum s =
     bindR (acquire a L_icache s) (\<lambda>s1.
       case List.find (\<lambda>ip. 0 < sint (i_ref (inodes s1 ip)) \<and> i_dev (inodes s1 ip) = dev \<and>
                            i_inum (inodes s1 ip) = inum) [0..<NINODE] of
         Some ip \<Rightarrow>
           bindR (release a L_icache (i_upd ip (\<lambda>I. I\<lparr>i_ref := i_ref I + 1\<rparr>) s1)) (\<lambda>s2. Inr (ip, s2))
       | None \<Rightarrow>
           (case List.find (\<lambda>ip. i_ref (inodes s1 ip) = 0) [0..<NINODE] of
              None \<Rightarrow> Inl (Panic ''iget: no inodes'')
            | Some ip \<Rightarrow>
                bindR (release a L_icache
                  (i_upd ip (\<lambda>I. I\<lparr>i_dev := dev, i_inum := inum, i_ref := 1, i_valid := 0\<rparr>) s1)) (\<lambda>s2. Inr (ip, s2))))"

fun ialloc_loop ::
  "8 word \<Rightarrow> cuint \<Rightarrow> 16 word \<Rightarrow> nat list \<Rightarrow> 'a fs_state_scheme \<Rightarrow> (nat \<times> 'a fs_state_scheme) res" where
  "ialloc_loop a dev type [] s = Inl (Panic ''ialloc: no inodes'')"
| "ialloc_loop a dev type (inum # inums) s =
     bindR (bread a dev (IBLOCK (of_nat inum) (sb s)) s) (\<lambda>(bp, s1).
       let dip = dip_off (of_nat inum) in
       if get16 dip (b_data (bufs s1 bp)) = 0 then
         bindR (log_write a bp (set_data bp (\<lambda>d. put16 dip type (blit dip (replicate 64 0) d)) s1)) (\<lambda>s2.
         bindR (brelse a bp s2) (iget a dev (of_nat inum)))
       else bindR (brelse a bp s1) (ialloc_loop a dev type inums))"

definition ialloc :: "8 word \<Rightarrow> cuint \<Rightarrow> 16 word \<Rightarrow> 'a fs_state_scheme \<Rightarrow> (nat \<times> 'a fs_state_scheme) res" where
  "ialloc a dev type s = ialloc_loop a dev type [1..<unat (sb_ninodes (sb s))] s"

text \<open>The fields of an in-memory inode stored into, and loaded from, its disk inode.\<close>

definition put_dinode :: "nat \<Rightarrow> inode \<Rightarrow> block \<Rightarrow> block" where
  "put_dinode dip I d =
     blit (dip + 12) (concat (map bytes32 (i_addrs I)))
       (put32 (dip + 8) (i_size I)
         (put16 (dip + 6) (i_nlink I)
           (put16 (dip + 4) (i_minor I)
             (put16 (dip + 2) (i_major I)
               (put16 dip (i_type I) d)))))"

definition get_dinode :: "nat \<Rightarrow> block \<Rightarrow> inode \<Rightarrow> inode" where
  "get_dinode dip d I =
     I\<lparr>i_type := get16 dip d, i_major := get16 (dip + 2) d, i_minor := get16 (dip + 4) d,
       i_nlink := get16 (dip + 6) d, i_size := get32 (dip + 8) d,
       i_addrs := map (\<lambda>i. get32 (dip + 12 + 4 * i) d) [0..<NDIRECT + 1]\<rparr>"

definition iupdate :: "8 word \<Rightarrow> nat \<Rightarrow> 'a fs_state_scheme \<Rightarrow> 'a fs_state_scheme res" where
  "iupdate a ip s =
     bindR (bread a (i_dev (inodes s ip)) (IBLOCK (i_inum (inodes s ip)) (sb s)) s) (\<lambda>(bp, s1).
     bindR (log_write a bp (set_data bp (put_dinode (dip_off (i_inum (inodes s1 ip))) (inodes s1 ip)) s1))
       (brelse a bp))"

definition idup :: "8 word \<Rightarrow> nat \<Rightarrow> 'a fs_state_scheme \<Rightarrow> (nat \<times> 'a fs_state_scheme) res" where
  "idup a ip s =
     bindR (acquire a L_icache s) (\<lambda>s1.
     bindR (release a L_icache (i_upd ip (\<lambda>I. I\<lparr>i_ref := i_ref I + 1\<rparr>) s1)) (\<lambda>s2. Inr (ip, s2)))"

definition ilock :: "8 word \<Rightarrow> nat option \<Rightarrow> 'a fs_state_scheme \<Rightarrow> 'a fs_state_scheme res" where
  "ilock a p s =
     (case p of
        None \<Rightarrow> Inl (Panic ''ilock'')
      | Some ip \<Rightarrow>
          if sint (i_ref (inodes s ip)) < 1 then Inl (Panic ''ilock'')
          else
            bindR (acquiresleep a (L_inode ip) s) (\<lambda>s1.
              if i_valid (inodes s1 ip) = 0 then
                bindR (bread a (i_dev (inodes s1 ip)) (IBLOCK (i_inum (inodes s1 ip)) (sb s1)) s1) (\<lambda>(bp, s2).
                let s3 = i_upd ip (get_dinode (dip_off (i_inum (inodes s2 ip))) (b_data (bufs s2 bp))) s2 in
                bindR (brelse a bp s3) (\<lambda>s4.
                let s5 = i_upd ip (\<lambda>I. I\<lparr>i_valid := 1\<rparr>) s4 in
                if i_type (inodes s5 ip) = 0 then Inl (Panic ''ilock: no type'') else Inr s5))
              else Inr s1))"

definition iunlock :: "8 word \<Rightarrow> nat option \<Rightarrow> 'a fs_state_scheme \<Rightarrow> 'a fs_state_scheme res" where
  "iunlock a p s =
     (case p of
        None \<Rightarrow> Inl (Panic ''iunlock'')
      | Some ip \<Rightarrow>
          bindR (holdingsleep a (L_inode ip) s) (\<lambda>(h, s1).
            if \<not> h \<or> sint (i_ref (inodes s1 ip)) < 1 then Inl (Panic ''iunlock'')
            else releasesleep a (L_inode ip) s1))"

subsection \<open>Inode content\<close>

definition bmap :: "8 word \<Rightarrow> nat \<Rightarrow> cuint \<Rightarrow> 'a fs_state_scheme \<Rightarrow> (cuint \<times> 'a fs_state_scheme) res" where
  "bmap a ip bn s =
     (if unat bn < NDIRECT then
        let addr = i_addrs (inodes s ip) ! unat bn in
        if addr \<noteq> 0 then Inr (addr, s)
        else bindR (balloc a (i_dev (inodes s ip)) s) (\<lambda>(addr, s1).
          Inr (addr, i_upd ip (\<lambda>I. I\<lparr>i_addrs := (i_addrs I)[unat bn := addr]\<rparr>) s1))
      else
        let n = bn - of_nat NDIRECT in
        if unat n < NINDIRECT then
          bindR (let addr = i_addrs (inodes s ip) ! NDIRECT in
                 if addr \<noteq> 0 then Inr (addr, s)
                 else bindR (balloc a (i_dev (inodes s ip)) s) (\<lambda>(addr, s1).
                   Inr (addr, i_upd ip (\<lambda>I. I\<lparr>i_addrs := (i_addrs I)[NDIRECT := addr]\<rparr>) s1))) (\<lambda>(ind, s2).
          bindR (bread a (i_dev (inodes s2 ip)) ind s2) (\<lambda>(bp, s3).
            let addr = get32 (4 * unat n) (b_data (bufs s3 bp)) in
            bindR (if addr \<noteq> 0 then Inr (addr, s3)
                   else bindR (balloc a (i_dev (inodes s3 ip)) s3) (\<lambda>(addr, s4).
                     bindR (log_write a bp (set_data bp (put32 (4 * unat n) addr) s4)) (\<lambda>s5. Inr (addr, s5)))) (\<lambda>(addr, s6).
            bindR (brelse a bp s6) (\<lambda>s7. Inr (addr, s7)))))
        else Inl (Panic ''bmap: out of range''))"

definition itrunc :: "8 word \<Rightarrow> nat \<Rightarrow> 'a fs_state_scheme \<Rightarrow> 'a fs_state_scheme res" where
  "itrunc a ip s =
     bindR (foldR (\<lambda>i s.
         if i_addrs (inodes s ip) ! i \<noteq> 0 then
           bindR (bfree a (i_dev (inodes s ip)) (i_addrs (inodes s ip) ! i) s) (\<lambda>s'.
           Inr (i_upd ip (\<lambda>I. I\<lparr>i_addrs := (i_addrs I)[i := 0]\<rparr>) s'))
         else Inr s) [0..<NDIRECT] s) (\<lambda>s1.
     bindR (if i_addrs (inodes s1 ip) ! NDIRECT \<noteq> 0 then
              bindR (bread a (i_dev (inodes s1 ip)) (i_addrs (inodes s1 ip) ! NDIRECT) s1) (\<lambda>(bp, s2).
              bindR (foldR (\<lambda>j s.
                  let addr = get32 (4 * j) (b_data (bufs s bp)) in
                  if addr \<noteq> 0 then bfree a (i_dev (inodes s ip)) addr s else Inr s) [0..<NINDIRECT] s2) (\<lambda>s3.
              bindR (brelse a bp s3) (\<lambda>s4.
              bindR (bfree a (i_dev (inodes s4 ip)) (i_addrs (inodes s4 ip) ! NDIRECT) s4) (\<lambda>s5.
              Inr (i_upd ip (\<lambda>I. I\<lparr>i_addrs := (i_addrs I)[NDIRECT := 0]\<rparr>) s5)))))
            else Inr s1) (\<lambda>s6.
     iupdate a ip (i_upd ip (\<lambda>I. I\<lparr>i_size := 0\<rparr>) s6)))"

definition iput :: "8 word \<Rightarrow> nat \<Rightarrow> 'a fs_state_scheme \<Rightarrow> 'a fs_state_scheme res" where
  "iput a ip s =
     bindR (acquiresleep a (L_inode ip) s) (\<lambda>s1.
     bindR (if i_valid (inodes s1 ip) \<noteq> 0 \<and> i_nlink (inodes s1 ip) = 0 then
              bindR (acquire a L_icache s1) (\<lambda>s2.
              let r = i_ref (inodes s2 ip) in
              bindR (release a L_icache s2) (\<lambda>s3.
                if r = 1 then
                  bindR (itrunc a ip s3) (\<lambda>s4.
                  bindR (iupdate a ip (i_upd ip (\<lambda>I. I\<lparr>i_type := 0\<rparr>) s4)) (\<lambda>s5.
                  Inr (i_upd ip (\<lambda>I. I\<lparr>i_valid := 0\<rparr>) s5)))
                else Inr s3))
            else Inr s1) (\<lambda>s6.
     bindR (releasesleep a (L_inode ip) s6) (\<lambda>s7.
     bindR (acquire a L_icache s7) (\<lambda>s8.
     release a L_icache (i_upd ip (\<lambda>I. I\<lparr>i_ref := i_ref I - 1\<rparr>) s8)))))"

definition iunlockput :: "8 word \<Rightarrow> nat \<Rightarrow> 'a fs_state_scheme \<Rightarrow> 'a fs_state_scheme res" where
  "iunlockput a ip s = bindR (iunlock a (Some ip) s) (iput a ip)"

text \<open>\<^verbatim>\<open>struct stat\<close>: type at 0, dev at 4, ino at 8, nlink at 12, size at 16; 20 bytes.\<close>

record stat =
  st_type :: "16 word"
  st_dev :: cint
  st_ino :: cuint
  st_nlink :: "16 word"
  st_size :: cuint

definition stati :: "inode \<Rightarrow> stat" where
  "stati I = \<lparr>st_type = i_type I, st_dev = i_dev I, st_ino = i_inum I, st_nlink = i_nlink I, st_size = i_size I\<rparr>"

end
