(* ===== verification/Digits.thy ===== *)
theory Digits
  imports Prelude
begin

section \<open>Numbers as digits\<close>

text \<open>
  The loop that both \<^verbatim>\<open>printint\<close> functions, of the kernel's console.c and of the user
  library's printf.c, use to turn a number into characters, and what its result is worth.
\<close>

subsection \<open>Definitions\<close>

text \<open>
  The \<^verbatim>\<open>do buf[i++] = digits[x % base]; while((x /= base) != 0)\<close> loop, least significant digit
  first, for a table of digits.  The bases used are 10 and 16.
\<close>

function rev_digits :: "cchar list \<Rightarrow> nat \<Rightarrow> nat \<Rightarrow> cchar list" where
  "rev_digits ds base x =
     ds ! (x mod base) # (if x div base = 0 \<or> base \<le> 1 then [] else rev_digits ds base (x div base))"
  by pat_completeness auto
termination
proof (relation "measure (snd \<circ> snd)", goal_cases)
  case (2 ds base x)
  then have "x \<noteq> 0" by (intro notI) simp
  with 2 show ?case by (simp add: div_less_dividend)
qed simp

declare rev_digits.simps [simp del]

text \<open>The value of a row of digits in a base, as Horner's rule reads it.\<close>

definition digits_value :: "(cchar \<Rightarrow> nat) \<Rightarrow> nat \<Rightarrow> cchar list \<Rightarrow> nat" where
  "digits_value val base cs = foldl (\<lambda>n c. n * base + val c) 0 cs"

subsection \<open>Laws\<close>

lemma digits_value_Nil [simp]: "digits_value val base [] = 0"
  by (simp add: digits_value_def)

lemma digits_value_snoc [simp]: "digits_value val base (cs @ [c]) = digits_value val base cs * base + val c"
  by (simp add: digits_value_def)

lemma rev_digits_value:
  assumes "2 \<le> base" and "\<And>i. i < base \<Longrightarrow> val (ds ! i) = i"
  shows "digits_value val base (rev (rev_digits ds base x)) = x"
  using assms
proof (induction ds base x rule: rev_digits.induct)
  case (1 ds base x)
  show ?case using 1 by (subst rev_digits.simps) (auto simp: div_eq_0_iff)
qed

lemma rev_digits_length:
  assumes "2 \<le> base" and "x < base ^ Suc k"
  shows "length (rev_digits ds base x) \<le> Suc k"
  using assms(2)
proof (induction k arbitrary: x)
  case 0
  then show ?case by (subst rev_digits.simps) simp
next
  case (Suc k)
  then have "x div base < base ^ Suc k" using assms(1) by (simp add: less_mult_imp_div_less mult.commute)
  from Suc.IH[OF this] show ?case by (subst rev_digits.simps) simp
qed

lemma rev_digits_set:
  assumes "0 < base" and "base \<le> length ds"
  shows "set (rev_digits ds base x) \<subseteq> set ds"
  using assms
proof (induction ds base x rule: rev_digits.induct)
  case (1 ds base x)
  have "ds ! (x mod base) \<in> set ds" using 1(2,3) by (intro nth_mem) (meson mod_less_divisor order_less_le_trans)
  then show ?case using 1 by (subst rev_digits.simps) auto
qed

lemma rev_digits_nonempty [simp]: "rev_digits ds base x \<noteq> []"
  by (subst rev_digits.simps) simp

end
