(* ===== verification/Console.thy ===== *)
theory Console
  imports Inode Digits
begin

section \<open>Console output, line input (console.c, uart.c)\<close>

text \<open>
  Output goes to the serial port and to the text screen, whose memory and cursor register are
  in the state.  Input characters are edited in a ring of \<open>INPUT_BUF\<close> bytes with three
  counters that only ever grow (modulo the word size): \<^verbatim>\<open>r\<close>, the next byte to read,
  \<^verbatim>\<open>w\<close>, the end of the finished lines, and \<^verbatim>\<open>e\<close>, the end of the line being edited.
  The delay loop of \<^verbatim>\<open>uartputc\<close>, the set-up of the serial port and the call of
  \<^verbatim>\<open>procdump\<close> that a control-P asks for are not modelled.
\<close>

subsection \<open>State\<close>

definition INPUT_BUF :: nat where
  "INPUT_BUF = 128"

definition BACKSPACE :: cint where
  "BACKSPACE = 0x100"

definition CONSOLE :: nat where
  "CONSOLE = 1"

text \<open>The functions \<^verbatim>\<open>devsw[]\<close> can point to.\<close>

datatype devfn = Consoleread | Consolewrite

record devsw =
  dv_read :: "devfn option"
  dv_write :: "devfn option"

record cga =
  crt :: "nat \<Rightarrow> 16 word"
  cursor :: "16 word"

record inputbuf =
  in_buf :: "cchar list"
  in_r :: cuint
  in_w :: cuint
  in_e :: cuint

record cons_state = fs_state +
  cons_locking :: cint
  panicked :: cint
  uart :: cint
  serial_out :: "cchar list"
  screen :: cga
  input :: inputbuf
  devtab :: "nat \<Rightarrow> devsw"

subsection \<open>Output\<close>

definition uartputc :: "cint \<Rightarrow> 'a cons_state_scheme \<Rightarrow> 'a cons_state_scheme" where
  "uartputc c s = (if uart s = 0 then s else s\<lparr>serial_out := serial_out s @ [ucast c]\<rparr>)"

text \<open>The cell \<^verbatim>\<open>crt[pos]\<close>: the screen memory has 25 rows of 80 cells and one more is written when full.\<close>

definition cga_store :: "nat \<Rightarrow> 16 word \<Rightarrow> cga \<Rightarrow> cga" where
  "cga_store i w g = g\<lparr>crt := (crt g)(i := w)\<rparr>"

definition cga_scroll :: "nat \<Rightarrow> cga \<Rightarrow> cga" where
  "cga_scroll pos g =
     (let moved = (\<lambda>i. if i < 23 * 80 then crt g (i + 80) else crt g i) in
      g\<lparr>crt := (\<lambda>i. if pos \<le> i \<and> i < 24 * 80 then 0 else moved i)\<rparr>)"

definition cgaputc :: "cint \<Rightarrow> cga \<Rightarrow> cga res" where
  "cgaputc c g =
     (let pos0 = unat (cursor g);
          (pos1, g1) =
            (if c = 10 then (pos0 + (80 - pos0 mod 80), g)
             else if c = BACKSPACE then (if 0 < pos0 then pos0 - 1 else pos0, g)
             else (pos0 + 1, cga_store pos0 (ucast (c AND 0xFF) OR 0x0700) g))
      in if 25 * 80 < pos1 then Inl (Panic ''pos under/overflow'')
         else
           let (pos2, g2) = (if 24 \<le> pos1 div 80 then (pos1 - 80, cga_scroll (pos1 - 80) g1) else (pos1, g1))
           in Inr (cga_store pos2 0x0720 (g2\<lparr>cursor := of_nat pos2\<rparr>)))"

definition consputc :: "cint \<Rightarrow> 'a cons_state_scheme \<Rightarrow> 'a cons_state_scheme res" where
  "consputc c s =
     (if panicked s \<noteq> 0 then Inl Diverges
      else
        let s1 = (if c = BACKSPACE then uartputc 8 (uartputc 32 (uartputc 8 s)) else uartputc c s) in
        bindR (cgaputc c (screen s1)) (\<lambda>g. Inr (s1\<lparr>screen := g\<rparr>)))"

definition digits :: "cchar list" where
  "digits = [48, 49, 50, 51, 52, 53, 54, 55, 56, 57, 97, 98, 99, 100, 101, 102]"

definition printint_chars :: "cint \<Rightarrow> nat \<Rightarrow> bool \<Rightarrow> cchar list" where
  "printint_chars xx base sign =
     (let neg = sign \<and> sint xx < 0;
          x = (if neg then - xx else xx)
      in rev (rev_digits digits base (unat x) @ (if neg then [45] else [])))"

definition printint :: "cint \<Rightarrow> nat \<Rightarrow> bool \<Rightarrow> 'a cons_state_scheme \<Rightarrow> 'a cons_state_scheme res" where
  "printint xx base sign s = foldR (\<lambda>c. consputc (ucast c)) (printint_chars xx base sign) s"

text \<open>A NUL-terminated string in kernel memory; \<^const>\<open>None\<close> if there is no NUL.\<close>

partial_function (option) str_from :: "memory \<Rightarrow> cuint \<Rightarrow> cchar list option" where
  "str_from m p = (if m p = 0 then Some [] else Option.bind (str_from m (p + 1)) (\<lambda>cs. Some (m p # cs)))"

text \<open>
  The loop of \<^verbatim>\<open>cprintf\<close> over the bytes of the format, with the words of the argument list
  still to be used; an argument that was not passed is \<open>Undefined\<close>.
\<close>

fun cprintf_loop :: "cchar list \<Rightarrow> cuint list \<Rightarrow> 'a cons_state_scheme \<Rightarrow> 'a cons_state_scheme res" where
  "cprintf_loop [] argp s = Inr s"
| "cprintf_loop (c # cs) argp s =
     (if c \<noteq> 37 then bindR (consputc (ucast c) s) (cprintf_loop cs argp)
      else (case cs of
              [] \<Rightarrow> Inr s
            | d # ds \<Rightarrow>
                if d = 100 \<or> d = 120 \<or> d = 112 then
                  (case argp of
                     [] \<Rightarrow> Inl (Undefined ''cprintf argument'')
                   | x # xs \<Rightarrow> bindR (printint x (if d = 100 then 10 else 16) (d = 100) s) (cprintf_loop ds xs))
                else if d = 115 then
                  (case argp of
                     [] \<Rightarrow> Inl (Undefined ''cprintf argument'')
                   | x # xs \<Rightarrow>
                       bindR (case (if x = 0 then Some [40, 110, 117, 108, 108, 41] else str_from (mem s) x) of
                                None \<Rightarrow> Inl (Undefined ''cprintf string'')
                              | Some str \<Rightarrow> foldR (\<lambda>c. consputc (ucast c)) str s) (cprintf_loop ds xs))
                else if d = 37 then bindR (consputc 37 s) (cprintf_loop ds argp)
                else bindR (consputc 37 s) (\<lambda>s1. bindR (consputc (ucast d) s1) (cprintf_loop ds argp))))"

definition cprintf :: "8 word \<Rightarrow> cchar list \<Rightarrow> cuint list \<Rightarrow> 'a cons_state_scheme \<Rightarrow> 'a cons_state_scheme res" where
  "cprintf a fmt args s =
     (let locking = cons_locking s in
      bindR (if locking \<noteq> 0 then acquire a L_cons s else Inr s) (\<lambda>s1.
      bindR (cprintf_loop fmt args s1) (\<lambda>s2.
      if locking \<noteq> 0 then release a L_cons s2 else Inr s2)))"

subsection \<open>Input\<close>

definition upd_in :: "(inputbuf \<Rightarrow> inputbuf) \<Rightarrow> 'a cons_state_scheme \<Rightarrow> 'a cons_state_scheme" where
  "upd_in f s = s\<lparr>input := f (input s)\<rparr>"

definition in_at :: "inputbuf \<Rightarrow> cuint \<Rightarrow> cchar" where
  "in_at b i = in_buf b ! (unat i mod INPUT_BUF)"

text \<open>The loop of control-U; \<^verbatim>\<open>e\<close> comes down to \<^verbatim>\<open>w\<close> in at most \<open>e - w\<close> turns.\<close>

fun kill_line :: "nat \<Rightarrow> 'a cons_state_scheme \<Rightarrow> 'a cons_state_scheme res" where
  "kill_line k s =
     (if in_e (input s) \<noteq> in_w (input s) \<and> in_at (input s) (in_e (input s) - 1) \<noteq> 10 then
        (case k of
           0 \<Rightarrow> Inl Diverges
         | Suc k' \<Rightarrow> bindR (consputc BACKSPACE (upd_in (\<lambda>b. b\<lparr>in_e := in_e b - 1\<rparr>) s)) (kill_line k'))
      else Inr s)"

declare kill_line.simps [simp del]

definition console_store :: "8 word \<Rightarrow> cint \<Rightarrow> 'a cons_state_scheme \<Rightarrow> 'a cons_state_scheme res" where
  "console_store a c0 s =
     (if c0 \<noteq> 0 \<and> in_e (input s) - in_r (input s) < of_nat INPUT_BUF then
        let c = (if c0 = 13 then 10 else c0);
            s1 = upd_in (\<lambda>b. b\<lparr>in_buf := (in_buf b)[unat (in_e b) mod INPUT_BUF := ucast c], in_e := in_e b + 1\<rparr>) s
        in bindR (consputc c s1) (\<lambda>s2.
           if c = 10 \<or> c = 4 \<or> in_e (input s2) = in_r (input s2) + of_nat INPUT_BUF
           then wakeup a Ch_input (upd_in (\<lambda>b. b\<lparr>in_w := in_e b\<rparr>) s2)
           else Inr s2)
      else Inr s)"

definition console_char :: "8 word \<Rightarrow> cint \<Rightarrow> bool \<times> 'a cons_state_scheme \<Rightarrow> (bool \<times> 'a cons_state_scheme) res" where
  "console_char a c ds =
     (case ds of (dump, s) \<Rightarrow>
        if c = 0x10 then Inr (True, s)
        else bindR
          (if c = 0x15 then kill_line (unat (in_e (input s) - in_w (input s))) s
           else if c = 8 \<or> c = 0x7F then
             (if in_e (input s) \<noteq> in_w (input s)
              then consputc BACKSPACE (upd_in (\<lambda>b. b\<lparr>in_e := in_e b - 1\<rparr>) s) else Inr s)
           else console_store a c s) (\<lambda>s'. Inr (dump, s')))"

text \<open>
  \<^verbatim>\<open>consoleintr(getc)\<close>: the characters \<^verbatim>\<open>getc\<close> returns before its first negative result
  are an argument.  The result says whether a process listing was asked for.
\<close>

definition consoleintr :: "8 word \<Rightarrow> cint list \<Rightarrow> 'a cons_state_scheme \<Rightarrow> (bool \<times> 'a cons_state_scheme) res" where
  "consoleintr a cs s =
     bindR (acquire a L_cons s) (\<lambda>s1.
     bindR (foldR (console_char a) cs (False, s1)) (\<lambda>(dump, s2).
     bindR (release a L_cons s2) (\<lambda>s3. Inr (dump, s3))))"

text \<open>
  The loop of \<^verbatim>\<open>consoleread\<close> over the bytes still wanted.  It ends with all it wanted, at a
  newline or at control-D, or it finds the process killed or has to sleep.
\<close>

datatype wait_end = Finished | Waits | Killed

fun consoleread_loop ::
  "8 word \<Rightarrow> nat \<Rightarrow> nat \<Rightarrow> 'a cons_state_scheme \<Rightarrow> (wait_end \<times> cchar list \<times> nat \<times> 'a cons_state_scheme) res" where
  "consoleread_loop a target 0 s = Inr (Finished, [], 0, s)"
| "consoleread_loop a target (Suc n) s =
     (if in_r (input s) = in_w (input s) then
        bindR (curproc a s) (\<lambda>(p, s1).
          Inr (if p_killed (proc_at s1 p) \<noteq> 0 then Killed else Waits, [], Suc n, s1))
      else
        let c = in_at (input s) (in_r (input s));
            s1 = upd_in (\<lambda>b. b\<lparr>in_r := in_r b + 1\<rparr>) s
        in if c = 4 then
             Inr (Finished, [], Suc n, if Suc n < target then upd_in (\<lambda>b. b\<lparr>in_r := in_r b - 1\<rparr>) s1 else s1)
           else if c = 10 then Inr (Finished, [c], n, s1)
           else bindR (consoleread_loop a target n s1) (\<lambda>(w, cs, k, s2). Inr (w, c # cs, k, s2)))"

text \<open>
  The result is the return value and the bytes stored at \<^verbatim>\<open>dst\<close>.  A read that has to sleep is
  \<open>Blocks\<close>.
\<close>

definition consoleread ::
  "8 word \<Rightarrow> nat \<Rightarrow> cint \<Rightarrow> 'a cons_state_scheme \<Rightarrow> (cint \<times> cchar list \<times> 'a cons_state_scheme) res" where
  "consoleread a ip n s =
     bindR (iunlock a (Some ip) s) (\<lambda>s1.
     bindR (acquire a L_cons s1) (\<lambda>s2.
     bindR (consoleread_loop a (unat n) (nat (sint n)) s2) (\<lambda>(w, cs, k, s3).
       case w of
         Waits \<Rightarrow> Inl Blocks
       | Killed \<Rightarrow> bindR (release a L_cons s3) (\<lambda>s4. bindR (ilock a (Some ip) s4) (\<lambda>s5. Inr (-1, cs, s5)))
       | Finished \<Rightarrow> bindR (release a L_cons s3) (\<lambda>s4. bindR (ilock a (Some ip) s4) (\<lambda>s5.
           Inr (if 0 \<le> sint n then n - of_nat k else 0, cs, s5))))))"

definition consolewrite ::
  "8 word \<Rightarrow> nat \<Rightarrow> cchar list \<Rightarrow> cint \<Rightarrow> 'a cons_state_scheme \<Rightarrow> (cint \<times> 'a cons_state_scheme) res" where
  "consolewrite a ip src n s =
     bindR (iunlock a (Some ip) s) (\<lambda>s1.
     bindR (acquire a L_cons s1) (\<lambda>s2.
     bindR (foldR (\<lambda>c. consputc (ucast c)) (take (nat (sint n)) src) s2) (\<lambda>s3.
     bindR (release a L_cons s3) (\<lambda>s4.
     bindR (ilock a (Some ip) s4) (\<lambda>s5. Inr (n, s5))))))"

definition consoleinit :: "'a cons_state_scheme \<Rightarrow> 'a cons_state_scheme" where
  "consoleinit s =
     (let s1 = initlock L_cons ''console'' s in
      s1\<lparr>devtab := (devtab s1)(CONSOLE := (devtab s1 CONSOLE)\<lparr>dv_write := Some Consolewrite, dv_read := Some Consoleread\<rparr>),
         cons_locking := 1\<rparr>)"

end
