(* ===== verification/Fs.thy ===== *)
theory Fs
  imports Console
begin

section \<open>File content, directories and paths (fs.c, second half)\<close>

text \<open>
  Reading returns the bytes that the source stores at \<^verbatim>\<open>dst\<close>; writing takes the bytes at
  \<^verbatim>\<open>src\<close>.  A directory is a file of 16-byte entries: a 16-bit inode number, 0 for a free
  entry, and a name of up to \<open>DIRSIZ\<close> bytes.  The only device driver is the console.
\<close>

definition T_DIR :: "16 word" where
  "T_DIR = 1"

definition T_FILE :: "16 word" where
  "T_FILE = 2"

definition T_DEV :: "16 word" where
  "T_DEV = 3"

definition NDEV :: nat where
  "NDEV = 10"

definition DIRSIZ :: nat where
  "DIRSIZ = 14"

definition ROOTDEV :: cuint where
  "ROOTDEV = 1"

definition ROOTINO :: cuint where
  "ROOTINO = 1"

definition DIRENT :: nat where
  "DIRENT = 16"

subsection \<open>Reading and writing\<close>

definition chunk :: "nat \<Rightarrow> cuint \<Rightarrow> nat" where
  "chunk left off = min left (BSIZE - unat off mod BSIZE)"

lemma chunk_pos: "0 < left \<Longrightarrow> 0 < chunk left off"
  by (simp add: chunk_def BSIZE_def)

function readi_loop ::
  "8 word \<Rightarrow> nat \<Rightarrow> cuint \<Rightarrow> nat \<Rightarrow> 'a fs_state_scheme \<Rightarrow> (cchar list \<times> 'a fs_state_scheme) res" where
  "readi_loop a ip off left s =
     (if left = 0 then Inr ([], s)
      else
        bindR (bmap a ip (off div of_nat BSIZE) s) (\<lambda>(bno, s1).
        bindR (bread a (i_dev (inodes s1 ip)) bno s1) (\<lambda>(bp, s2).
        let m = chunk left off; cs = slice (unat off mod BSIZE) m (b_data (bufs s2 bp)) in
        bindR (brelse a bp s2) (\<lambda>s3.
        bindR (readi_loop a ip (off + of_nat m) (left - m) s3) (\<lambda>(ds, s4). Inr (cs @ ds, s4))))))"
  by pat_completeness auto
termination
  by (relation "measure (\<lambda>(a, ip, off, left, s). left)") (auto simp: chunk_pos)

declare readi_loop.simps [simp del]

definition dev_of :: "16 word \<Rightarrow> (devsw \<Rightarrow> devfn option) \<Rightarrow> 'a cons_state_scheme \<Rightarrow> devfn option" where
  "dev_of major f s = (if sint major < 0 \<or> int NDEV \<le> sint major then None else f (devtab s (unat major)))"

definition readi ::
  "8 word \<Rightarrow> nat \<Rightarrow> cuint \<Rightarrow> cuint \<Rightarrow> 'a cons_state_scheme \<Rightarrow> (cint \<times> cchar list \<times> 'a cons_state_scheme) res" where
  "readi a ip off n s =
     (let I = inodes s ip in
      if i_type I = T_DEV then
        (case dev_of (i_major I) dv_read s of
           Some Consoleread \<Rightarrow> consoleread a ip n s
         | _ \<Rightarrow> Inr (-1, [], s))
      else if i_size I < off \<or> off + n < off then Inr (-1, [], s)
      else
        let m = (if i_size I < off + n then i_size I - off else n) in
        bindR (readi_loop a ip off (unat m) s) (\<lambda>(cs, s1). Inr (m, cs, s1)))"

text \<open>The loop of \<^verbatim>\<open>writei\<close> returns the final offset.\<close>

function writei_loop ::
  "8 word \<Rightarrow> nat \<Rightarrow> cuint \<Rightarrow> cchar list \<Rightarrow> 'a fs_state_scheme \<Rightarrow> (cuint \<times> 'a fs_state_scheme) res" where
  "writei_loop a ip off src s =
     (if src = [] then Inr (off, s)
      else
        bindR (bmap a ip (off div of_nat BSIZE) s) (\<lambda>(bno, s1).
        bindR (bread a (i_dev (inodes s1 ip)) bno s1) (\<lambda>(bp, s2).
        let m = chunk (length src) off in
        bindR (log_write a bp (set_data bp (blit (unat off mod BSIZE) (take m src)) s2)) (\<lambda>s3.
        bindR (brelse a bp s3) (writei_loop a ip (off + of_nat m) (drop m src))))))"
  by pat_completeness auto
termination
  by (relation "measure (\<lambda>(a, ip, off, src, s). length src)") (auto simp: chunk_pos)

declare writei_loop.simps [simp del]

definition writei ::
  "8 word \<Rightarrow> nat \<Rightarrow> cchar list \<Rightarrow> cuint \<Rightarrow> cuint \<Rightarrow> 'a cons_state_scheme \<Rightarrow> (cint \<times> 'a cons_state_scheme) res" where
  "writei a ip src off n s =
     (let I = inodes s ip in
      if i_type I = T_DEV then
        (case dev_of (i_major I) dv_write s of
           Some Consolewrite \<Rightarrow> consolewrite a ip src n s
         | _ \<Rightarrow> Inr (-1, s))
      else if i_size I < off \<or> off + n < off then Inr (-1, s)
      else if of_nat (MAXFILE * BSIZE) < off + n then Inr (-1, s)
      else
        bindR (writei_loop a ip off (take (unat n) src) s) (\<lambda>(off', s1).
        bindR (if 0 < n \<and> i_size (inodes s1 ip) < off'
               then iupdate a ip (i_upd ip (\<lambda>I. I\<lparr>i_size := off'\<rparr>) s1) else Inr s1) (\<lambda>s2. Inr (n, s2))))"

subsection \<open>Directories\<close>

text \<open>\<^verbatim>\<open>strncmp\<close> and \<^verbatim>\<open>strncpy\<close> on strings held as lists, which end with an implicit NUL.\<close>

fun strncmp_str :: "nat \<Rightarrow> cchar list \<Rightarrow> cchar list \<Rightarrow> int" where
  "strncmp_str 0 p q = 0"
| "strncmp_str (Suc n) p q =
     (if cstr_at p 0 \<noteq> 0 \<and> cstr_at p 0 = cstr_at q 0 then strncmp_str n (tl p) (tl q)
      else uint (cstr_at p 0) - uint (cstr_at q 0))"

definition strncpy_str :: "nat \<Rightarrow> cchar list \<Rightarrow> cchar list" where
  "strncpy_str n p = (let q = takeWhile (\<lambda>c. c \<noteq> 0) (take n p) in q @ replicate (n - length q) 0)"

definition namecmp :: "cchar list \<Rightarrow> cchar list \<Rightarrow> int" where
  "namecmp p q = strncmp_str DIRSIZ p q"

definition de_inum :: "cchar list \<Rightarrow> 16 word" where
  "de_inum de = get16 0 de"

definition de_name :: "cchar list \<Rightarrow> cchar list" where
  "de_name de = slice 2 DIRSIZ de"

text \<open>The offsets \<^verbatim>\<open>0, sizeof(de), ...\<close> below the size of the directory.\<close>

definition de_offsets :: "nat \<Rightarrow> cuint \<Rightarrow> nat list" where
  "de_offsets from dsize = map (\<lambda>k. DIRENT * k) [from..<(unat dsize + DIRENT - 1) div DIRENT]"

fun dirlookup_loop ::
  "8 word \<Rightarrow> nat \<Rightarrow> cchar list \<Rightarrow> nat list \<Rightarrow> 'a cons_state_scheme \<Rightarrow> ((nat \<times> cuint) option \<times> 'a cons_state_scheme) res" where
  "dirlookup_loop a dp name [] s = Inr (None, s)"
| "dirlookup_loop a dp name (off # offs) s =
     bindR (readi a dp (of_nat off) (of_nat DIRENT) s) (\<lambda>(r, de, s1).
       if r \<noteq> of_nat DIRENT then Inl (Panic ''dirlookup read'')
       else if de_inum de = 0 then dirlookup_loop a dp name offs s1
       else if namecmp name (de_name de) = 0 then
         bindR (iget a (i_dev (inodes s1 dp)) (ucast (de_inum de)) s1) (\<lambda>(ip, s2). Inr (Some (ip, of_nat off), s2))
       else dirlookup_loop a dp name offs s1)"

text \<open>The result has the offset that is stored in \<^verbatim>\<open>*poff\<close> when \<^verbatim>\<open>poff\<close> is not null.\<close>

definition dirlookup ::
  "8 word \<Rightarrow> nat \<Rightarrow> cchar list \<Rightarrow> 'a cons_state_scheme \<Rightarrow> ((nat \<times> cuint) option \<times> 'a cons_state_scheme) res" where
  "dirlookup a dp name s =
     (if i_type (inodes s dp) \<noteq> T_DIR then Inl (Panic ''dirlookup not DIR'')
      else dirlookup_loop a dp name (de_offsets 0 (i_size (inodes s dp))) s)"

text \<open>The search for an empty entry; the offset after the last one if there is none.\<close>

fun dirlink_loop ::
  "8 word \<Rightarrow> nat \<Rightarrow> nat list \<Rightarrow> nat \<Rightarrow> 'a cons_state_scheme \<Rightarrow> (nat \<times> 'a cons_state_scheme) res" where
  "dirlink_loop a dp [] after s = Inr (after, s)"
| "dirlink_loop a dp (off # offs) after s =
     bindR (readi a dp (of_nat off) (of_nat DIRENT) s) (\<lambda>(r, de, s1).
       if r \<noteq> of_nat DIRENT then Inl (Panic ''dirlink read'')
       else if de_inum de = 0 then Inr (off, s1)
       else dirlink_loop a dp offs after s1)"

definition dirent_bytes :: "cchar list \<Rightarrow> cuint \<Rightarrow> cchar list" where
  "dirent_bytes name inum = bytes16 (ucast inum) @ strncpy_str DIRSIZ name"

definition dirlink ::
  "8 word \<Rightarrow> nat \<Rightarrow> cchar list \<Rightarrow> cuint \<Rightarrow> 'a cons_state_scheme \<Rightarrow> (cint \<times> 'a cons_state_scheme) res" where
  "dirlink a dp name inum s =
     bindR (dirlookup a dp name s) (\<lambda>(r, s1).
       case r of
         Some (ip, off) \<Rightarrow> bindR (iput a ip s1) (\<lambda>s2. Inr (-1, s2))
       | None \<Rightarrow>
           let dsize = i_size (inodes s1 dp) in
           bindR (dirlink_loop a dp (de_offsets 0 dsize) (DIRENT * ((unat dsize + DIRENT - 1) div DIRENT)) s1) (\<lambda>(off, s2).
           bindR (writei a dp (dirent_bytes name inum) (of_nat off) (of_nat DIRENT) s2) (\<lambda>(r, s3).
             if r \<noteq> of_nat DIRENT then Inl (Panic ''dirlink'') else Inr (0, s3))))"

subsection \<open>Paths\<close>

text \<open>\<^verbatim>\<open>skipelem(path, name)\<close>: the name it stores and the path it returns, or null.\<close>

definition skipelem :: "cchar list \<Rightarrow> (cchar list \<times> cchar list) option" where
  "skipelem path =
     (let p = dropWhile (\<lambda>c. c = 47) path in
      if p = [] then None
      else
        let s = takeWhile (\<lambda>c. c \<noteq> 47) p;
            name = (if DIRSIZ \<le> length s then take DIRSIZ s else s)
        in Some (name, dropWhile (\<lambda>c. c = 47) (drop (length s) p)))"

lemma skipelem_shorter:
  assumes "skipelem path = Some (name, rest)"
  shows "length rest < length path"
proof -
  let ?p = "dropWhile (\<lambda>c. c = 47) path"
  have p: "?p \<noteq> []" and r: "rest = dropWhile (\<lambda>c. c = 47) (drop (length (takeWhile (\<lambda>c. c \<noteq> 47) ?p)) ?p)"
    using assms by (auto simp: skipelem_def Let_def split: if_splits)
  have "hd ?p \<noteq> 47" using p hd_dropWhile by blast
  then have "takeWhile (\<lambda>c. c \<noteq> 47) ?p \<noteq> []" using p by (cases ?p) auto
  then have "length (drop (length (takeWhile (\<lambda>c. c \<noteq> 47) ?p)) ?p) < length ?p" using p by simp
  moreover have "length rest \<le> length (drop (length (takeWhile (\<lambda>c. c \<noteq> 47) ?p)) ?p)"
    unfolding r by (rule length_dropWhile_le)
  moreover have "length ?p \<le> length path" by (rule length_dropWhile_le)
  ultimately show ?thesis by linarith
qed

text \<open>The loop of \<^verbatim>\<open>namex\<close>; the result is the inode or null and the last name stored.\<close>

function namex_loop ::
  "8 word \<Rightarrow> nat \<Rightarrow> cchar list \<Rightarrow> bool \<Rightarrow> cchar list \<Rightarrow> 'a cons_state_scheme \<Rightarrow>
   (nat option \<times> cchar list \<times> 'a cons_state_scheme) res" where
  "namex_loop a ip path parent name0 s =
     (case skipelem path of
        None \<Rightarrow>
          if parent then bindR (iput a ip s) (\<lambda>s1. Inr (None, name0, s1)) else Inr (Some ip, name0, s)
      | Some (name, rest) \<Rightarrow>
          bindR (ilock a (Some ip) s) (\<lambda>s1.
            if i_type (inodes s1 ip) \<noteq> T_DIR then
              bindR (iunlockput a ip s1) (\<lambda>s2. Inr (None, name, s2))
            else if parent \<and> rest = [] then
              bindR (iunlock a (Some ip) s1) (\<lambda>s2. Inr (Some ip, name, s2))
            else
              bindR (dirlookup a ip name s1) (\<lambda>(r, s2).
                case r of
                  None \<Rightarrow> bindR (iunlockput a ip s2) (\<lambda>s3. Inr (None, name, s3))
                | Some (nxt, off) \<Rightarrow> bindR (iunlockput a ip s2) (namex_loop a nxt rest parent name))))"
  by pat_completeness auto
termination
  by (relation "measure (\<lambda>(a, ip, path, parent, name, s). length path)") (auto dest: skipelem_shorter)

declare namex_loop.simps [simp del]

definition namex ::
  "8 word \<Rightarrow> cchar list \<Rightarrow> bool \<Rightarrow> 'a cons_state_scheme \<Rightarrow> (nat option \<times> cchar list \<times> 'a cons_state_scheme) res" where
  "namex a path parent s =
     bindR (if cstr_at path 0 = 47 then iget a ROOTDEV ROOTINO s
            else bindR (curproc a s) (\<lambda>(p, s1). bindR (deref ''cwd'' (p_cwd (proc_at s1 p))) (\<lambda>d. idup a d s1)))
       (\<lambda>(ip, s2). namex_loop a ip path parent [] s2)"

definition namei :: "8 word \<Rightarrow> cchar list \<Rightarrow> 'a cons_state_scheme \<Rightarrow> (nat option \<times> 'a cons_state_scheme) res" where
  "namei a path s = bindR (namex a path False s) (\<lambda>(r, name, s1). Inr (r, s1))"

definition nameiparent ::
  "8 word \<Rightarrow> cchar list \<Rightarrow> 'a cons_state_scheme \<Rightarrow> (nat option \<times> cchar list \<times> 'a cons_state_scheme) res" where
  "nameiparent a path s = namex a path True s"

end
