(* ===== verification/Pipe.thy ===== *)
theory Pipe
  imports Fs
begin

section \<open>Pipes (pipe.c)\<close>

text \<open>
  A pipe is a ring of \<open>PIPESIZE\<close> bytes with two counters that only grow, modulo the word
  size.  The pipe structure sits in a page of its own and is named by that page's address;
  its fields are kept in a record, not in the bytes of the page.  A loop that has to sleep
  stops with \<open>Waits\<close>; when the process runs again it goes on with the same loop.
\<close>

subsection \<open>State and operations\<close>

definition PIPESIZE :: nat where
  "PIPESIZE = 512"

record pipe =
  pi_data :: "cchar list"
  pi_nread :: cuint
  pi_nwrite :: cuint
  pi_readopen :: cint
  pi_writeopen :: cint

record pipe_state = cons_state +
  pipes :: "cuint \<Rightarrow> pipe"

definition pi_upd :: "cuint \<Rightarrow> (pipe \<Rightarrow> pipe) \<Rightarrow> 'a pipe_state_scheme \<Rightarrow> 'a pipe_state_scheme" where
  "pi_upd p f s = s\<lparr>pipes := (pipes s)(p := f (pipes s p))\<rparr>"

definition pipe_full :: "pipe \<Rightarrow> bool" where
  "pipe_full P \<longleftrightarrow> pi_nwrite P = pi_nread P + of_nat PIPESIZE"

definition pipe_put :: "cchar \<Rightarrow> pipe \<Rightarrow> pipe" where
  "pipe_put c P = P\<lparr>pi_data := (pi_data P)[unat (pi_nwrite P) mod PIPESIZE := c], pi_nwrite := pi_nwrite P + 1\<rparr>"

definition pipe_get :: "pipe \<Rightarrow> cchar \<times> pipe" where
  "pipe_get P = (pi_data P ! (unat (pi_nread P) mod PIPESIZE), P\<lparr>pi_nread := pi_nread P + 1\<rparr>)"

definition pipeclose :: "8 word \<Rightarrow> cuint \<Rightarrow> bool \<Rightarrow> 'a pipe_state_scheme \<Rightarrow> 'a pipe_state_scheme res" where
  "pipeclose a p writable s =
     bindR (acquire a (L_pipe p) s) (\<lambda>s1.
     bindR (if writable then wakeup a (Ch_nread p) (pi_upd p (\<lambda>P. P\<lparr>pi_writeopen := 0\<rparr>) s1)
            else wakeup a (Ch_nwrite p) (pi_upd p (\<lambda>P. P\<lparr>pi_readopen := 0\<rparr>) s1)) (\<lambda>s2.
       if pi_readopen (pipes s2 p) = 0 \<and> pi_writeopen (pipes s2 p) = 0
       then bindR (release a (L_pipe p) s2) (kfree a p)
       else release a (L_pipe p) s2))"

text \<open>The result has the bytes that are still to be written.\<close>

fun pipewrite_loop ::
  "8 word \<Rightarrow> cuint \<Rightarrow> cchar list \<Rightarrow> 'a pipe_state_scheme \<Rightarrow> (wait_end \<times> cchar list \<times> 'a pipe_state_scheme) res" where
  "pipewrite_loop a p [] s = Inr (Finished, [], s)"
| "pipewrite_loop a p (c # cs) s =
     (if pipe_full (pipes s p) then
        bindR (if pi_readopen (pipes s p) = 0 then Inr (True, s)
               else bindR (curproc a s) (\<lambda>(q, s1). Inr (p_killed (proc_at s1 q) \<noteq> 0, s1))) (\<lambda>(stop, s2).
          if stop then Inr (Killed, c # cs, s2)
          else bindR (wakeup a (Ch_nread p) s2) (\<lambda>s3. Inr (Waits, c # cs, s3)))
      else pipewrite_loop a p cs (pi_upd p (pipe_put c) s))"

definition pipewrite ::
  "8 word \<Rightarrow> cuint \<Rightarrow> cchar list \<Rightarrow> cint \<Rightarrow> 'a pipe_state_scheme \<Rightarrow> (cint \<times> 'a pipe_state_scheme) res" where
  "pipewrite a p src n s =
     bindR (acquire a (L_pipe p) s) (\<lambda>s1.
     bindR (pipewrite_loop a p (take (nat (sint n)) src) s1) (\<lambda>(w, left, s2).
       case w of
         Waits \<Rightarrow> Inl Blocks
       | Killed \<Rightarrow> bindR (release a (L_pipe p) s2) (\<lambda>s3. Inr (-1, s3))
       | Finished \<Rightarrow>
           bindR (wakeup a (Ch_nread p) s2) (\<lambda>s3.
           bindR (release a (L_pipe p) s3) (\<lambda>s4. Inr (n, s4)))))"

fun piperead_loop :: "cuint \<Rightarrow> nat \<Rightarrow> 'a pipe_state_scheme \<Rightarrow> cchar list \<times> 'a pipe_state_scheme" where
  "piperead_loop p 0 s = ([], s)"
| "piperead_loop p (Suc n) s =
     (if pi_nread (pipes s p) = pi_nwrite (pipes s p) then ([], s)
      else
        let (c, P) = pipe_get (pipes s p); (cs, s1) = piperead_loop p n (pi_upd p (\<lambda>_. P) s)
        in (c # cs, s1))"

definition piperead ::
  "8 word \<Rightarrow> cuint \<Rightarrow> cint \<Rightarrow> 'a pipe_state_scheme \<Rightarrow> (cint \<times> cchar list \<times> 'a pipe_state_scheme) res" where
  "piperead a p n s =
     bindR (acquire a (L_pipe p) s) (\<lambda>s1.
       if pi_nread (pipes s1 p) = pi_nwrite (pipes s1 p) \<and> pi_writeopen (pipes s1 p) \<noteq> 0 then
         bindR (curproc a s1) (\<lambda>(q, s2).
           if p_killed (proc_at s2 q) \<noteq> 0 then bindR (release a (L_pipe p) s2) (\<lambda>s3. Inr (-1, [], s3))
           else Inl Blocks)
       else
         let (cs, s2) = piperead_loop p (nat (sint n)) s1 in
         bindR (wakeup a (Ch_nwrite p) s2) (\<lambda>s3.
         bindR (release a (L_pipe p) s3) (\<lambda>s4. Inr (of_nat (length cs), cs, s4))))"

end
