(* ===== verification/File.thy ===== *)
theory File
  imports Pipe
begin

section \<open>Open files (file.c, pipealloc of pipe.c)\<close>

text \<open>
  The table of open files.  A file is named by its index in \<^verbatim>\<open>ftable.file[]\<close>.  Reading
  returns the bytes stored at the caller's address; writing takes them.
\<close>

subsection \<open>State and operations\<close>

definition NFILE :: nat where
  "NFILE = 100"

datatype ftype = FD_NONE | FD_PIPE | FD_INODE

record ofile =
  f_type :: ftype
  f_ref :: cint
  f_readable :: cchar
  f_writable :: cchar
  f_pipe :: cuint
  f_ip :: "nat option"
  f_off :: cuint

record file_state = pipe_state +
  files :: "nat \<Rightarrow> ofile"

definition f_upd :: "nat \<Rightarrow> (ofile \<Rightarrow> ofile) \<Rightarrow> 'a file_state_scheme \<Rightarrow> 'a file_state_scheme" where
  "f_upd f g s = s\<lparr>files := (files s)(f := g (files s f))\<rparr>"

definition fileinit :: "'a file_state_scheme \<Rightarrow> 'a file_state_scheme" where
  "fileinit s = initlock L_ftable ''ftable'' s"

definition filealloc :: "8 word \<Rightarrow> 'a file_state_scheme \<Rightarrow> (nat option \<times> 'a file_state_scheme) res" where
  "filealloc a s =
     bindR (acquire a L_ftable s) (\<lambda>s1.
       case List.find (\<lambda>f. f_ref (files s1 f) = 0) [0..<NFILE] of
         Some f \<Rightarrow> bindR (release a L_ftable (f_upd f (\<lambda>F. F\<lparr>f_ref := 1\<rparr>) s1)) (\<lambda>s2. Inr (Some f, s2))
       | None \<Rightarrow> bindR (release a L_ftable s1) (\<lambda>s2. Inr (None, s2)))"

definition filedup :: "8 word \<Rightarrow> nat \<Rightarrow> 'a file_state_scheme \<Rightarrow> (nat \<times> 'a file_state_scheme) res" where
  "filedup a f s =
     bindR (acquire a L_ftable s) (\<lambda>s1.
       if sint (f_ref (files s1 f)) < 1 then Inl (Panic ''filedup'')
       else bindR (release a L_ftable (f_upd f (\<lambda>F. F\<lparr>f_ref := f_ref F + 1\<rparr>) s1)) (\<lambda>s2. Inr (f, s2)))"

definition fileclose :: "8 word \<Rightarrow> nat \<Rightarrow> 'a file_state_scheme \<Rightarrow> 'a file_state_scheme res" where
  "fileclose a f s =
     bindR (acquire a L_ftable s) (\<lambda>s1.
       if sint (f_ref (files s1 f)) < 1 then Inl (Panic ''fileclose'')
       else
         let s2 = f_upd f (\<lambda>F. F\<lparr>f_ref := f_ref F - 1\<rparr>) s1 in
         if 0 < sint (f_ref (files s2 f)) then release a L_ftable s2
         else
           let ff = files s2 f in
           bindR (release a L_ftable (f_upd f (\<lambda>F. F\<lparr>f_ref := 0, f_type := FD_NONE\<rparr>) s2)) (\<lambda>s3.
             case f_type ff of
               FD_PIPE \<Rightarrow> pipeclose a (f_pipe ff) (f_writable ff \<noteq> 0) s3
             | FD_INODE \<Rightarrow>
                 bindR (begin_op a s3) (\<lambda>s4.
                 bindR (deref ''ff.ip'' (f_ip ff)) (\<lambda>ip.
                 bindR (iput a ip s4) (end_op a)))
             | FD_NONE \<Rightarrow> Inr s3))"

definition filestat :: "8 word \<Rightarrow> nat \<Rightarrow> 'a file_state_scheme \<Rightarrow> (cint \<times> stat option \<times> 'a file_state_scheme) res" where
  "filestat a f s =
     (if f_type (files s f) = FD_INODE then
        bindR (ilock a (f_ip (files s f)) s) (\<lambda>s1.
        bindR (deref ''f->ip'' (f_ip (files s1 f))) (\<lambda>ip.
        let st = stati (inodes s1 ip) in
        bindR (iunlock a (Some ip) s1) (\<lambda>s2. Inr (0, Some st, s2))))
      else Inr (-1, None, s))"

definition fileread ::
  "8 word \<Rightarrow> nat \<Rightarrow> cint \<Rightarrow> 'a file_state_scheme \<Rightarrow> (cint \<times> cchar list \<times> 'a file_state_scheme) res" where
  "fileread a f n s =
     (if f_readable (files s f) = 0 then Inr (-1, [], s)
      else case f_type (files s f) of
        FD_PIPE \<Rightarrow> piperead a (f_pipe (files s f)) n s
      | FD_INODE \<Rightarrow>
          bindR (ilock a (f_ip (files s f)) s) (\<lambda>s1.
          bindR (deref ''f->ip'' (f_ip (files s1 f))) (\<lambda>ip.
          bindR (readi a ip (f_off (files s1 f)) n s1) (\<lambda>(r, cs, s2).
          let s3 = (if 0 < sint r then f_upd f (\<lambda>F. F\<lparr>f_off := f_off F + r\<rparr>) s2 else s2) in
          bindR (iunlock a (f_ip (files s3 f)) s3) (\<lambda>s4. Inr (r, cs, s4)))))
      | FD_NONE \<Rightarrow> Inl (Panic ''fileread''))"

text \<open>
  The loop of \<^verbatim>\<open>filewrite\<close> over the bytes still to be written, in portions that fit a
  transaction; it returns how many bytes are left when it ends.
\<close>

definition WRITEMAX :: nat where
  "WRITEMAX = ((MAXOPBLOCKS - 1 - 1 - 2) div 2) * 512"

function filewrite_loop ::
  "8 word \<Rightarrow> nat \<Rightarrow> cchar list \<Rightarrow> 'a file_state_scheme \<Rightarrow> (nat \<times> 'a file_state_scheme) res" where
  "filewrite_loop a f src s =
     (if src = [] then Inr (0, s)
      else
        let n1 = min (length src) WRITEMAX in
        bindR (begin_op a s) (\<lambda>s1.
        bindR (ilock a (f_ip (files s1 f)) s1) (\<lambda>s2.
        bindR (deref ''f->ip'' (f_ip (files s2 f))) (\<lambda>ip.
        bindR (writei a ip (take n1 src) (f_off (files s2 f)) (of_nat n1) s2) (\<lambda>(r, s3).
        let s4 = (if 0 < sint r then f_upd f (\<lambda>F. F\<lparr>f_off := f_off F + r\<rparr>) s3 else s3) in
        bindR (iunlock a (f_ip (files s4 f)) s4) (\<lambda>s5.
        bindR (end_op a s5) (\<lambda>s6.
          if sint r < 0 then Inr (length src, s6)
          else if r \<noteq> of_nat n1 then Inl (Panic ''short filewrite'')
          else filewrite_loop a f (drop n1 src) s6)))))))"
  by pat_completeness auto
termination
  by (relation "measure (\<lambda>(a, f, src, s). length src)") (auto simp: WRITEMAX_def MAXOPBLOCKS_def)

declare filewrite_loop.simps [simp del]

definition filewrite ::
  "8 word \<Rightarrow> nat \<Rightarrow> cchar list \<Rightarrow> cint \<Rightarrow> 'a file_state_scheme \<Rightarrow> (cint \<times> 'a file_state_scheme) res" where
  "filewrite a f src n s =
     (if f_writable (files s f) = 0 then Inr (-1, s)
      else case f_type (files s f) of
        FD_PIPE \<Rightarrow> pipewrite a (f_pipe (files s f)) src n s
      | FD_INODE \<Rightarrow>
          bindR (filewrite_loop a f (take (nat (sint n)) src) s) (\<lambda>(left, s1).
          Inr (if left = 0 \<and> 0 \<le> sint n then n else -1, s1))
      | FD_NONE \<Rightarrow> Inl (Panic ''filewrite''))"

subsection \<open>Making a pipe\<close>

definition pipe_bad :: "8 word \<Rightarrow> nat option \<Rightarrow> nat option \<Rightarrow> 'a file_state_scheme \<Rightarrow> 'a file_state_scheme res" where
  "pipe_bad a f0 f1 s =
     bindR (case f0 of Some f \<Rightarrow> fileclose a f s | None \<Rightarrow> Inr s) (\<lambda>s1.
     case f1 of Some f \<Rightarrow> fileclose a f s1 | None \<Rightarrow> Inr s1)"

text \<open>The files it stores in \<^verbatim>\<open>*f0\<close> and \<^verbatim>\<open>*f1\<close>, or null when it returns -1.\<close>

definition pipealloc :: "8 word \<Rightarrow> 'a file_state_scheme \<Rightarrow> ((nat \<times> nat) option \<times> 'a file_state_scheme) res" where
  "pipealloc a s =
     bindR (filealloc a s) (\<lambda>(f0, s1).
       case f0 of
         None \<Rightarrow> bindR (pipe_bad a None None s1) (\<lambda>s2. Inr (None, s2))
       | Some r \<Rightarrow>
           bindR (filealloc a s1) (\<lambda>(f1, s2).
             case f1 of
               None \<Rightarrow> bindR (pipe_bad a (Some r) None s2) (\<lambda>s3. Inr (None, s3))
             | Some w \<Rightarrow>
                 bindR (kalloc a s2) (\<lambda>(p, s3).
                   if p = 0 then bindR (pipe_bad a (Some r) (Some w) s3) (\<lambda>s4. Inr (None, s4))
                   else
                     let s4 = pi_upd p (\<lambda>P. P\<lparr>pi_readopen := 1, pi_writeopen := 1, pi_nwrite := 0, pi_nread := 0\<rparr>) s3;
                         s5 = initlock (L_pipe p) ''pipe'' s4;
                         s6 = f_upd r (\<lambda>F. F\<lparr>f_type := FD_PIPE, f_readable := 1, f_writable := 0, f_pipe := p\<rparr>) s5;
                         s7 = f_upd w (\<lambda>F. F\<lparr>f_type := FD_PIPE, f_readable := 0, f_writable := 1, f_pipe := p\<rparr>) s6
                     in Inr (Some (r, w), s7))))"

end
