(* ===== verification/Uaccess.thy ===== *)
theory Uaccess
  imports Sleeplock Bytes
begin

section \<open>User memory and system call arguments (syscall.c, first half)\<close>

text \<open>
  The kernel reads and writes user memory through the page table that is loaded: \<open>translate\<close>
  is what the paging hardware does with an address.  A kernel access to an unmapped page, or a
  write to a read-only one, is a page fault in kernel mode, on which \<^verbatim>\<open>trap\<close> panics.  The
  trap frame of a process is in kernel memory; its fields are words at fixed offsets.
\<close>

subsection \<open>Accesses through the page table\<close>

definition translate :: "memory \<Rightarrow> cuint \<Rightarrow> bool \<Rightarrow> cuint \<Rightarrow> cuint option" where
  "translate m pgdir write va =
     (let pde = load32 m (pgdir + 4 * PDX va);
          pte = load32 m (P2V (PTE_ADDR pde) + 4 * PTX va);
          ok = (\<lambda>e. e AND PTE_P \<noteq> 0 \<and> (write \<longrightarrow> e AND PTE_W \<noteq> 0))
      in if ok pde \<and> ok pte then Some (P2V (PTE_ADDR pte) + va mod PGSIZE) else None)"

definition uload :: "8 word \<Rightarrow> cuint \<Rightarrow> 'a vm_state_scheme \<Rightarrow> cchar res" where
  "uload a va s =
     (case translate (mem s) (P2V (cr3 s a)) False va of
        None \<Rightarrow> Inl (Panic ''trap'')
      | Some k \<Rightarrow> Inr (mem s k))"

definition ustore :: "8 word \<Rightarrow> cuint \<Rightarrow> cchar \<Rightarrow> 'a vm_state_scheme \<Rightarrow> 'a vm_state_scheme res" where
  "ustore a va c s =
     (case translate (mem s) (P2V (cr3 s a)) True va of
        None \<Rightarrow> Inl (Panic ''trap'')
      | Some k \<Rightarrow> Inr (s\<lparr>mem := (mem s)(k := c)\<rparr>))"

fun uload_bytes :: "8 word \<Rightarrow> cuint \<Rightarrow> nat \<Rightarrow> 'a vm_state_scheme \<Rightarrow> cchar list res" where
  "uload_bytes a va 0 s = Inr []"
| "uload_bytes a va (Suc n) s =
     bindR (uload a va s) (\<lambda>c. bindR (uload_bytes a (va + 1) n s) (\<lambda>cs. Inr (c # cs)))"

fun ustore_bytes :: "8 word \<Rightarrow> cuint \<Rightarrow> cchar list \<Rightarrow> 'a vm_state_scheme \<Rightarrow> 'a vm_state_scheme res" where
  "ustore_bytes a va [] s = Inr s"
| "ustore_bytes a va (c # cs) s = bindR (ustore a va c s) (ustore_bytes a (va + 1) cs)"

text \<open>Offsets of the fields of \<^verbatim>\<open>struct trapframe\<close>, and its size.\<close>

definition TF_EAX :: cuint where "TF_EAX = 28"
definition TF_ES :: cuint where "TF_ES = 40"
definition TF_DS :: cuint where "TF_DS = 44"
definition TF_TRAPNO :: cuint where "TF_TRAPNO = 48"
definition TF_EIP :: cuint where "TF_EIP = 56"
definition TF_CS :: cuint where "TF_CS = 60"
definition TF_EFLAGS :: cuint where "TF_EFLAGS = 64"
definition TF_ESP :: cuint where "TF_ESP = 68"
definition TF_SS :: cuint where "TF_SS = 72"
definition TF_SIZE :: cuint where "TF_SIZE = 76"

definition tf_load :: "cuint \<Rightarrow> cuint \<Rightarrow> 'a kmem_state_scheme \<Rightarrow> cuint" where
  "tf_load tf off s = load32 (mem s) (tf + off)"

definition tf_store :: "cuint \<Rightarrow> cuint \<Rightarrow> cuint \<Rightarrow> 'a kmem_state_scheme \<Rightarrow> 'a kmem_state_scheme" where
  "tf_store tf off v s = s\<lparr>mem := store32 (tf + off) v (mem s)\<rparr>"

subsection \<open>Arguments\<close>

text \<open>A result of \<^const>\<open>None\<close> is the return value -1; otherwise it is what \<^verbatim>\<open>*ip\<close> or \<^verbatim>\<open>*pp\<close> is set to.\<close>

definition fetchint :: "8 word \<Rightarrow> cuint \<Rightarrow> 'a sched_state_scheme \<Rightarrow> (cint option \<times> 'a sched_state_scheme) res" where
  "fetchint a addr s =
     bindR (curproc a s) (\<lambda>(p, s1).
       let sz = p_sz (proc_at s1 p) in
       if sz \<le> addr \<or> sz < addr + 4 then Inr (None, s1)
       else bindR (uload_bytes a addr 4 s1) (\<lambda>cs. Inr (Some (word32 cs), s1)))"

fun fetchstr_loop :: "8 word \<Rightarrow> nat \<Rightarrow> cuint \<Rightarrow> 'a vm_state_scheme \<Rightarrow> cchar list option res" where
  "fetchstr_loop a 0 p s = Inr None"
| "fetchstr_loop a (Suc n) p s =
     bindR (uload a p s) (\<lambda>c.
       if c = 0 then Inr (Some [])
       else bindR (fetchstr_loop a n (p + 1) s) (\<lambda>r. Inr (map_option (\<lambda>cs. c # cs) r)))"

text \<open>
  The source keeps a pointer to the user's string; there is no shared user memory, so the
  model takes the string itself, whose length is the return value.
\<close>

definition fetchstr :: "8 word \<Rightarrow> cuint \<Rightarrow> 'a sched_state_scheme \<Rightarrow> (cchar list option \<times> 'a sched_state_scheme) res" where
  "fetchstr a addr s =
     bindR (curproc a s) (\<lambda>(p, s1).
       let sz = p_sz (proc_at s1 p) in
       if sz \<le> addr then Inr (None, s1)
       else bindR (fetchstr_loop a (unat sz - unat addr) addr s1) (\<lambda>r. Inr (r, s1)))"

definition argint :: "8 word \<Rightarrow> nat \<Rightarrow> 'a sched_state_scheme \<Rightarrow> (cint option \<times> 'a sched_state_scheme) res" where
  "argint a n s =
     bindR (curproc a s) (\<lambda>(p, s1).
       fetchint a (tf_load (p_tf (proc_at s1 p)) TF_ESP s1 + 4 + 4 * of_nat n) s1)"

definition argptr :: "8 word \<Rightarrow> nat \<Rightarrow> cint \<Rightarrow> 'a sched_state_scheme \<Rightarrow> (cuint option \<times> 'a sched_state_scheme) res" where
  "argptr a n sze s =
     bindR (curproc a s) (\<lambda>(p, s1).
     bindR (argint a n s1) (\<lambda>(r, s2).
       case r of
         None \<Rightarrow> Inr (None, s2)
       | Some i \<Rightarrow>
           if sint sze < 0 \<or> p_sz (proc_at s2 p) \<le> i \<or> p_sz (proc_at s2 p) < i + sze then Inr (None, s2)
           else Inr (Some i, s2)))"

definition argstr :: "8 word \<Rightarrow> nat \<Rightarrow> 'a sched_state_scheme \<Rightarrow> (cchar list option \<times> 'a sched_state_scheme) res" where
  "argstr a n s =
     bindR (argint a n s) (\<lambda>(r, s1).
       case r of None \<Rightarrow> Inr (None, s1) | Some addr \<Rightarrow> fetchstr a addr s1)"

end
