(* ===== verification/Lifecycle.thy ===== *)
theory Lifecycle
  imports File Uaccess
begin

section \<open>Process creation and exit (proc.c)\<close>

text \<open>
  Allocating, copying, growing, ending and reaping processes.  The state adds what the linker
  provides: the addresses of \<^verbatim>\<open>trapret\<close> and \<^verbatim>\<open>forkret\<close> and the place and size of the
  first program.  \<open>exit_pre\<close> is \<^verbatim>\<open>exit\<close> up to its context switch, after which it never
  runs again.  \<open>wait\<close> is \<open>Blocks\<close> where the source sleeps.  \<^verbatim>\<open>print_queues\<close> has an empty
  body in the source.
\<close>

subsection \<open>State\<close>

record life_state = file_state +
  trapret_pc :: cuint
  forkret_pc :: cuint
  initcode_start :: cuint
  initcode_size :: cuint
  forkret_first :: cint

definition NOFILE :: nat where
  "NOFILE = 16"

definition SEG_UCODE :: "16 word" where
  "SEG_UCODE = 3"

definition SEG_UDATA :: "16 word" where
  "SEG_UDATA = 4"

definition DPL_USER :: "16 word" where
  "DPL_USER = 3"

definition pr_upd :: "nat \<Rightarrow> (proc \<Rightarrow> proc) \<Rightarrow> 'a sched_state_scheme \<Rightarrow> 'a sched_state_scheme" where
  "pr_upd p f s = upd_pt (p_upd p f) s"

definition tf_store16 :: "cuint \<Rightarrow> cuint \<Rightarrow> 16 word \<Rightarrow> 'a kmem_state_scheme \<Rightarrow> 'a kmem_state_scheme" where
  "tf_store16 tf off v s = s\<lparr>mem := (mem s)(tf + off := ucast v, tf + off + 1 := ucast (drop_bit 8 v))\<rparr>"

text \<open>
  \<^verbatim>\<open>safestrcpy\<close> into a byte array.  When the string fits, the loop copies its NUL and the
  statement after the loop stores one more.
\<close>

definition safestrcpy_str :: "cchar list \<Rightarrow> cchar list \<Rightarrow> nat \<Rightarrow> cchar list" where
  "safestrcpy_str dst t n =
     (if n = 0 then dst
      else
        let q = takeWhile (\<lambda>c. c \<noteq> 0) (take (n - 1) t) in
        blit 0 (if length q < n - 1 then q @ [0, 0] else q @ [0]) dst)"

subsection \<open>Creating processes\<close>

definition fresh_proc :: "cint \<Rightarrow> proc \<Rightarrow> proc" where
  "fresh_proc pid P =
     P\<lparr>p_state := EMBRYO, p_pid := pid, p_q_level := 0, p_cpu_burst := 0, p_cpu_wait := 0, p_io_wait_time := 0,
       p_end_time := -1, p_total_cpu_time := 0, p_queue_entry_time := 0, p_next := None, p_prev := None\<rparr>"

definition alloc_stack :: "8 word \<Rightarrow> nat \<Rightarrow> 'a life_state_scheme \<Rightarrow> (nat option \<times> 'a life_state_scheme) res" where
  "alloc_stack a p s =
     bindR (kalloc a s) (\<lambda>(k, s1).
       let s2 = pr_upd p (\<lambda>P. P\<lparr>p_kstack := k\<rparr>) s1 in
       if k = 0 then Inr (None, pr_upd p (\<lambda>P. P\<lparr>p_state := UNUSED\<rparr>) s2)
       else
         let tf = k + KSTACKSIZE - TF_SIZE;
             s3 = pr_upd p (\<lambda>P. P\<lparr>p_tf := tf\<rparr>) s2;
             s4 = s3\<lparr>mem := store32 (tf - 4) (trapret_pc s3) (mem s3)\<rparr>;
             cx = tf - 4 - 20;
             s5 = pr_upd p (\<lambda>P. P\<lparr>p_context := cx\<rparr>) s4;
             s6 = s5\<lparr>mem := memset cx 0 20 (mem s5)\<rparr>
         in Inr (Some p, s6\<lparr>mem := store32 (cx + 16) (forkret_pc s6) (mem s6)\<rparr>))"

definition allocproc :: "8 word \<Rightarrow> 'a life_state_scheme \<Rightarrow> (nat option \<times> 'a life_state_scheme) res" where
  "allocproc a s =
     bindR (acquire a L_ptable s) (\<lambda>s1.
       case List.find (\<lambda>p. p_state (proc_at s1 p) = UNUSED) [0..<NPROC] of
         None \<Rightarrow> bindR (release a L_ptable s1) (\<lambda>s2. Inr (None, s2))
       | Some p \<Rightarrow>
           let s2 = pr_upd p (fresh_proc (nextpid s1)) s1;
               s3 = s2\<lparr>nextpid := nextpid s2 + 1\<rparr>
           in bindR (release a L_ptable s3) (alloc_stack a p))"

definition userinit :: "8 word \<Rightarrow> 'a life_state_scheme \<Rightarrow> 'a life_state_scheme res" where
  "userinit a s =
     bindR (allocproc a s) (\<lambda>(q, s1).
     let s2 = s1\<lparr>initproc := q\<rparr> in
     bindR (deref ''userinit: p'' q) (\<lambda>p.
     bindR (setupkvm a s2) (\<lambda>(pgdir, s3).
     let s4 = pr_upd p (\<lambda>P. P\<lparr>p_pgdir := pgdir\<rparr>) s3 in
     if pgdir = 0 then Inl (Panic ''userinit: out of memory?'')
     else
       bindR (inituvm a pgdir (initcode_start s4) (initcode_size s4) s4) (\<lambda>s5.
       let s6 = pr_upd p (\<lambda>P. P\<lparr>p_sz := PGSIZE\<rparr>) s5;
           tf = p_tf (proc_at s6 p);
           s7 = s6\<lparr>mem := memset tf 0 TF_SIZE (mem s6)\<rparr>;
           uds = push_bit 3 SEG_UDATA OR DPL_USER;
           s8 = tf_store16 tf TF_CS (push_bit 3 SEG_UCODE OR DPL_USER) s7;
           s9 = tf_store16 tf TF_SS uds (tf_store16 tf TF_ES uds (tf_store16 tf TF_DS uds s8));
           s10 = tf_store tf TF_EIP 0 (tf_store tf TF_ESP PGSIZE (tf_store tf TF_EFLAGS FL_IF s9));
           s11 = pr_upd p (\<lambda>P. P\<lparr>p_name := safestrcpy_str (p_name P) [105, 110, 105, 116, 99, 111, 100, 101] 16\<rparr>) s10
       in bindR (namei a [47] s11) (\<lambda>(d, s12).
          let s13 = pr_upd p (\<lambda>P. P\<lparr>p_cwd := d\<rparr>) s12 in
          bindR (acquire a L_ptable s13) (\<lambda>s14.
          let s15 = pr_upd p (\<lambda>P. P\<lparr>p_state := RUNNABLE, p_q_level := 3, p_cpu_burst := 0, p_cpu_wait := 0,
                                    p_io_wait_time := 0, p_next := None, p_prev := None, p_queue_entry_time := 0,
                                    p_type := INIT\<rparr>) s14 in
          bindR (try_pt (add_to_queue (ticks s15) p (p_q_level (proc_at s15 p))) s15) (release a L_ptable)))))))"

definition growproc :: "8 word \<Rightarrow> cint \<Rightarrow> 'a sched_state_scheme \<Rightarrow> (cint \<times> 'a sched_state_scheme) res" where
  "growproc a n s =
     bindR (curproc a s) (\<lambda>(p, s1).
       let sz = p_sz (proc_at s1 p); pgdir = p_pgdir (proc_at s1 p) in
       bindR (if 0 < sint n then
                bindR (allocuvm a pgdir sz (sz + n) s1) (\<lambda>(r, s2). Inr (if r = 0 then None else Some r, s2))
              else if sint n < 0 then
                bindR (deallocuvm a pgdir sz (sz + n) s1) (\<lambda>(r, s2). Inr (if r = 0 then None else Some r, s2))
              else Inr (Some sz, s1)) (\<lambda>(r, s3).
         case r of
           None \<Rightarrow> Inr (-1, s3)
         | Some sz' \<Rightarrow>
             bindR (switchuvm a (Some p) (pr_upd p (\<lambda>P. P\<lparr>p_sz := sz'\<rparr>) s3)) (\<lambda>s4. Inr (0, s4))))"

text \<open>The loop that duplicates the parent's open files.\<close>

definition dup_files :: "8 word \<Rightarrow> nat \<Rightarrow> nat \<Rightarrow> 'a life_state_scheme \<Rightarrow> 'a life_state_scheme res" where
  "dup_files a cur np s =
     foldR (\<lambda>i s.
       case p_ofile (proc_at s cur) i of
         None \<Rightarrow> Inr s
       | Some f \<Rightarrow> bindR (filedup a f s) (\<lambda>(f', s1). Inr (pr_upd np (\<lambda>P. P\<lparr>p_ofile := (p_ofile P)(i := Some f')\<rparr>) s1)))
       [0..<NOFILE] s"

definition fork_queue :: "8 word \<Rightarrow> nat \<Rightarrow> nat \<Rightarrow> 'a life_state_scheme \<Rightarrow> 'a life_state_scheme res" where
  "fork_queue a cur np s =
     bindR (acquire a L_ptable s) (\<lambda>s1.
     let s2 = pr_upd np (\<lambda>P. P\<lparr>p_state := RUNNABLE\<rparr>) s1;
         s3 = (if p_pid (proc_at s2 cur) = 1 then pr_upd np (\<lambda>P. P\<lparr>p_q_level := 3, p_type := SHELL\<rparr>) s2
               else pr_upd np (\<lambda>P. P\<lparr>p_q_level := 0\<rparr>) s2);
         s4 = pr_upd np (\<lambda>P. P\<lparr>p_cpu_burst := 0, p_cpu_wait := 0, p_io_wait_time := 0, p_next := None, p_prev := None,
                              p_queue_entry_time := 0, p_end_time := -1, p_total_cpu_time := 0\<rparr>) s3
     in bindR (try_pt (add_to_queue (ticks s4) np (p_q_level (proc_at s4 np))) s4) (release a L_ptable))"

definition fork :: "8 word \<Rightarrow> 'a life_state_scheme \<Rightarrow> (cint \<times> 'a life_state_scheme) res" where
  "fork a s =
     bindR (curproc a s) (\<lambda>(cur, s1).
     bindR (allocproc a s1) (\<lambda>(q, s2).
       case q of
         None \<Rightarrow> Inr (-1, s2)
       | Some np \<Rightarrow>
           bindR (copyuvm a (p_pgdir (proc_at s2 cur)) (p_sz (proc_at s2 cur)) s2) (\<lambda>(d, s3).
           let s4 = pr_upd np (\<lambda>P. P\<lparr>p_pgdir := d\<rparr>) s3 in
           if d = 0 then
             bindR (kfree a (p_kstack (proc_at s4 np)) s4) (\<lambda>s5.
             Inr (-1, pr_upd np (\<lambda>P. P\<lparr>p_kstack := 0, p_state := UNUSED\<rparr>) s5))
           else
             let s5 = pr_upd np (\<lambda>P. P\<lparr>p_sz := p_sz (proc_at s4 cur), p_parent := Some cur\<rparr>) s4;
                 s6 = s5\<lparr>mem := memmove (p_tf (proc_at s5 np)) (p_tf (proc_at s5 cur)) TF_SIZE (mem s5)\<rparr>;
                 s7 = tf_store (p_tf (proc_at s6 np)) TF_EAX 0 s6
             in bindR (dup_files a cur np s7) (\<lambda>s8.
                bindR (deref ''cwd'' (p_cwd (proc_at s8 cur))) (\<lambda>d.
                bindR (idup a d s8) (\<lambda>(d', s9).
                let s10 = pr_upd np (\<lambda>P. P\<lparr>p_cwd := Some d'\<rparr>) s9;
                    s11 = pr_upd np (\<lambda>P. P\<lparr>p_name := safestrcpy_str (p_name P) (p_name (proc_at s10 cur)) 16\<rparr>) s10;
                    pid = p_pid (proc_at s11 np)
                in bindR (fork_queue a cur np s11) (\<lambda>s12. Inr (pid, s12))))))))"

definition forkret :: "8 word \<Rightarrow> 'a life_state_scheme \<Rightarrow> 'a life_state_scheme res" where
  "forkret a s =
     bindR (release a L_ptable s) (\<lambda>s1.
       if forkret_first s1 \<noteq> 0 then
         bindR (iinit a ROOTDEV (s1\<lparr>forkret_first := 0\<rparr>)) (initlog a ROOTDEV)
       else Inr s1)"

subsection \<open>Ending processes\<close>

definition close_files :: "8 word \<Rightarrow> nat \<Rightarrow> 'a life_state_scheme \<Rightarrow> 'a life_state_scheme res" where
  "close_files a cur s =
     foldR (\<lambda>fd s.
       case p_ofile (proc_at s cur) fd of
         None \<Rightarrow> Inr s
       | Some f \<Rightarrow> bindR (fileclose a f s) (\<lambda>s1. Inr (pr_upd cur (\<lambda>P. P\<lparr>p_ofile := (p_ofile P)(fd := None)\<rparr>) s1)))
       [0..<NOFILE] s"

definition proc_chan :: "nat option \<Rightarrow> chan" where
  "proc_chan q = (case q of None \<Rightarrow> Ch_null | Some p \<Rightarrow> Ch_proc p)"

definition reparent :: "nat \<Rightarrow> nat \<Rightarrow> 'a sched_state_scheme \<Rightarrow> 'a sched_state_scheme res" where
  "reparent cur p s =
     (if p_parent (proc_at s p) = Some cur then
        let s1 = pr_upd p (\<lambda>P. P\<lparr>p_parent := initproc s\<rparr>) s in
        if p_state (proc_at s1 p) = ZOMBIE then wakeup1 (proc_chan (initproc s1)) s1 else Inr s1
      else Inr s)"

definition exit_pre :: "8 word \<Rightarrow> 'a life_state_scheme \<Rightarrow> (cint \<times> 'a life_state_scheme) res" where
  "exit_pre a s =
     bindR (curproc a s) (\<lambda>(cur, s1).
       if Some cur = initproc s1 then Inl (Panic ''init exiting'')
       else
         bindR (close_files a cur s1) (\<lambda>s2.
         bindR (begin_op a s2) (\<lambda>s3.
         bindR (deref ''cwd'' (p_cwd (proc_at s3 cur))) (\<lambda>d.
         bindR (iput a d s3) (\<lambda>s4.
         bindR (end_op a s4) (\<lambda>s5.
         let s6 = pr_upd cur (\<lambda>P. P\<lparr>p_cwd := None\<rparr>) s5 in
         bindR (acquire a L_ptable s6) (\<lambda>s7.
         bindR (try_pt (remove_from_queue cur) s7) (\<lambda>s8.
         bindR (wakeup1 (proc_chan (p_parent (proc_at s8 cur))) s8) (\<lambda>s9.
         bindR (foldR (reparent cur) [0..<NPROC] s9) (\<lambda>s10.
         sched_pre a (pr_upd cur (\<lambda>P. P\<lparr>p_state := ZOMBIE\<rparr>) s10)))))))))))"

definition reap :: "8 word \<Rightarrow> nat \<Rightarrow> 'a life_state_scheme \<Rightarrow> (cint \<times> 'a life_state_scheme) res" where
  "reap a p s =
     (let pid = p_pid (proc_at s p) in
      bindR (kfree a (p_kstack (proc_at s p)) s) (\<lambda>s1.
      let s2 = pr_upd p (\<lambda>P. P\<lparr>p_kstack := 0\<rparr>) s1 in
      bindR (freevm a (p_pgdir (proc_at s2 p)) s2) (\<lambda>s3.
      Inr (pid, pr_upd p (\<lambda>P. P\<lparr>p_pid := 0, p_parent := None, p_name := (p_name P)[0 := 0], p_killed := 0,
                                p_state := UNUSED\<rparr>) s3))))"

definition wait :: "8 word \<Rightarrow> 'a life_state_scheme \<Rightarrow> (cint \<times> 'a life_state_scheme) res" where
  "wait a s =
     bindR (curproc a s) (\<lambda>(cur, s1).
     bindR (acquire a L_ptable s1) (\<lambda>s2.
       let kids = filter (\<lambda>p. p_parent (proc_at s2 p) = Some cur) [0..<NPROC] in
       case List.find (\<lambda>p. p_state (proc_at s2 p) = ZOMBIE) kids of
         Some p \<Rightarrow> bindR (reap a p s2) (\<lambda>(pid, s3). bindR (release a L_ptable s3) (\<lambda>s4. Inr (pid, s4)))
       | None \<Rightarrow>
           if kids = [] \<or> p_killed (proc_at s2 cur) \<noteq> 0
           then bindR (release a L_ptable s2) (\<lambda>s3. Inr (-1, s3))
           else Inl Blocks))"

end
