(* ===== verification/Exec.thy ===== *)
theory Exec
  imports Lifecycle
begin

section \<open>Running a program (exec.c, loaduvm of vm.c)\<close>

text \<open>
  \<^verbatim>\<open>exec\<close> reads an ELF file into a new page table, builds the stack with the argument
  strings and switches to it.  Path and arguments are given as strings; they are in the memory
  of the running program, which stays loaded until the end.  Messages are not modelled.
\<close>

definition ELF_MAGIC :: cuint where
  "ELF_MAGIC = 0x464C457F"

definition ELF_PROG_LOAD :: cuint where
  "ELF_PROG_LOAD = 1"

definition MAXARG :: nat where
  "MAXARG = 32"

record elfhdr =
  e_magic :: cuint
  e_entry :: cuint
  e_phoff :: cuint
  e_phnum :: "16 word"

record proghdr =
  ph_type :: cuint
  ph_off :: cuint
  ph_vaddr :: cuint
  ph_filesz :: cuint
  ph_memsz :: cuint

text \<open>The headers are 52 and 32 bytes.\<close>

definition elfhdr_of :: "cchar list \<Rightarrow> elfhdr" where
  "elfhdr_of d = \<lparr>e_magic = get32 0 d, e_entry = get32 24 d, e_phoff = get32 28 d, e_phnum = get16 44 d\<rparr>"

definition proghdr_of :: "cchar list \<Rightarrow> proghdr" where
  "proghdr_of d = \<lparr>ph_type = get32 0 d, ph_off = get32 4 d, ph_vaddr = get32 8 d, ph_filesz = get32 16 d, ph_memsz = get32 20 d\<rparr>"

subsection \<open>Loading segments\<close>

function loaduvm_loop ::
  "8 word \<Rightarrow> cuint \<Rightarrow> cuint \<Rightarrow> nat \<Rightarrow> cuint \<Rightarrow> cuint \<Rightarrow> cuint \<Rightarrow> 'a cons_state_scheme \<Rightarrow> (cint \<times> 'a cons_state_scheme) res" where
  "loaduvm_loop a pgdir addr ip offset sz i s =
     (if \<not> i < sz then Inr (0, s)
      else
        bindR (walkpgdir a pgdir (addr + i) False s) (\<lambda>(pte, s1).
          if pte = 0 then Inl (Panic ''loaduvm: address should exist'')
          else
            let pa = PTE_ADDR (load32 (mem s1) pte);
                n = (if sz - i < PGSIZE then sz - i else PGSIZE)
            in bindR (readi a ip (offset + i) n s1) (\<lambda>(r, cs, s2).
               let s3 = s2\<lparr>mem := put_bytes (P2V pa) cs (mem s2)\<rparr> in
               if r \<noteq> n then Inr (-1, s3)
               else if i + PGSIZE \<le> i then Inl Diverges
               else loaduvm_loop a pgdir addr ip offset sz (i + PGSIZE) s3)))"
  by pat_completeness auto
termination
proof (relation "measure (\<lambda>(a, pgdir, addr, ip, offset, sz, i, s). unat sz - unat i)", goal_cases)
  case 1
  then show ?case by simp
next
  case (2 a pgdir addr ip offset sz i)
  then have "unat i < unat sz" "unat i < unat (i + PGSIZE)" by (simp_all add: not_le word_less_nat_alt)
  then show ?case by simp
qed

declare loaduvm_loop.simps [simp del]

definition loaduvm ::
  "8 word \<Rightarrow> cuint \<Rightarrow> cuint \<Rightarrow> nat \<Rightarrow> cuint \<Rightarrow> cuint \<Rightarrow> 'a cons_state_scheme \<Rightarrow> (cint \<times> 'a cons_state_scheme) res" where
  "loaduvm a pgdir addr ip offset sz s =
     (if addr mod PGSIZE \<noteq> 0 then Inl (Panic ''loaduvm: addr must be page aligned'')
      else loaduvm_loop a pgdir addr ip offset sz 0 s)"

text \<open>The loop over the program headers; \<^const>\<open>None\<close> is the jump to \<^verbatim>\<open>bad\<close>.\<close>

fun load_segs ::
  "8 word \<Rightarrow> nat \<Rightarrow> cuint \<Rightarrow> nat \<Rightarrow> cuint \<Rightarrow> cuint \<Rightarrow> 'a cons_state_scheme \<Rightarrow> (cuint option \<times> 'a cons_state_scheme) res" where
  "load_segs a ip pgdir 0 off sz s = Inr (Some sz, s)"
| "load_segs a ip pgdir (Suc k) off sz s =
     bindR (readi a ip off 32 s) (\<lambda>(r, d, s1).
       if r \<noteq> 32 then Inr (None, s1)
       else
         let ph = proghdr_of d in
         if ph_type ph \<noteq> ELF_PROG_LOAD then load_segs a ip pgdir k (off + 32) sz s1
         else if ph_memsz ph < ph_filesz ph then Inr (None, s1)
         else if ph_vaddr ph + ph_memsz ph < ph_vaddr ph then Inr (None, s1)
         else
           bindR (allocuvm a pgdir sz (ph_vaddr ph + ph_memsz ph) s1) (\<lambda>(sz', s2).
             if sz' = 0 then Inr (None, s2)
             else if ph_vaddr ph mod PGSIZE \<noteq> 0 then Inr (None, s2)
             else
               bindR (loaduvm a pgdir (ph_vaddr ph) ip (ph_off ph) (ph_filesz ph) s2) (\<lambda>(r, s3).
                 if sint r < 0 then Inr (None, s3) else load_segs a ip pgdir k (off + 32) sz' s3)))"

subsection \<open>The argument stack\<close>

text \<open>
  Pushing the argument strings, highest address first; the addresses pushed so far go to
  \<^verbatim>\<open>ustack\<close>, and \<^verbatim>\<open>argc\<close> is their number.
\<close>

fun push_args ::
  "8 word \<Rightarrow> cuint \<Rightarrow> cchar list list \<Rightarrow> cuint \<Rightarrow> cuint list \<Rightarrow> 'a kmem_state_scheme \<Rightarrow>
   ((cuint \<times> cuint list) option \<times> 'a kmem_state_scheme) res" where
  "push_args a pgdir [] sp ustack s = Inr (Some (sp, ustack), s)"
| "push_args a pgdir (arg # argv) sp ustack s =
     (if MAXARG \<le> length ustack then Inr (None, s)
      else
        let sp' = (sp - (of_nat (length arg) + 1)) AND NOT 3 in
        bindR (copyout a pgdir sp' (arg @ [0]) s) (\<lambda>(r, s1).
          if sint r < 0 then Inr (None, s1) else push_args a pgdir argv sp' (ustack @ [sp']) s1))"

definition stack_words :: "cuint \<Rightarrow> cuint list \<Rightarrow> cuint list" where
  "stack_words sp ptrs =
     [0xFFFFFFFF, of_nat (length ptrs), sp - (of_nat (length ptrs) + 1) * 4] @ ptrs @ [0]"

definition last_elem :: "cchar list \<Rightarrow> cchar list" where
  "last_elem path = rev (takeWhile (\<lambda>c. c \<noteq> 47) (rev path))"

subsection \<open>exec\<close>

definition exec_bad :: "8 word \<Rightarrow> cuint \<Rightarrow> nat option \<Rightarrow> 'a life_state_scheme \<Rightarrow> (cint \<times> 'a life_state_scheme) res" where
  "exec_bad a pgdir q s =
     bindR (if pgdir \<noteq> 0 then freevm a pgdir s else Inr s) (\<lambda>s1.
     bindR (case q of None \<Rightarrow> Inr s1 | Some ip \<Rightarrow> bindR (iunlockput a ip s1) (end_op a)) (\<lambda>s2. Inr (-1, s2)))"

text \<open>From \<^verbatim>\<open>sz = PGROUNDUP(sz)\<close> on, when the file is closed again.\<close>

definition exec_stack ::
  "8 word \<Rightarrow> nat \<Rightarrow> cchar list \<Rightarrow> cchar list list \<Rightarrow> cuint \<Rightarrow> cuint \<Rightarrow> cuint \<Rightarrow> 'a life_state_scheme \<Rightarrow> (cint \<times> 'a life_state_scheme) res" where
  "exec_stack a cur path argv entry pgdir sz0 s =
     bindR (allocuvm a pgdir (PGROUNDUP sz0) (PGROUNDUP sz0 + 2 * PGSIZE) s) (\<lambda>(sz, s1).
       if sz = 0 then exec_bad a pgdir None s1
       else
         bindR (clearpteu a pgdir (sz - 2 * PGSIZE) s1) (\<lambda>s2.
         bindR (push_args a pgdir argv sz [] s2) (\<lambda>(r, s3).
           case r of
             None \<Rightarrow> exec_bad a pgdir None s3
           | Some (sp, ptrs) \<Rightarrow>
               let ustack = stack_words sp ptrs; sp' = sp - of_nat (length ustack) * 4 in
               bindR (copyout a pgdir sp' (concat (map bytes32 ustack)) s3) (\<lambda>(r, s4).
                 if sint r < 0 then exec_bad a pgdir None s4
                 else
                   let s5 = pr_upd cur (\<lambda>P. P\<lparr>p_name := safestrcpy_str (p_name P) (last_elem path) 16\<rparr>) s4;
                       oldpgdir = p_pgdir (proc_at s5 cur);
                       s6 = pr_upd cur (\<lambda>P. P\<lparr>p_pgdir := pgdir, p_sz := sz\<rparr>) s5;
                       tf = p_tf (proc_at s6 cur);
                       s7 = tf_store tf TF_ESP sp' (tf_store tf TF_EIP entry s6)
                   in bindR (switchuvm a (Some cur) s7) (\<lambda>s8.
                      bindR (freevm a oldpgdir s8) (\<lambda>s9. Inr (0, s9)))))))"

definition exec :: "8 word \<Rightarrow> cchar list \<Rightarrow> cchar list list \<Rightarrow> 'a life_state_scheme \<Rightarrow> (cint \<times> 'a life_state_scheme) res" where
  "exec a path argv s =
     bindR (curproc a s) (\<lambda>(cur, s1).
     bindR (begin_op a s1) (\<lambda>s2.
     bindR (namei a path s2) (\<lambda>(q, s3).
       case q of
         None \<Rightarrow> bindR (end_op a s3) (\<lambda>s4. Inr (-1, s4))
       | Some ip \<Rightarrow>
           bindR (ilock a (Some ip) s3) (\<lambda>s4.
           bindR (readi a ip 0 52 s4) (\<lambda>(r, d, s5).
             let elf = elfhdr_of d in
             if r \<noteq> 52 then exec_bad a 0 (Some ip) s5
             else if e_magic elf \<noteq> ELF_MAGIC then exec_bad a 0 (Some ip) s5
             else
               bindR (setupkvm a s5) (\<lambda>(pgdir, s6).
                 if pgdir = 0 then exec_bad a 0 (Some ip) s6
                 else
                   bindR (load_segs a ip pgdir (unat (e_phnum elf)) (e_phoff elf) 0 s6) (\<lambda>(r, s7).
                     case r of
                       None \<Rightarrow> exec_bad a pgdir (Some ip) s7
                     | Some sz \<Rightarrow>
                         bindR (iunlockput a ip s7) (\<lambda>s8.
                         bindR (end_op a s8) (exec_stack a cur path argv (e_entry elf) pgdir sz)))))))))"

end
