(* ===== verification/Sysfile.thy ===== *)
theory Sysfile
  imports Exec
begin

section \<open>File-system calls (sysfile.c, sys_lseek.c)\<close>

text \<open>
  Argument checking and the calls into file.c and fs.c.  A label the source jumps to is a
  definition of its own.  The message of \<^verbatim>\<open>lseek\<close> is not modelled.
\<close>

definition O_RDONLY :: cint where
  "O_RDONLY = 0"

definition O_WRONLY :: cint where
  "O_WRONLY = 1"

definition O_RDWR :: cint where
  "O_RDWR = 2"

definition O_CREATE :: cint where
  "O_CREATE = 0x200"

subsection \<open>File descriptors\<close>

definition argfd :: "8 word \<Rightarrow> nat \<Rightarrow> 'a life_state_scheme \<Rightarrow> ((nat \<times> nat) option \<times> 'a life_state_scheme) res" where
  "argfd a n s =
     bindR (argint a n s) (\<lambda>(r, s1).
       case r of
         None \<Rightarrow> Inr (None, s1)
       | Some fd \<Rightarrow>
           if sint fd < 0 \<or> int NOFILE \<le> sint fd then Inr (None, s1)
           else
             bindR (curproc a s1) (\<lambda>(p, s2).
               Inr (case p_ofile (proc_at s2 p) (unat fd) of None \<Rightarrow> None | Some f \<Rightarrow> Some (unat fd, f), s2)))"

definition fdalloc :: "8 word \<Rightarrow> nat \<Rightarrow> 'a life_state_scheme \<Rightarrow> (nat option \<times> 'a life_state_scheme) res" where
  "fdalloc a f s =
     bindR (curproc a s) (\<lambda>(p, s1).
       case List.find (\<lambda>fd. p_ofile (proc_at s1 p) fd = None) [0..<NOFILE] of
         None \<Rightarrow> Inr (None, s1)
       | Some fd \<Rightarrow> Inr (Some fd, pr_upd p (\<lambda>P. P\<lparr>p_ofile := (p_ofile P)(fd := Some f)\<rparr>) s1))"

definition sys_dup :: "8 word \<Rightarrow> 'a life_state_scheme \<Rightarrow> (cint \<times> 'a life_state_scheme) res" where
  "sys_dup a s =
     bindR (argfd a 0 s) (\<lambda>(r, s1).
       case r of
         None \<Rightarrow> Inr (-1, s1)
       | Some (fd0, f) \<Rightarrow>
           bindR (fdalloc a f s1) (\<lambda>(r, s2).
             case r of
               None \<Rightarrow> Inr (-1, s2)
             | Some fd \<Rightarrow> bindR (filedup a f s2) (\<lambda>(_, s3). Inr (of_nat fd, s3))))"

text \<open>The common argument check of \<^verbatim>\<open>read\<close> and \<^verbatim>\<open>write\<close>: file, address and count.\<close>

definition arg_rw :: "8 word \<Rightarrow> 'a life_state_scheme \<Rightarrow> ((nat \<times> cuint \<times> cint) option \<times> 'a life_state_scheme) res" where
  "arg_rw a s =
     bindR (argfd a 0 s) (\<lambda>(r, s1).
       case r of
         None \<Rightarrow> Inr (None, s1)
       | Some (fd, f) \<Rightarrow>
           bindR (argint a 2 s1) (\<lambda>(r, s2).
             case r of
               None \<Rightarrow> Inr (None, s2)
             | Some n \<Rightarrow>
                 bindR (argptr a 1 n s2) (\<lambda>(r, s3).
                   Inr (case r of None \<Rightarrow> None | Some p \<Rightarrow> Some (f, p, n), s3))))"

definition sys_read :: "8 word \<Rightarrow> 'a life_state_scheme \<Rightarrow> (cint \<times> 'a life_state_scheme) res" where
  "sys_read a s =
     bindR (arg_rw a s) (\<lambda>(r, s1).
       case r of
         None \<Rightarrow> Inr (-1, s1)
       | Some (f, p, n) \<Rightarrow>
           bindR (fileread a f n s1) (\<lambda>(r, cs, s2).
           bindR (ustore_bytes a p cs s2) (\<lambda>s3. Inr (r, s3))))"

definition sys_write :: "8 word \<Rightarrow> 'a life_state_scheme \<Rightarrow> (cint \<times> 'a life_state_scheme) res" where
  "sys_write a s =
     bindR (arg_rw a s) (\<lambda>(r, s1).
       case r of
         None \<Rightarrow> Inr (-1, s1)
       | Some (f, p, n) \<Rightarrow>
           bindR (uload_bytes a p (nat (sint n)) s1) (\<lambda>cs. filewrite a f cs n s1))"

definition sys_close :: "8 word \<Rightarrow> 'a life_state_scheme \<Rightarrow> (cint \<times> 'a life_state_scheme) res" where
  "sys_close a s =
     bindR (argfd a 0 s) (\<lambda>(r, s1).
       case r of
         None \<Rightarrow> Inr (-1, s1)
       | Some (fd, f) \<Rightarrow>
           bindR (curproc a s1) (\<lambda>(p, s2).
           bindR (fileclose a f (pr_upd p (\<lambda>P. P\<lparr>p_ofile := (p_ofile P)(fd := None)\<rparr>) s2)) (\<lambda>s3. Inr (0, s3))))"

text \<open>\<^verbatim>\<open>struct stat\<close> as its 20 bytes are filled in; the two padding gaps keep what was there.\<close>

definition store_stat :: "8 word \<Rightarrow> cuint \<Rightarrow> stat \<Rightarrow> 'a vm_state_scheme \<Rightarrow> 'a vm_state_scheme res" where
  "store_stat a p st s =
     bindR (ustore_bytes a (p + 4) (bytes32 (st_dev st)) s) (\<lambda>s1.
     bindR (ustore_bytes a (p + 8) (bytes32 (st_ino st)) s1) (\<lambda>s2.
     bindR (ustore_bytes a p (bytes16 (st_type st)) s2) (\<lambda>s3.
     bindR (ustore_bytes a (p + 12) (bytes16 (st_nlink st)) s3) (\<lambda>s4.
     ustore_bytes a (p + 16) (bytes32 (st_size st)) s4))))"

definition sys_fstat :: "8 word \<Rightarrow> 'a life_state_scheme \<Rightarrow> (cint \<times> 'a life_state_scheme) res" where
  "sys_fstat a s =
     bindR (argfd a 0 s) (\<lambda>(r, s1).
       case r of
         None \<Rightarrow> Inr (-1, s1)
       | Some (fd, f) \<Rightarrow>
           bindR (argptr a 1 20 s1) (\<lambda>(r, s2).
             case r of
               None \<Rightarrow> Inr (-1, s2)
             | Some p \<Rightarrow>
                 bindR (filestat a f s2) (\<lambda>(r, st, s3).
                   case st of
                     None \<Rightarrow> Inr (r, s3)
                   | Some st' \<Rightarrow> bindR (store_stat a p st' s3) (\<lambda>s4. Inr (r, s4)))))"

subsection \<open>Links\<close>

definition fail_op :: "8 word \<Rightarrow> 'a life_state_scheme \<Rightarrow> (cint \<times> 'a life_state_scheme) res" where
  "fail_op a s = bindR (end_op a s) (\<lambda>s1. Inr (-1, s1))"

definition link_bad :: "8 word \<Rightarrow> nat \<Rightarrow> 'a life_state_scheme \<Rightarrow> (cint \<times> 'a life_state_scheme) res" where
  "link_bad a ip s =
     bindR (ilock a (Some ip) s) (\<lambda>s1.
     bindR (iupdate a ip (i_upd ip (\<lambda>I. I\<lparr>i_nlink := i_nlink I - 1\<rparr>) s1)) (\<lambda>s2.
     bindR (iunlockput a ip s2) (fail_op a)))"

definition sys_link :: "8 word \<Rightarrow> 'a life_state_scheme \<Rightarrow> (cint \<times> 'a life_state_scheme) res" where
  "sys_link a s =
     bindR (argstr a 0 s) (\<lambda>(r0, s1).
       case r0 of
         None \<Rightarrow> Inr (-1, s1)
       | Some old \<Rightarrow>
           bindR (argstr a 1 s1) (\<lambda>(r1, s2).
             case r1 of
               None \<Rightarrow> Inr (-1, s2)
             | Some new \<Rightarrow>
                 bindR (begin_op a s2) (\<lambda>s3.
                 bindR (namei a old s3) (\<lambda>(q, s4).
                   case q of
                     None \<Rightarrow> fail_op a s4
                   | Some ip \<Rightarrow>
                       bindR (ilock a (Some ip) s4) (\<lambda>s5.
                         if i_type (inodes s5 ip) = T_DIR then bindR (iunlockput a ip s5) (fail_op a)
                         else
                           bindR (iupdate a ip (i_upd ip (\<lambda>I. I\<lparr>i_nlink := i_nlink I + 1\<rparr>) s5)) (\<lambda>s6.
                           bindR (iunlock a (Some ip) s6) (\<lambda>s7.
                           bindR (nameiparent a new s7) (\<lambda>(d, name, s8).
                             case d of
                               None \<Rightarrow> link_bad a ip s8
                             | Some dp \<Rightarrow>
                                 bindR (ilock a (Some dp) s8) (\<lambda>s9.
                                 bindR (if i_dev (inodes s9 dp) \<noteq> i_dev (inodes s9 ip) then Inr (-1, s9)
                                        else dirlink a dp name (i_inum (inodes s9 ip)) s9) (\<lambda>(r, s10).
                                   if sint r < 0 then bindR (iunlockput a dp s10) (link_bad a ip)
                                   else
                                     bindR (iunlockput a dp s10) (\<lambda>s11.
                                     bindR (iput a ip s11) (\<lambda>s12.
                                     bindR (end_op a s12) (\<lambda>s13. Inr (0, s13))))))))))))))"

fun isdirempty_loop :: "8 word \<Rightarrow> nat \<Rightarrow> nat list \<Rightarrow> 'a cons_state_scheme \<Rightarrow> (bool \<times> 'a cons_state_scheme) res" where
  "isdirempty_loop a dp [] s = Inr (True, s)"
| "isdirempty_loop a dp (off # offs) s =
     bindR (readi a dp (of_nat off) (of_nat DIRENT) s) (\<lambda>(r, de, s1).
       if r \<noteq> of_nat DIRENT then Inl (Panic ''isdirempty: readi'')
       else if de_inum de \<noteq> 0 then Inr (False, s1)
       else isdirempty_loop a dp offs s1)"

definition isdirempty :: "8 word \<Rightarrow> nat \<Rightarrow> 'a cons_state_scheme \<Rightarrow> (bool \<times> 'a cons_state_scheme) res" where
  "isdirempty a dp s = isdirempty_loop a dp (de_offsets 2 (i_size (inodes s dp))) s"

definition unlink_bad :: "8 word \<Rightarrow> nat \<Rightarrow> 'a life_state_scheme \<Rightarrow> (cint \<times> 'a life_state_scheme) res" where
  "unlink_bad a dp s = bindR (iunlockput a dp s) (fail_op a)"

definition unlink_entry ::
  "8 word \<Rightarrow> nat \<Rightarrow> nat \<Rightarrow> cuint \<Rightarrow> 'a life_state_scheme \<Rightarrow> (cint \<times> 'a life_state_scheme) res" where
  "unlink_entry a dp ip off s =
     bindR (writei a dp (replicate DIRENT 0) off (of_nat DIRENT) s) (\<lambda>(r, s1).
       if r \<noteq> of_nat DIRENT then Inl (Panic ''unlink: writei'')
       else
         bindR (if i_type (inodes s1 ip) = T_DIR
                then iupdate a dp (i_upd dp (\<lambda>I. I\<lparr>i_nlink := i_nlink I - 1\<rparr>) s1) else Inr s1) (\<lambda>s2.
         bindR (iunlockput a dp s2) (\<lambda>s3.
         bindR (iupdate a ip (i_upd ip (\<lambda>I. I\<lparr>i_nlink := i_nlink I - 1\<rparr>) s3)) (\<lambda>s4.
         bindR (iunlockput a ip s4) (\<lambda>s5.
         bindR (end_op a s5) (\<lambda>s6. Inr (0, s6)))))))"

definition sys_unlink :: "8 word \<Rightarrow> 'a life_state_scheme \<Rightarrow> (cint \<times> 'a life_state_scheme) res" where
  "sys_unlink a s =
     bindR (argstr a 0 s) (\<lambda>(r, s1).
       case r of
         None \<Rightarrow> Inr (-1, s1)
       | Some path \<Rightarrow>
           bindR (begin_op a s1) (\<lambda>s2.
           bindR (nameiparent a path s2) (\<lambda>(d, name, s3).
             case d of
               None \<Rightarrow> fail_op a s3
             | Some dp \<Rightarrow>
                 bindR (ilock a (Some dp) s3) (\<lambda>s4.
                   if namecmp name [46] = 0 \<or> namecmp name [46, 46] = 0 then unlink_bad a dp s4
                   else
                     bindR (dirlookup a dp name s4) (\<lambda>(r, s5).
                       case r of
                         None \<Rightarrow> unlink_bad a dp s5
                       | Some (ip, off) \<Rightarrow>
                           bindR (ilock a (Some ip) s5) (\<lambda>s6.
                             if sint (i_nlink (inodes s6 ip)) < 1 then Inl (Panic ''unlink: nlink < 1'')
                             else
                               bindR (if i_type (inodes s6 ip) = T_DIR then isdirempty a ip s6 else Inr (True, s6)) (\<lambda>(e, s7).
                                 if \<not> e then bindR (iunlockput a ip s7) (unlink_bad a dp)
                                 else unlink_entry a dp ip off s7)))))))"

subsection \<open>Creating and opening\<close>

definition make_dots :: "8 word \<Rightarrow> nat \<Rightarrow> nat \<Rightarrow> 'a cons_state_scheme \<Rightarrow> 'a cons_state_scheme res" where
  "make_dots a dp ip s =
     bindR (iupdate a dp (i_upd dp (\<lambda>I. I\<lparr>i_nlink := i_nlink I + 1\<rparr>) s)) (\<lambda>s1.
     bindR (dirlink a ip [46] (i_inum (inodes s1 ip)) s1) (\<lambda>(r, s2).
       if sint r < 0 then Inl (Panic ''create dots'')
       else bindR (dirlink a ip [46, 46] (i_inum (inodes s2 dp)) s2) (\<lambda>(r, s3).
         if sint r < 0 then Inl (Panic ''create dots'') else Inr s3)))"

definition create ::
  "8 word \<Rightarrow> cchar list \<Rightarrow> 16 word \<Rightarrow> 16 word \<Rightarrow> 16 word \<Rightarrow> 'a life_state_scheme \<Rightarrow> (nat option \<times> 'a life_state_scheme) res" where
  "create a path type major minor s =
     bindR (nameiparent a path s) (\<lambda>(d, name, s1).
       case d of
         None \<Rightarrow> Inr (None, s1)
       | Some dp \<Rightarrow>
           bindR (ilock a (Some dp) s1) (\<lambda>s2.
           bindR (dirlookup a dp name s2) (\<lambda>(r, s3).
             case r of
               Some (ip, off) \<Rightarrow>
                 bindR (iunlockput a dp s3) (\<lambda>s4.
                 bindR (ilock a (Some ip) s4) (\<lambda>s5.
                   if type = T_FILE \<and> i_type (inodes s5 ip) = T_FILE then Inr (Some ip, s5)
                   else bindR (iunlockput a ip s5) (\<lambda>s6. Inr (None, s6))))
             | None \<Rightarrow>
                 bindR (ialloc a (i_dev (inodes s3 dp)) type s3) (\<lambda>(ip, s4).
                 bindR (ilock a (Some ip) s4) (\<lambda>s5.
                 bindR (iupdate a ip (i_upd ip (\<lambda>I. I\<lparr>i_major := major, i_minor := minor, i_nlink := 1\<rparr>) s5)) (\<lambda>s6.
                 bindR (if type = T_DIR then make_dots a dp ip s6 else Inr s6) (\<lambda>s7.
                 bindR (dirlink a dp name (i_inum (inodes s7 ip)) s7) (\<lambda>(r, s8).
                   if sint r < 0 then Inl (Panic ''create: dirlink'')
                   else bindR (iunlockput a dp s8) (\<lambda>s9. Inr (Some ip, s9))))))))))"

text \<open>The part of \<^verbatim>\<open>sys_open\<close> after the inode is found and locked.\<close>

definition open_file :: "8 word \<Rightarrow> nat \<Rightarrow> cint \<Rightarrow> 'a life_state_scheme \<Rightarrow> (cint \<times> 'a life_state_scheme) res" where
  "open_file a ip omode s =
     bindR (filealloc a s) (\<lambda>(r, s1).
       case r of
         None \<Rightarrow> bindR (iunlockput a ip s1) (fail_op a)
       | Some f \<Rightarrow>
           bindR (fdalloc a f s1) (\<lambda>(r, s2).
             case r of
               None \<Rightarrow> bindR (fileclose a f s2) (\<lambda>s3. bindR (iunlockput a ip s3) (fail_op a))
             | Some fd \<Rightarrow>
                 bindR (iunlock a (Some ip) s2) (\<lambda>s3.
                 bindR (end_op a s3) (\<lambda>s4.
                 Inr (of_nat fd, f_upd f (\<lambda>F. F\<lparr>f_type := FD_INODE, f_ip := Some ip, f_off := 0,
                   f_readable := (if omode AND O_WRONLY = 0 then 1 else 0),
                   f_writable := (if omode AND O_WRONLY \<noteq> 0 \<or> omode AND O_RDWR \<noteq> 0 then 1 else 0)\<rparr>) s4)))))"

definition sys_open :: "8 word \<Rightarrow> 'a life_state_scheme \<Rightarrow> (cint \<times> 'a life_state_scheme) res" where
  "sys_open a s =
     bindR (argstr a 0 s) (\<lambda>(r, s1).
       case r of
         None \<Rightarrow> Inr (-1, s1)
       | Some path \<Rightarrow>
           bindR (argint a 1 s1) (\<lambda>(r, s2).
             case r of
               None \<Rightarrow> Inr (-1, s2)
             | Some omode \<Rightarrow>
                 bindR (begin_op a s2) (\<lambda>s3.
                   if omode AND O_CREATE \<noteq> 0 then
                     bindR (create a path T_FILE 0 0 s3) (\<lambda>(q, s4).
                       case q of None \<Rightarrow> fail_op a s4 | Some ip \<Rightarrow> open_file a ip omode s4)
                   else
                     bindR (namei a path s3) (\<lambda>(q, s4).
                       case q of
                         None \<Rightarrow> fail_op a s4
                       | Some ip \<Rightarrow>
                           bindR (ilock a (Some ip) s4) (\<lambda>s5.
                             if i_type (inodes s5 ip) = T_DIR \<and> omode \<noteq> O_RDONLY
                             then bindR (iunlockput a ip s5) (fail_op a)
                             else open_file a ip omode s5)))))"

definition finish_create ::
  "8 word \<Rightarrow> nat option \<times> 'a life_state_scheme \<Rightarrow> (cint \<times> 'a life_state_scheme) res" where
  "finish_create a qs =
     (case qs of (q, s) \<Rightarrow>
        (case q of
           None \<Rightarrow> fail_op a s
         | Some ip \<Rightarrow> bindR (iunlockput a ip s) (\<lambda>s1. bindR (end_op a s1) (\<lambda>s2. Inr (0, s2)))))"

definition sys_mkdir :: "8 word \<Rightarrow> 'a life_state_scheme \<Rightarrow> (cint \<times> 'a life_state_scheme) res" where
  "sys_mkdir a s =
     bindR (begin_op a s) (\<lambda>s1.
     bindR (argstr a 0 s1) (\<lambda>(r, s2).
       case r of
         None \<Rightarrow> fail_op a s2
       | Some path \<Rightarrow> bindR (create a path T_DIR 0 0 s2) (finish_create a)))"

definition sys_mknod :: "8 word \<Rightarrow> 'a life_state_scheme \<Rightarrow> (cint \<times> 'a life_state_scheme) res" where
  "sys_mknod a s =
     bindR (begin_op a s) (\<lambda>s1.
     bindR (argstr a 0 s1) (\<lambda>(r, s2).
       case r of
         None \<Rightarrow> fail_op a s2
       | Some path \<Rightarrow>
           bindR (argint a 1 s2) (\<lambda>(r, s3).
             case r of
               None \<Rightarrow> fail_op a s3
             | Some major \<Rightarrow>
                 bindR (argint a 2 s3) (\<lambda>(r, s4).
                   case r of
                     None \<Rightarrow> fail_op a s4
                   | Some minor \<Rightarrow> bindR (create a path T_DEV (ucast major) (ucast minor) s4) (finish_create a)))))"

definition sys_chdir :: "8 word \<Rightarrow> 'a life_state_scheme \<Rightarrow> (cint \<times> 'a life_state_scheme) res" where
  "sys_chdir a s =
     bindR (curproc a s) (\<lambda>(cur, s0).
     bindR (begin_op a s0) (\<lambda>s1.
     bindR (argstr a 0 s1) (\<lambda>(r, s2).
       case r of
         None \<Rightarrow> fail_op a s2
       | Some path \<Rightarrow>
           bindR (namei a path s2) (\<lambda>(q, s3).
             case q of
               None \<Rightarrow> fail_op a s3
             | Some ip \<Rightarrow>
                 bindR (ilock a (Some ip) s3) (\<lambda>s4.
                   if i_type (inodes s4 ip) \<noteq> T_DIR then bindR (iunlockput a ip s4) (fail_op a)
                   else
                     bindR (iunlock a (Some ip) s4) (\<lambda>s5.
                     bindR (deref ''cwd'' (p_cwd (proc_at s5 cur))) (\<lambda>d.
                     bindR (iput a d s5) (\<lambda>s6.
                     bindR (end_op a s6) (\<lambda>s7.
                     Inr (0, pr_upd cur (\<lambda>P. P\<lparr>p_cwd := Some ip\<rparr>) s7))))))))))"

subsection \<open>exec, pipe, lseek\<close>

text \<open>The argument vector; \<^const>\<open>None\<close> when \<^verbatim>\<open>sys_exec\<close> returns -1.\<close>

fun fetch_argv ::
  "8 word \<Rightarrow> cuint \<Rightarrow> nat \<Rightarrow> nat \<Rightarrow> 'a sched_state_scheme \<Rightarrow> (cchar list list option \<times> 'a sched_state_scheme) res" where
  "fetch_argv a uargv i 0 s = Inr (None, s)"
| "fetch_argv a uargv i (Suc k) s =
     bindR (fetchint a (uargv + 4 * of_nat i) s) (\<lambda>(r, s1).
       case r of
         None \<Rightarrow> Inr (None, s1)
       | Some uarg \<Rightarrow>
           if uarg = 0 then Inr (Some [], s1)
           else
             bindR (fetchstr a uarg s1) (\<lambda>(r, s2).
               case r of
                 None \<Rightarrow> Inr (None, s2)
               | Some str \<Rightarrow>
                   bindR (fetch_argv a uargv (Suc i) k s2) (\<lambda>(r, s3). Inr (map_option (\<lambda>cs. str # cs) r, s3))))"

definition sys_exec :: "8 word \<Rightarrow> 'a life_state_scheme \<Rightarrow> (cint \<times> 'a life_state_scheme) res" where
  "sys_exec a s =
     bindR (argstr a 0 s) (\<lambda>(r, s1).
       case r of
         None \<Rightarrow> Inr (-1, s1)
       | Some path \<Rightarrow>
           bindR (argint a 1 s1) (\<lambda>(r, s2).
             case r of
               None \<Rightarrow> Inr (-1, s2)
             | Some uargv \<Rightarrow>
                 bindR (fetch_argv a uargv 0 MAXARG s2) (\<lambda>(r, s3).
                   case r of None \<Rightarrow> Inr (-1, s3) | Some argv \<Rightarrow> exec a path argv s3)))"

definition close_both :: "8 word \<Rightarrow> nat \<Rightarrow> nat \<Rightarrow> 'a life_state_scheme \<Rightarrow> (cint \<times> 'a life_state_scheme) res" where
  "close_both a rfl wfl s =
     bindR (fileclose a rfl s) (\<lambda>s1. bindR (fileclose a wfl s1) (\<lambda>s2. Inr (-1, s2)))"

definition sys_pipe :: "8 word \<Rightarrow> 'a life_state_scheme \<Rightarrow> (cint \<times> 'a life_state_scheme) res" where
  "sys_pipe a s =
     bindR (argptr a 0 8 s) (\<lambda>(r, s1).
       case r of
         None \<Rightarrow> Inr (-1, s1)
       | Some fd \<Rightarrow>
           bindR (pipealloc a s1) (\<lambda>(r, s2).
             case r of
               None \<Rightarrow> Inr (-1, s2)
             | Some (rfl, wfl) \<Rightarrow>
                 bindR (fdalloc a rfl s2) (\<lambda>(r0, s3).
                   case r0 of
                     None \<Rightarrow> close_both a rfl wfl s3
                   | Some fd0 \<Rightarrow>
                       bindR (fdalloc a wfl s3) (\<lambda>(r1, s4).
                         case r1 of
                           None \<Rightarrow>
                             bindR (curproc a s4) (\<lambda>(p, s5).
                             close_both a rfl wfl (pr_upd p (\<lambda>P. P\<lparr>p_ofile := (p_ofile P)(fd0 := None)\<rparr>) s5))
                         | Some fd1 \<Rightarrow>
                             bindR (ustore_bytes a fd (bytes32 (of_nat fd0)) s4) (\<lambda>s5.
                             bindR (ustore_bytes a (fd + 4) (bytes32 (of_nat fd1)) s5) (\<lambda>s6. Inr (0, s6)))))))"

definition sys_lseek :: "8 word \<Rightarrow> 'a life_state_scheme \<Rightarrow> (cint \<times> 'a life_state_scheme) res" where
  "sys_lseek a s =
     bindR (argint a 0 s) (\<lambda>(r0, s1).
       case r0 of None \<Rightarrow> Inr (-1, s1) | Some fd \<Rightarrow>
     bindR (argint a 1 s1) (\<lambda>(r1, s2).
       case r1 of None \<Rightarrow> Inr (-1, s2) | Some offset \<Rightarrow>
     bindR (argint a 2 s2) (\<lambda>(r2, s3).
       case r2 of None \<Rightarrow> Inr (-1, s3) | Some whence \<Rightarrow>
     if sint fd < 0 \<or> int NOFILE \<le> sint fd then Inr (-1, s3)
     else bindR (curproc a s3) (\<lambda>(p, s4).
       case p_ofile (proc_at s4 p) (unat fd) of None \<Rightarrow> Inr (-1, s4) | Some f \<Rightarrow>
     if f_type (files s4 f) \<noteq> FD_INODE then Inr (-1, s4)
     else bindR (deref ''f->ip'' (f_ip (files s4 f))) (\<lambda>ip.
     bindR (acquiresleep a (L_inode ip) s4) (\<lambda>s5.
       let off' = (if whence = 0 then Some offset
                   else if whence = 1 then Some (f_off (files s5 f) + offset)
                   else if whence = 2 then Some (i_size (inodes s5 ip) + offset)
                   else None)
       in case off' of
            None \<Rightarrow> bindR (releasesleep a (L_inode ip) s5) (\<lambda>s6. Inr (-1, s6))
          | Some off \<Rightarrow>
              if sint off < 0 then bindR (releasesleep a (L_inode ip) s5) (\<lambda>s6. Inr (-1, s6))
              else bindR (releasesleep a (L_inode ip) (f_upd f (\<lambda>F. F\<lparr>f_off := off\<rparr>) s5)) (\<lambda>s6. Inr (off, s6))))))))"

end
