(* ===== verification/Kbd.thy ===== *)
theory Kbd
  imports Console
begin

section \<open>Keyboard (kbd.c, kbd.h)\<close>

text \<open>
  Scan codes to characters.  The key maps are tables of 256 bytes; entries the source does not
  name are 0.  Special keys have the codes from 0xE0 on.
\<close>

subsection \<open>Key maps\<close>

definition K_SHIFT :: cuint where "K_SHIFT = 1"
definition K_CTL :: cuint where "K_CTL = 2"
definition K_ALT :: cuint where "K_ALT = 4"
definition CAPSLOCK :: cuint where "CAPSLOCK = 8"
definition NUMLOCK :: cuint where "NUMLOCK = 16"
definition SCROLLLOCK :: cuint where "SCROLLLOCK = 32"
definition E0ESC :: cuint where "E0ESC = 64"

definition lookup :: "(nat \<times> cuint) list \<Rightarrow> nat \<Rightarrow> cuint" where
  "lookup t i = (case map_of t i of Some v \<Rightarrow> v | None \<Rightarrow> 0)"

definition shiftcode :: "nat \<Rightarrow> cuint" where
  "shiftcode = lookup [(0x1D, K_CTL), (0x2A, K_SHIFT), (0x36, K_SHIFT), (0x38, K_ALT), (0x9D, K_CTL), (0xB8, K_ALT)]"

definition togglecode :: "nat \<Rightarrow> cuint" where
  "togglecode = lookup [(0x3A, CAPSLOCK), (0x45, NUMLOCK), (0x46, SCROLLLOCK)]"

text \<open>The entries that the three maps share: arrows and the keys around them.\<close>

definition special_keys :: "(nat \<times> cuint) list" where
  "special_keys =
     [(0xC8, 0xE2), (0xD0, 0xE3), (0xC9, 0xE6), (0xD1, 0xE7), (0xCB, 0xE4), (0xCD, 0xE5),
      (0x97, 0xE0), (0xCF, 0xE1), (0xD2, 0xE8), (0xD3, 0xE9)]"

definition table_map :: "cuint list \<Rightarrow> (nat \<times> cuint) list \<Rightarrow> nat \<Rightarrow> cuint" where
  "table_map xs t i = (if i < length xs then xs ! i else lookup t i)"

definition ascii :: "string \<Rightarrow> cuint list" where
  "ascii cs = map (\<lambda>c. of_nat (of_char c)) cs"

definition normalmap :: "nat \<Rightarrow> cuint" where
  "normalmap = table_map
     ([0, 0x1B] @ ascii ''1234567890-='' @ [8, 9] @ ascii ''qwertyuiop[]'' @ [10, 0] @ ascii ''asdfghjkl;'' @
      [39, 96, 0, 92] @ ascii ''zxcvbnm,./'' @ [0, 42, 0, 32, 0, 0, 0, 0, 0, 0, 0, 0, 0, 0, 0, 0, 0] @
      ascii ''789-456+1230.'' @ [0, 0, 0, 0])
     ([(0x9C, 10), (0xB5, 47)] @ special_keys)"

definition shiftmap :: "nat \<Rightarrow> cuint" where
  "shiftmap = table_map
     ([0, 27] @ ascii ''!@#$%^&*()_+'' @ [8, 9] @ ascii ''QWERTYUIOP{}'' @ [10, 0] @ ascii ''ASDFGHJKL:'' @
      [34, 126, 0, 124] @ ascii ''ZXCVBNM<>?'' @ [0, 42, 0, 32, 0, 0, 0, 0, 0, 0, 0, 0, 0, 0, 0, 0, 0] @
      ascii ''789-456+1230.'' @ [0, 0, 0, 0])
     ([(0x9C, 10), (0xB5, 47)] @ special_keys)"

text \<open>\<^verbatim>\<open>C(x)\<close> is \<^verbatim>\<open>x - '@'\<close>; for the slash that is negative and stored in a byte.\<close>

definition control :: "string \<Rightarrow> cuint list" where
  "control cs = map (\<lambda>x. (x - 64) AND 0xFF) (ascii cs)"

definition ctlmap :: "nat \<Rightarrow> cuint" where
  "ctlmap = table_map
     (replicate 16 0 @ control ''QWERTYUIOP'' @ [0, 0, 13, 0] @ control ''ASDFGHJKL'' @ [0, 0, 0, 0, 28] @
      control ''ZXCVBNM'' @ [0, 0] @ control ''/'' @ [0, 0])
     ([(0x9C, 13), (0xB5, 0xEF)] @ special_keys)"

subsection \<open>Reading a key\<close>

definition capital :: "cuint \<Rightarrow> cuint" where
  "capital c = (if 97 \<le> c \<and> c \<le> 122 then c - 32 else if 65 \<le> c \<and> c \<le> 90 then c + 32 else c)"

text \<open>
  \<^verbatim>\<open>kbdgetc\<close> with the shift state and the byte in the keyboard controller, if there is one;
  the result is the return value and the new shift state.
\<close>

definition kbdgetc :: "cuint \<Rightarrow> cchar option \<Rightarrow> cint \<times> cuint" where
  "kbdgetc shift k =
     (case k of
        None \<Rightarrow> (-1, shift)
      | Some b \<Rightarrow>
          let data = ucast b :: cuint in
          if data = 0xE0 then (0, shift OR E0ESC)
          else if data AND 0x80 \<noteq> 0 then
            let d = (if shift AND E0ESC \<noteq> 0 then data else data AND 0x7F)
            in (0, shift AND NOT (shiftcode (unat d) OR E0ESC))
          else
            let (d, sh1) = (if shift AND E0ESC \<noteq> 0 then (data OR 0x80, shift AND NOT E0ESC) else (data, shift));
                sh2 = sh1 OR shiftcode (unat d);
                sh3 = sh2 XOR togglecode (unat d);
                m = [normalmap, shiftmap, ctlmap, ctlmap] ! unat (sh3 AND (K_CTL OR K_SHIFT));
                c = m (unat d)
            in (if sh3 AND CAPSLOCK \<noteq> 0 then capital c else c, sh3))"

text \<open>The characters \<^verbatim>\<open>consoleintr\<close> gets from \<^verbatim>\<open>kbdgetc\<close> before the controller is empty.\<close>

fun kbd_chars :: "cuint \<Rightarrow> cchar list \<Rightarrow> cint list \<times> cuint" where
  "kbd_chars shift [] = ([], shift)"
| "kbd_chars shift (b # bs) =
     (let (c, sh1) = kbdgetc shift (Some b); (cs, sh2) = kbd_chars sh1 bs in (c # cs, sh2))"

end
