(* ===== verification/Syscall.thy ===== *)
theory Syscall
  imports Sysfile Kbd
begin

section \<open>Process calls, system call dispatch and traps (sysproc.c, syscall.c, trap.c)\<close>

text \<open>
  \<open>syscall\<close> runs the call whose number is in the saved \<^verbatim>\<open>eax\<close>; \<open>trap\<close> is the handler of
  every interrupt.  Both may end by leaving the CPU for the scheduler instead of returning:
  \<open>Left\<close> is \<^verbatim>\<open>exit\<close>, which never comes back, and \<open>Yielded\<close> is the call of \<^verbatim>\<open>yield\<close> at the
  end of a timer interrupt, with the saved \<^verbatim>\<open>intena\<close>; \<open>trap_resume\<close> is what follows when
  the process is scheduled again.  The bytes waiting in the keyboard controller and in the
  serial port are part of the state.  Messages and the acknowledgement of interrupts are not
  modelled.
\<close>

record trap_state = life_state +
  kbd_shift :: cuint
  kbd_data :: "cchar list"
  uart_data :: "cchar list"

datatype trap_end = Returned | Left | Yielded cint

subsection \<open>Process calls\<close>

definition sys_fork :: "8 word \<Rightarrow> 'a life_state_scheme \<Rightarrow> (cint \<times> 'a life_state_scheme) res" where
  "sys_fork a s = fork a s"

definition sys_wait :: "8 word \<Rightarrow> 'a life_state_scheme \<Rightarrow> (cint \<times> 'a life_state_scheme) res" where
  "sys_wait a s = wait a s"

definition sys_kill :: "8 word \<Rightarrow> 'a sched_state_scheme \<Rightarrow> (cint \<times> 'a sched_state_scheme) res" where
  "sys_kill a s =
     bindR (argint a 0 s) (\<lambda>(r, s1). case r of None \<Rightarrow> Inr (-1, s1) | Some pid \<Rightarrow> kill a pid s1)"

definition sys_getpid :: "8 word \<Rightarrow> 'a sched_state_scheme \<Rightarrow> (cint \<times> 'a sched_state_scheme) res" where
  "sys_getpid a s = bindR (curproc a s) (\<lambda>(p, s1). Inr (p_pid (proc_at s1 p), s1))"

definition sys_sbrk :: "8 word \<Rightarrow> 'a sched_state_scheme \<Rightarrow> (cint \<times> 'a sched_state_scheme) res" where
  "sys_sbrk a s =
     bindR (argint a 0 s) (\<lambda>(r, s1).
       case r of
         None \<Rightarrow> Inr (-1, s1)
       | Some n \<Rightarrow>
           bindR (curproc a s1) (\<lambda>(p, s2).
           let addr = p_sz (proc_at s2 p) in
           bindR (growproc a n s2) (\<lambda>(r, s3). Inr (if sint r < 0 then -1 else addr, s3))))"

text \<open>
  One test of the loop of \<^verbatim>\<open>sys_sleep\<close>, with \<^verbatim>\<open>tickslock\<close> held: the difference and the
  comparison are unsigned.
\<close>

definition sleep_turn :: "8 word \<Rightarrow> cuint \<Rightarrow> cint \<Rightarrow> 'a sched_state_scheme \<Rightarrow> (wait_end \<times> 'a sched_state_scheme) res" where
  "sleep_turn a ticks0 n s =
     (if ticks s - ticks0 < n then
        bindR (curproc a s) (\<lambda>(p, s1). Inr (if p_killed (proc_at s1 p) \<noteq> 0 then Killed else Waits, s1))
      else Inr (Finished, s))"

definition sys_sleep :: "8 word \<Rightarrow> 'a sched_state_scheme \<Rightarrow> (cint \<times> 'a sched_state_scheme) res" where
  "sys_sleep a s =
     bindR (argint a 0 s) (\<lambda>(r, s1).
       case r of
         None \<Rightarrow> Inr (-1, s1)
       | Some n \<Rightarrow>
           bindR (acquire a L_ticks s1) (\<lambda>s2.
           bindR (sleep_turn a (ticks s2) n s2) (\<lambda>(w, s3).
             case w of
               Waits \<Rightarrow> Inl Blocks
             | Killed \<Rightarrow> bindR (release a L_ticks s3) (\<lambda>s4. Inr (-1, s4))
             | Finished \<Rightarrow> bindR (release a L_ticks s3) (\<lambda>s4. Inr (0, s4)))))"

definition sys_uptime :: "8 word \<Rightarrow> 'a sched_state_scheme \<Rightarrow> (cint \<times> 'a sched_state_scheme) res" where
  "sys_uptime a s =
     bindR (acquire a L_ticks s) (\<lambda>s1.
       let xticks = ticks s1 in bindR (release a L_ticks s1) (\<lambda>s2. Inr (xticks, s2)))"

text \<open>The five arguments are fetched in order and taken as they are.\<close>

fun argints :: "8 word \<Rightarrow> nat list \<Rightarrow> 'a sched_state_scheme \<Rightarrow> (cint list option \<times> 'a sched_state_scheme) res" where
  "argints a [] s = Inr (Some [], s)"
| "argints a (n # ns) s =
     bindR (argint a n s) (\<lambda>(r, s1).
       case r of
         None \<Rightarrow> Inr (None, s1)
       | Some x \<Rightarrow> bindR (argints a ns s1) (\<lambda>(r, s2). Inr (map_option (\<lambda>xs. x # xs) r, s2)))"

definition set_info :: "cint list \<Rightarrow> proc \<Rightarrow> proc" where
  "set_info xs P =
     P\<lparr>p_q_level := xs ! 0, p_cpu_burst := xs ! 1, p_cpu_wait := xs ! 2, p_io_wait_time := xs ! 3, p_end_time := xs ! 4\<rparr>"

definition sys_set_proc_info :: "8 word \<Rightarrow> 'a sched_state_scheme \<Rightarrow> (cint \<times> 'a sched_state_scheme) res" where
  "sys_set_proc_info a s =
     bindR (myproc a s) (\<lambda>(q, s1).
     bindR (argints a [0..<5] s1) (\<lambda>(r, s2).
       case r of
         None \<Rightarrow> Inr (-1, s2)
       | Some xs \<Rightarrow>
           bindR (acquire a L_ptable s2) (\<lambda>s3.
           bindR (deref ''p'' q) (\<lambda>p.
           bindR (release a L_ptable (upd_pt (p_upd p (set_info xs)) s3)) (\<lambda>s4. Inr (0, s4))))))"

subsection \<open>Dispatch\<close>

definition syscalls :: "nat \<Rightarrow> (8 word \<Rightarrow> 'a life_state_scheme \<Rightarrow> (cint \<times> 'a life_state_scheme) res) option" where
  "syscalls num =
     (if num = 1 then Some sys_fork else if num = 3 then Some sys_wait else if num = 4 then Some sys_pipe
      else if num = 5 then Some sys_read else if num = 6 then Some sys_kill else if num = 7 then Some sys_exec
      else if num = 8 then Some sys_fstat else if num = 9 then Some sys_chdir else if num = 10 then Some sys_dup
      else if num = 11 then Some sys_getpid else if num = 12 then Some sys_sbrk else if num = 13 then Some sys_sleep
      else if num = 14 then Some sys_uptime else if num = 15 then Some sys_open else if num = 16 then Some sys_write
      else if num = 17 then Some sys_mknod else if num = 18 then Some sys_unlink else if num = 19 then Some sys_link
      else if num = 20 then Some sys_mkdir else if num = 21 then Some sys_close else if num = 22 then Some sys_lseek
      else if num = 23 then Some sys_set_proc_info else None)"

text \<open>Number 2 is \<^verbatim>\<open>sys_exit\<close>.\<close>

definition syscall :: "8 word \<Rightarrow> 'a life_state_scheme \<Rightarrow> (trap_end \<times> 'a life_state_scheme) res" where
  "syscall a s =
     bindR (curproc a s) (\<lambda>(p, s1).
       let num = tf_load (p_tf (proc_at s1 p)) TF_EAX s1 in
       if num = 2 then bindR (exit_pre a s1) (\<lambda>(_, s2). Inr (Left, s2))
       else case (if 0 < sint num \<and> sint num < 24 then syscalls (unat num) else None) of
         Some f \<Rightarrow> bindR (f a s1) (\<lambda>(r, s2). Inr (Returned, tf_store (p_tf (proc_at s2 p)) TF_EAX r s2))
       | None \<Rightarrow> Inr (Returned, tf_store (p_tf (proc_at s1 p)) TF_EAX (-1) s1))"

subsection \<open>Traps\<close>

definition T_SYSCALL :: cuint where "T_SYSCALL = 64"
definition T_IRQ0 :: cuint where "T_IRQ0 = 32"
definition IRQ_TIMER :: cuint where "IRQ_TIMER = 0"
definition IRQ_KBD :: cuint where "IRQ_KBD = 1"
definition IRQ_COM1 :: cuint where "IRQ_COM1 = 4"
definition IRQ_IDE :: cuint where "IRQ_IDE = 14"
definition IRQ_SPURIOUS :: cuint where "IRQ_SPURIOUS = 31"

definition from_user :: "cuint \<Rightarrow> 'a kmem_state_scheme \<Rightarrow> bool" where
  "from_user tf s \<longleftrightarrow> tf_load tf TF_CS s AND 3 = 3"

definition kbdintr :: "8 word \<Rightarrow> 'a trap_state_scheme \<Rightarrow> 'a trap_state_scheme res" where
  "kbdintr a s =
     (let (cs, sh) = kbd_chars (kbd_shift s) (kbd_data s) in
      bindR (consoleintr a cs (s\<lparr>kbd_shift := sh, kbd_data := []\<rparr>)) (\<lambda>(_, s1). Inr s1))"

definition uartintr :: "8 word \<Rightarrow> 'a trap_state_scheme \<Rightarrow> 'a trap_state_scheme res" where
  "uartintr a s =
     (if uart s = 0 then bindR (consoleintr a [] s) (\<lambda>(_, s1). Inr s1)
      else bindR (consoleintr a (map ucast (uart_data s)) (s\<lparr>uart_data := []\<rparr>)) (\<lambda>(_, s1). Inr s1))"

definition trap_fault :: "8 word \<Rightarrow> cuint \<Rightarrow> 'a sched_state_scheme \<Rightarrow> 'a sched_state_scheme res" where
  "trap_fault a tf s =
     bindR (myproc a s) (\<lambda>(q, s1).
       case q of
         None \<Rightarrow> Inl (Panic ''trap'')
       | Some p \<Rightarrow>
           if tf_load tf TF_CS s1 AND 3 = 0 then Inl (Panic ''trap'')
           else Inr (pr_upd p (\<lambda>P. P\<lparr>p_killed := 1\<rparr>) s1))"

definition trap_irq :: "8 word \<Rightarrow> cuint \<Rightarrow> 'a trap_state_scheme \<Rightarrow> 'a trap_state_scheme res" where
  "trap_irq a tf s =
     (let no = tf_load tf TF_TRAPNO s in
      if no = T_IRQ0 + IRQ_TIMER then trap_timer a s
      else if no = T_IRQ0 + IRQ_IDE then ideintr a s
      else if no = T_IRQ0 + IRQ_IDE + 1 then Inr s
      else if no = T_IRQ0 + IRQ_KBD then kbdintr a s
      else if no = T_IRQ0 + IRQ_COM1 then uartintr a s
      else if no = T_IRQ0 + 7 \<or> no = T_IRQ0 + IRQ_SPURIOUS then Inr s
      else trap_fault a tf s)"

text \<open>Whether the current process, if there is one, is killed and was interrupted in user mode.\<close>

definition must_exit :: "8 word \<Rightarrow> cuint \<Rightarrow> 'a sched_state_scheme \<Rightarrow> (bool \<times> 'a sched_state_scheme) res" where
  "must_exit a tf s =
     bindR (myproc a s) (\<lambda>(q, s1).
       Inr (case q of None \<Rightarrow> False | Some p \<Rightarrow> p_killed (proc_at s1 p) \<noteq> 0 \<and> from_user tf s1, s1))"

definition trap_return :: "8 word \<Rightarrow> cuint \<Rightarrow> 'a trap_state_scheme \<Rightarrow> (trap_end \<times> 'a trap_state_scheme) res" where
  "trap_return a tf s =
     bindR (must_exit a tf s) (\<lambda>(e, s1).
       if e then bindR (exit_pre a s1) (\<lambda>(_, s2). Inr (Left, s2)) else Inr (Returned, s1))"

definition trap_resume :: "8 word \<Rightarrow> cint \<Rightarrow> cuint \<Rightarrow> 'a trap_state_scheme \<Rightarrow> (trap_end \<times> 'a trap_state_scheme) res" where
  "trap_resume a ie tf s = bindR (yield_post a ie s) (trap_return a tf)"

definition trap :: "8 word \<Rightarrow> cuint \<Rightarrow> 'a trap_state_scheme \<Rightarrow> (trap_end \<times> 'a trap_state_scheme) res" where
  "trap a tf s =
     (if tf_load tf TF_TRAPNO s = T_SYSCALL then
        bindR (curproc a s) (\<lambda>(p, s1).
          if p_killed (proc_at s1 p) \<noteq> 0 then bindR (exit_pre a s1) (\<lambda>(_, s2). Inr (Left, s2))
          else
            bindR (syscall a (pr_upd p (\<lambda>P. P\<lparr>p_tf := tf\<rparr>) s1)) (\<lambda>(e, s2).
              if e \<noteq> Returned then Inr (e, s2)
              else
                bindR (curproc a s2) (\<lambda>(p, s3).
                  if p_killed (proc_at s3 p) \<noteq> 0 then bindR (exit_pre a s3) (\<lambda>(_, s4). Inr (Left, s4))
                  else Inr (Returned, s3))))
      else
        bindR (trap_irq a tf s) (\<lambda>s1.
        bindR (must_exit a tf s1) (\<lambda>(e, s2).
          if e then bindR (exit_pre a s2) (\<lambda>(_, s3). Inr (Left, s3))
          else
            bindR (myproc a s2) (\<lambda>(q, s3).
              case q of
                None \<Rightarrow> trap_return a tf s3
              | Some p \<Rightarrow>
                  if p_state (proc_at s3 p) = RUNNING \<and> tf_load tf TF_TRAPNO s3 = T_IRQ0 + IRQ_TIMER
                  then bindR (yield_pre a s3) (\<lambda>(ie, s4). Inr (Yielded ie, s4))
                  else trap_return a tf s3))))"

end
