(* ===== verification/Ulib.thy ===== *)
theory Ulib
  imports Sysfile
begin

section \<open>The user library (user.h, ulib.c, printf.c)\<close>

text \<open>
  User programs see the kernel only through its system calls.  \<open>calls\<close> has one function for
  each of them (user.h), over a world \<open>'w\<close> that stands for the rest of the machine; a program is a
  function of such a record, so that it can be run on any kernel and input.  \<^verbatim>\<open>fork\<close>
  returns twice in the machine; here a world settles which of the two returns is followed.
  A program that never stops has the value \<^const>\<open>None\<close>.  The string functions work on the
  memory of the process, like those of the kernel.
\<close>

subsection \<open>System calls and programs\<close>

record 'w calls =
  u_fork :: "'w \<Rightarrow> cint \<times> 'w"
  u_wait :: "'w \<Rightarrow> cint \<times> 'w"
  u_pipe :: "'w \<Rightarrow> (cint \<times> cint \<times> cint) \<times> 'w"
  u_write :: "cint \<Rightarrow> cchar list \<Rightarrow> 'w \<Rightarrow> cint \<times> 'w"
  u_read :: "cint \<Rightarrow> cint \<Rightarrow> 'w \<Rightarrow> (cint \<times> cchar list) \<times> 'w"
  u_close :: "cint \<Rightarrow> 'w \<Rightarrow> cint \<times> 'w"
  u_kill :: "cint \<Rightarrow> 'w \<Rightarrow> cint \<times> 'w"
  u_exec :: "cchar list \<Rightarrow> cchar list list \<Rightarrow> 'w \<Rightarrow> 'w + cint \<times> 'w"
  u_open :: "cchar list \<Rightarrow> cint \<Rightarrow> 'w \<Rightarrow> cint \<times> 'w"
  u_mknod :: "cchar list \<Rightarrow> 16 word \<Rightarrow> 16 word \<Rightarrow> 'w \<Rightarrow> cint \<times> 'w"
  u_unlink :: "cchar list \<Rightarrow> 'w \<Rightarrow> cint \<times> 'w"
  u_fstat :: "cint \<Rightarrow> 'w \<Rightarrow> (cint \<times> stat) \<times> 'w"
  u_link :: "cchar list \<Rightarrow> cchar list \<Rightarrow> 'w \<Rightarrow> cint \<times> 'w"
  u_mkdir :: "cchar list \<Rightarrow> 'w \<Rightarrow> cint \<times> 'w"
  u_chdir :: "cchar list \<Rightarrow> 'w \<Rightarrow> cint \<times> 'w"
  u_dup :: "cint \<Rightarrow> 'w \<Rightarrow> cint \<times> 'w"
  u_getpid :: "'w \<Rightarrow> cint \<times> 'w"
  u_sbrk :: "cint \<Rightarrow> 'w \<Rightarrow> cuint \<times> 'w"
  u_sleep :: "cint \<Rightarrow> 'w \<Rightarrow> cint \<times> 'w"
  u_uptime :: "'w \<Rightarrow> cint \<times> 'w"
  u_lseek :: "cint \<Rightarrow> cint \<Rightarrow> cint \<Rightarrow> 'w \<Rightarrow> cint \<times> 'w"
  u_set_proc_info :: "cint \<Rightarrow> cint \<Rightarrow> cint \<Rightarrow> cint \<Rightarrow> cint \<Rightarrow> 'w \<Rightarrow> cint \<times> 'w"

text \<open>
  How a program stops: by \<^verbatim>\<open>exit()\<close>, by replacing itself with another program, or by an
  access C leaves undefined.
\<close>

datatype 'w uend = Exited 'w | Execed 'w | Faults string

type_synonym ('x, 'w) act = "'w \<Rightarrow> ('w uend + 'x \<times> 'w) option"

definition retU :: "'x \<Rightarrow> ('x, 'w) act" where
  "retU x w = Some (Inr (x, w))"

definition exitU :: "('x, 'w) act" where
  "exitU w = Some (Inl (Exited w))"

definition faultU :: "string \<Rightarrow> ('x, 'w) act" where
  "faultU what w = Some (Inl (Faults what))"

definition bindU :: "('x, 'w) act \<Rightarrow> ('x \<Rightarrow> ('y, 'w) act) \<Rightarrow> ('y, 'w) act" where
  "bindU m f w = Option.bind (m w) (\<lambda>r. case r of Inl e \<Rightarrow> Some (Inl e) | Inr (x, w1) \<Rightarrow> f x w1)"

definition sysU :: "('w \<Rightarrow> 'x \<times> 'w) \<Rightarrow> ('x, 'w) act" where
  "sysU c w = Some (Inr (c w))"

abbreviation seqU :: "('x, 'w) act \<Rightarrow> ('y, 'w) act \<Rightarrow> ('y, 'w) act" where
  "seqU m n \<equiv> bindU m (\<lambda>_. n)"

lemma retU_bind [simp]: "bindU (retU x) f = f x"
  by (rule ext) (simp add: bindU_def retU_def)

lemma exitU_bind [simp]: "bindU exitU f = exitU"
  by (rule ext) (simp add: bindU_def exitU_def)

lemma sysU_bind: "bindU (sysU c) f w = f (fst (c w)) (snd (c w))"
  by (simp add: bindU_def sysU_def case_prod_beta)

lemma bindU_assoc: "bindU (bindU m f) g = bindU m (\<lambda>x. bindU (f x) g)"
  by (rule ext) (auto simp: bindU_def split: sum.splits option.splits bind_splits)

lemma bindU_mono [partial_function_mono]:
  assumes "mono_option (\<lambda>f. m f w)" and "\<And>x w1. mono_option (\<lambda>f. n f x w1)"
  shows "mono_option (\<lambda>f. bindU (m f) (n f) w)"
  unfolding bindU_def
proof (rule bind_mono[OF assms(1)])
  fix r
  show "mono_option (\<lambda>f. case r of Inl e \<Rightarrow> Some (Inl e) | Inr (x, w1) \<Rightarrow> n f x w1)"
    using assms(2) by (cases r) (auto simp: case_prod_beta intro: option.const_mono)
qed

text \<open>A \<^verbatim>\<open>for\<close> loop over a list.\<close>

fun forU :: "('x \<Rightarrow> (unit, 'w) act) \<Rightarrow> 'x list \<Rightarrow> (unit, 'w) act" where
  "forU f [] = retU ()"
| "forU f (x # xs) = seqU (f x) (forU f xs)"

subsection \<open>Memory and strings\<close>

text \<open>The loops that stop only at a NUL may run forever, hence \<open>option\<close>.\<close>

partial_function (option) u_strcpy :: "memory \<Rightarrow> cuint \<Rightarrow> cuint \<Rightarrow> memory option" where
  "u_strcpy m s t = (if m t = 0 then Some (m(s := m t)) else u_strcpy (m(s := m t)) (s + 1) (t + 1))"

partial_function (option) u_strcmp :: "memory \<Rightarrow> cuint \<Rightarrow> cuint \<Rightarrow> int option" where
  "u_strcmp m p q = (if m p \<noteq> 0 \<and> m p = m q then u_strcmp m (p + 1) (q + 1) else Some (uint (m p) - uint (m q)))"

partial_function (option) u_strlen_from :: "memory \<Rightarrow> cuint \<Rightarrow> cint \<Rightarrow> cint option" where
  "u_strlen_from m s n = (if m (s + n) = 0 then Some n else u_strlen_from m s (n + 1))"

definition u_strlen :: "memory \<Rightarrow> cuint \<Rightarrow> cint option" where
  "u_strlen m s = u_strlen_from m s 0"

definition u_memset :: "cuint \<Rightarrow> cint \<Rightarrow> cuint \<Rightarrow> memory \<Rightarrow> memory" where
  "u_memset dst c n m = stosb (unat n) dst (ucast c) m"

partial_function (option) u_strchr :: "memory \<Rightarrow> cuint \<Rightarrow> cchar \<Rightarrow> cuint option" where
  "u_strchr m s c = (if m s = 0 then Some 0 else if m s = c then Some s else u_strchr m (s + 1) c)"

partial_function (option) atoi_from :: "memory \<Rightarrow> cuint \<Rightarrow> cint \<Rightarrow> cint option" where
  "atoi_from m s n =
     (if 48 \<le> m s \<and> m s \<le> 57 then atoi_from m (s + 1) (n * 10 + ucast (m s) - 48) else Some n)"

definition atoi :: "memory \<Rightarrow> cuint \<Rightarrow> cint option" where
  "atoi m s = atoi_from m s 0"

definition u_memmove :: "cuint \<Rightarrow> cuint \<Rightarrow> cint \<Rightarrow> memory \<Rightarrow> memory" where
  "u_memmove vdst vsrc n m = copy_up (nat (sint n)) vdst vsrc m"

text \<open>The bytes \<^verbatim>\<open>gets\<close> stores before the NUL; \<open>k\<close> is how many still fit.\<close>

fun gets_loop :: "'w calls \<Rightarrow> nat \<Rightarrow> (cchar list, 'w) act" where
  "gets_loop k 0 = retU []"
| "gets_loop k (Suc n) =
     bindU (sysU (u_read k 0 1)) (\<lambda>(cc, bs).
       if sint cc < 1 then retU []
       else case bs of
              [] \<Rightarrow> faultU ''read''
            | c # _ \<Rightarrow> if c = 10 \<or> c = 13 then retU [c]
                       else bindU (gets_loop k n) (\<lambda>cs. retU (c # cs)))"

definition u_gets :: "'w calls \<Rightarrow> nat \<Rightarrow> (cchar list, 'w) act" where
  "u_gets k nmax = gets_loop k (nmax - 1)"

text \<open>\<^verbatim>\<open>stat\<close>: the return value and, when it is not negative, the status.\<close>

definition u_stat :: "'w calls \<Rightarrow> cchar list \<Rightarrow> (cint \<times> stat option, 'w) act" where
  "u_stat k n =
     bindU (sysU (u_open k n O_RDONLY)) (\<lambda>fd.
       if sint fd < 0 then retU (-1, None)
       else bindU (sysU (u_fstat k fd)) (\<lambda>(r, st).
            seqU (sysU (u_close k fd)) (retU (r, if sint r < 0 then None else Some st))))"

subsection \<open>printf\<close>

definition u_putc :: "'w calls \<Rightarrow> cint \<Rightarrow> cchar \<Rightarrow> (unit, 'w) act" where
  "u_putc k fd c = seqU (sysU (u_write k fd [c])) (retU ())"

definition u_digits :: "cchar list" where
  "u_digits = [48, 49, 50, 51, 52, 53, 54, 55, 56, 57, 65, 66, 67, 68, 69, 70]"

definition u_printint_chars :: "cint \<Rightarrow> nat \<Rightarrow> bool \<Rightarrow> cchar list" where
  "u_printint_chars xx base sign =
     (let neg = sign \<and> sint xx < 0;
          x = (if neg then - xx else xx)
      in rev (rev_digits u_digits base (unat x) @ (if neg then [45] else [])))"

definition u_printint :: "'w calls \<Rightarrow> cint \<Rightarrow> cint \<Rightarrow> nat \<Rightarrow> bool \<Rightarrow> (unit, 'w) act" where
  "u_printint k fd xx base sign = forU (u_putc k fd) (u_printint_chars xx base sign)"

text \<open>An argument of \<^verbatim>\<open>printf\<close>: a word, or the address of a string (or null).\<close>

datatype uarg = Num cuint | Str "cchar list option"

fun u_printf_loop :: "'w calls \<Rightarrow> cint \<Rightarrow> cchar list \<Rightarrow> uarg list \<Rightarrow> (unit, 'w) act" where
  "u_printf_loop k fd [] ap = retU ()"
| "u_printf_loop k fd [c] ap = (if c = 37 then retU () else u_putc k fd c)"
| "u_printf_loop k fd (c # d # cs) ap =
     (if c \<noteq> 37 then seqU (u_putc k fd c) (u_printf_loop k fd (d # cs) ap)
      else if d = 100 \<or> d = 120 \<or> d = 112 then
        (case ap of
           Num x # xs \<Rightarrow> seqU (u_printint k fd x (if d = 100 then 10 else 16) (d = 100)) (u_printf_loop k fd cs xs)
         | _ \<Rightarrow> faultU ''printf argument'')
      else if d = 115 then
        (case ap of
           Str s # xs \<Rightarrow>
             seqU (forU (u_putc k fd) (case s of None \<Rightarrow> [40, 110, 117, 108, 108, 41] | Some str \<Rightarrow> str))
               (u_printf_loop k fd cs xs)
         | _ \<Rightarrow> faultU ''printf argument'')
      else if d = 99 then
        (case ap of
           Num x # xs \<Rightarrow> seqU (u_putc k fd (ucast x)) (u_printf_loop k fd cs xs)
         | _ \<Rightarrow> faultU ''printf argument'')
      else if d = 37 then seqU (u_putc k fd d) (u_printf_loop k fd cs ap)
      else seqU (u_putc k fd 37) (seqU (u_putc k fd d) (u_printf_loop k fd cs ap)))"

text \<open>The bytes of a literal format.\<close>

definition ascii :: "string \<Rightarrow> cchar list" where
  "ascii cs = map (\<lambda>c. of_nat (of_char c)) cs"

definition u_printf :: "'w calls \<Rightarrow> cint \<Rightarrow> string \<Rightarrow> uarg list \<Rightarrow> (unit, 'w) act" where
  "u_printf k fd fmt args = u_printf_loop k fd (ascii fmt) args"

subsection \<open>Kernels to run programs on\<close>

text \<open>
  A world in which only reading and writing work and every other call fails; one that collects
  what is written; and one with a file to read as well, as the bytes of it still to be read.
\<close>

definition io_calls ::
  "(cint \<Rightarrow> cint \<Rightarrow> 'w \<Rightarrow> (cint \<times> cchar list) \<times> 'w) \<Rightarrow> (cint \<Rightarrow> cchar list \<Rightarrow> 'w \<Rightarrow> cint \<times> 'w) \<Rightarrow> 'w calls" where
  "io_calls rd wr = \<lparr>u_fork = (\<lambda>w. (-1, w)), u_wait = (\<lambda>w. (-1, w)), u_pipe = (\<lambda>w. ((-1, 0, 0), w)),
     u_write = wr, u_read = rd,
     u_close = (\<lambda>fd w. (-1, w)), u_kill = (\<lambda>p w. (-1, w)), u_exec = (\<lambda>f argv w. Inr (-1, w)),
     u_open = (\<lambda>f m w. (-1, w)), u_mknod = (\<lambda>f a b w. (-1, w)), u_unlink = (\<lambda>f w. (-1, w)),
     u_fstat = (\<lambda>fd w. ((-1, \<lparr>st_type = 0, st_dev = 0, st_ino = 0, st_nlink = 0, st_size = 0\<rparr>), w)),
     u_link = (\<lambda>f g w. (-1, w)), u_mkdir = (\<lambda>f w. (-1, w)), u_chdir = (\<lambda>f w. (-1, w)),
     u_dup = (\<lambda>fd w. (-1, w)), u_getpid = (\<lambda>w. (1, w)), u_sbrk = (\<lambda>n w. (-1, w)),
     u_sleep = (\<lambda>n w. (-1, w)), u_uptime = (\<lambda>w. (0, w)), u_lseek = (\<lambda>fd n wh w. (-1, w)),
     u_set_proc_info = (\<lambda>q a b c e w. (-1, w))\<rparr>"

definition out_calls :: "cchar list calls" where
  "out_calls = io_calls (\<lambda>fd n w. ((-1, []), w)) (\<lambda>fd bs w. (of_nat (length bs), w @ bs))"

definition file_calls :: "(cchar list \<times> cchar list) calls" where
  "file_calls = io_calls
     (\<lambda>fd n (rest, out). ((of_nat (length (take (unat n) rest)), take (unat n) rest), drop (unat n) rest, out))
     (\<lambda>fd bs (rest, out). (of_nat (length bs), rest, out @ bs))"

lemma io_calls_sel [simp]: "u_read (io_calls rd wr) = rd" "u_write (io_calls rd wr) = wr"
  by (simp_all add: io_calls_def)

subsection \<open>Printing\<close>

lemma forU_putc:
  assumes "\<And>bs w. u_write k fd bs w = (of_nat (length bs), w @ bs)"
  shows "forU (u_putc k fd) cs w = Some (Inr ((), w @ cs))"
proof (induction cs arbitrary: w)
  case Nil
  then show ?case by (simp add: retU_def)
next
  case (Cons c cs)
  have "u_putc k fd c w = Some (Inr ((), w @ [c]))"
    by (simp add: u_putc_def bindU_def sysU_def retU_def assms)
  then show ?case using Cons[of "w @ [c]"] by (simp add: bindU_def)
qed

lemma u_digits_val: "i < 10 \<Longrightarrow> unat (u_digits ! i) - 48 = i" "i < 10 \<Longrightarrow> 48 \<le> u_digits ! i \<and> u_digits ! i \<le> 57"
proof -
  have "\<forall>i\<in>set [0..<10]. unat (u_digits ! i) - 48 = i \<and> 48 \<le> u_digits ! i \<and> u_digits ! i \<le> 57"
    by (simp add: u_digits_def upt_rec)
  then show "i < 10 \<Longrightarrow> unat (u_digits ! i) - 48 = i" "i < 10 \<Longrightarrow> 48 \<le> u_digits ! i \<and> u_digits ! i \<le> 57" by auto
qed

lemma rev_digits_decimal:
  assumes "c \<in> set (rev_digits u_digits 10 x)"
  shows "48 \<le> c \<and> c \<le> 57"
proof -
  have "rev_digits u_digits 10 x = rev_digits (take 10 u_digits) 10 x"
  proof (induction x rule: less_induct)
    case (less x)
    have "x \<noteq> 0 \<Longrightarrow> x div 10 < x" by simp
    then show ?case using less[of "x div 10"]
      by (subst (1 2) rev_digits.simps) (auto simp: div_eq_0_iff)
  qed
  then have "c \<in> set (take 10 u_digits)"
    using rev_digits_set[of 10 "take 10 u_digits" x] assms by (auto simp: u_digits_def)
  then show ?thesis by (auto simp: u_digits_def)
qed

text \<open>\<^verbatim>\<open>atoi\<close> reads a row of digits that ends with another byte by Horner's rule, modulo the word size.\<close>

lemma atoi_from_digits:
  assumes "\<forall>i<length cs. m (s + of_nat i) = cs ! i" and "\<forall>c\<in>set cs. 48 \<le> c \<and> c \<le> 57"
    and "m (s + of_nat (length cs)) = 0"
  shows "atoi_from m s (of_nat n) = Some (of_nat (foldl (\<lambda>n c. n * 10 + (unat c - 48)) n cs))"
  using assms
proof (induction cs arbitrary: s n)
  case Nil
  then show ?case by (subst atoi_from.simps) simp
next
  case (Cons c cs)
  have c: "m s = c" using Cons.prems(1)[rule_format, of 0] by simp
  have r: "48 \<le> c" "c \<le> 57" using Cons.prems(2) by auto
  have "48 \<le> unat c" using r(1) by (simp add: word_le_nat_alt)
  then have v: "of_nat n * 10 + ucast c - 48 = (of_nat (n * 10 + (unat c - 48)) :: cint)"
    by (simp add: of_nat_diff)
  have "m (s + 1 + of_nat i) = cs ! i" if "i < length cs" for i
    using Cons.prems(1)[rule_format, of "Suc i"] that by (simp add: add.assoc)
  moreover have "m (s + 1 + of_nat (length cs)) = 0" using Cons.prems(3) by (simp add: add.assoc)
  ultimately have "atoi_from m (s + 1) (of_nat (n * 10 + (unat c - 48))) =
    Some (of_nat (foldl (\<lambda>n c. n * 10 + (unat c - 48)) (n * 10 + (unat c - 48)) cs))"
    using Cons.IH[of "s + 1" "n * 10 + (unat c - 48)"] Cons.prems(2) by (simp del: of_nat_add of_nat_mult)
  then show ?case using r v by (subst atoi_from.simps) (simp add: c del: of_nat_add of_nat_mult)
qed

text \<open>
  C32. A number printed with \<^verbatim>\<open>%d\<close> is read back by \<^verbatim>\<open>atoi\<close>: for a non-negative
  \<^verbatim>\<open>int\<close>, \<^verbatim>\<open>printf\<close> writes at most ten characters, well within the sixteen of
  \<^verbatim>\<open>printint\<close>'s buffer, and from any memory that holds them followed by a NUL \<^verbatim>\<open>atoi\<close>
  returns the number.
\<close>

theorem printf_atoi_roundtrip:
  assumes "\<And>bs w. u_write k fd bs w = (of_nat (length bs), w @ bs)" and "0 \<le> sint x"
  shows "\<exists>cs. u_printf k fd ''%d'' [Num x] w = Some (Inr ((), w @ cs)) \<and> length cs \<le> 10 \<and>
    (\<forall>m (p :: cuint). (\<forall>i<length cs. m (p + of_nat i) = cs ! i) \<and> m (p + of_nat (length cs)) = 0 \<longrightarrow> atoi m p = Some x)"
proof (intro exI[of _ "u_printint_chars x 10 True"] conjI allI impI)
  have e: "u_printint_chars x 10 True = rev (rev_digits u_digits 10 (unat x))"
    using assms(2) by (simp add: u_printint_chars_def)
  have "ascii ''%d'' = [37, 100]" by (simp add: ascii_def)
  then show "u_printf k fd ''%d'' [Num x] w = Some (Inr ((), w @ u_printint_chars x 10 True))"
    by (simp add: u_printf_def u_printint_def bindU_def forU_putc[OF assms(1)] retU_def)
  have "unat x < 10 ^ Suc 9" using unat_lt_2_32[of x] by simp
  from rev_digits_length[OF _ this, of u_digits] show "length (u_printint_chars x 10 True) \<le> 10"
    unfolding e by simp
  fix m :: memory and p :: cuint
  assume m: "(\<forall>i<length (u_printint_chars x 10 True). m (p + of_nat i) = u_printint_chars x 10 True ! i) \<and>
    m (p + of_nat (length (u_printint_chars x 10 True))) = 0"
  have "digits_value (\<lambda>c. unat c - 48) 10 (u_printint_chars x 10 True) = unat x"
    unfolding e by (rule rev_digits_value) (auto simp: u_digits_val)
  then show "atoi m p = Some x"
    using atoi_from_digits[of "u_printint_chars x 10 True" m p 0] m rev_digits_decimal e
    unfolding atoi_def digits_value_def by auto
qed

theorem printf_atoi_roundtrip_witness:
  "\<exists>cs. u_printf out_calls 1 ''%d'' [Num 2147483647] [] = Some (Inr ((), [] @ cs)) \<and> length cs \<le> 10 \<and>
    0 \<le> sint (2147483647 :: cint)"
  using printf_atoi_roundtrip[of out_calls 1 2147483647 "[]"] by (auto simp: out_calls_def)

text \<open>
  Unlike the kernel's, the user library's \<^verbatim>\<open>memmove\<close> always copies upwards: moving two bytes
  one place up overwrites the second before it is read.
\<close>

lemma u_memmove_overlap: "u_memmove 1 0 2 (\<lambda>x. ucast x) 2 = 0"
  by (simp add: u_memmove_def eval_nat_numeral)

end
