(* ===== verification/Grep.thy ===== *)
theory Grep
  imports Ulib
begin

section \<open>grep (grep.c)\<close>

text \<open>
  The pattern matcher and the line loop of \<^verbatim>\<open>grep\<close>.  Patterns and lines are C strings, lists
  of bytes without the NUL; the line buffer is an array of 1024 bytes, with indices for the
  pointers into it.  The matcher is compared with a declarative reading of patterns as sets of
  strings, and the loop with filtering the lines of a file.
\<close>

subsection \<open>The matcher\<close>

text \<open>\<^verbatim>\<open>re[1]\<close> of a pattern that has one byte left is its NUL, hence the cases by length.\<close>

function matchhere :: "cchar list \<Rightarrow> cchar list \<Rightarrow> bool"
  and matchstar :: "cchar \<Rightarrow> cchar list \<Rightarrow> cchar list \<Rightarrow> bool" where
  "matchhere re ts =
     (case re of
        [] \<Rightarrow> True
      | r # re1 \<Rightarrow>
          (case re1 of
             [] \<Rightarrow> if r = 36 then ts = []
                   else (case ts of [] \<Rightarrow> False | t # ts1 \<Rightarrow> if r = 46 \<or> r = t then matchhere re1 ts1 else False)
           | s # re2 \<Rightarrow>
               if s = 42 then matchstar r re2 ts
               else (case ts of [] \<Rightarrow> False | t # ts1 \<Rightarrow> if r = 46 \<or> r = t then matchhere re1 ts1 else False)))"
| "matchstar c re ts =
     (if matchhere re ts then True
      else case ts of [] \<Rightarrow> False | t # ts1 \<Rightarrow> if t = c \<or> c = 46 then matchstar c re ts1 else False)"
  by pat_completeness auto
termination
  by (relation "inv_image (less_than <*lex*> less_than)
        (\<lambda>x. case x of Inl (re, ts) \<Rightarrow> (2 * length re, length ts) | Inr (c, re, ts) \<Rightarrow> (2 * length re + 1, length ts))")
    auto

declare matchhere.simps [simp del] matchstar.simps [simp del]

fun match_from :: "cchar list \<Rightarrow> cchar list \<Rightarrow> bool" where
  "match_from re [] = matchhere re []"
| "match_from re (t # ts) = (if matchhere re (t # ts) then True else match_from re ts)"

definition match :: "cchar list \<Rightarrow> cchar list \<Rightarrow> bool" where
  "match re ts =
     (case re of
        r # re1 \<Rightarrow> if r = 94 then matchhere re1 ts else match_from re ts
      | [] \<Rightarrow> match_from re ts)"

subsection \<open>The line loop\<close>

definition GREPBUF :: nat where
  "GREPBUF = 1024"

text \<open>\<^verbatim>\<open>strchr\<close> on the buffer, which always holds a NUL.\<close>

function strchr_at :: "cchar list \<Rightarrow> nat \<Rightarrow> cchar \<Rightarrow> nat option" where
  "strchr_at buf p c =
     (if length buf \<le> p \<or> buf ! p = 0 then None else if buf ! p = c then Some p else strchr_at buf (p + 1) c)"
  by pat_completeness auto
termination
  by (relation "measure (\<lambda>(buf, p, c). length buf - p)") auto

declare strchr_at.simps [simp del]

lemma strchr_at_bounds: "strchr_at buf p c = Some q \<Longrightarrow> p \<le> q \<and> q < length buf"
proof (induction buf p c rule: strchr_at.induct)
  case (1 buf p c)
  then show ?case by (subst (asm) (2) strchr_at.simps) (fastforce split: if_splits)
qed

function grep_lines :: "'w calls \<Rightarrow> cchar list \<Rightarrow> cchar list \<Rightarrow> nat \<Rightarrow> (cchar list \<times> nat, 'w) act" where
  "grep_lines k pattern buf p =
     (case strchr_at buf p 10 of
        None \<Rightarrow> retU (buf, p)
      | Some q \<Rightarrow>
          let b1 = buf[q := 0] in
          if match pattern (slice p (q - p) b1) then
            let b2 = b1[q := 10] in
            seqU (sysU (u_write k 1 (slice p (q + 1 - p) b2))) (grep_lines k pattern b2 (q + 1))
          else grep_lines k pattern b1 (q + 1))"
  by pat_completeness auto
termination
  by (relation "measure (\<lambda>(k, pattern, buf, p). length buf - p)") (auto dest: strchr_at_bounds)

declare grep_lines.simps [simp del]

text \<open>\<^verbatim>\<open>sizeof(buf)-m-1\<close> bytes are asked for; \<^verbatim>\<open>read\<close> returns how many it stored.\<close>

partial_function (option) grep_loop ::
  "'w calls \<Rightarrow> cchar list \<Rightarrow> cint \<Rightarrow> cchar list \<Rightarrow> nat \<Rightarrow> 'w \<Rightarrow> ('w uend + unit \<times> 'w) option" where
  "grep_loop k pattern fd buf m w =
     bindU (sysU (u_read k fd (of_nat (GREPBUF - m - 1)))) (\<lambda>r w1.
       if sint (fst r) \<le> 0 then retU () w1
       else
         let m1 = m + unat (fst r);
             buf1 = (blit m (snd r) buf)[m1 := 0]
         in bindU (grep_lines k pattern buf1 0) (\<lambda>bp w2.
              let buf2 = fst bp; p = snd bp; m2 = (if p = 0 then 0 else m1) in
              if 0 < m2 then grep_loop k pattern fd (blit 0 (slice p (m2 - p) buf2) buf2) (m2 - p) w2
              else grep_loop k pattern fd buf2 m2 w2) w1) w"

text \<open>The buffer is a static array, zero at first; it is not cleared between fnames.\<close>

definition grep :: "'w calls \<Rightarrow> cchar list \<Rightarrow> cint \<Rightarrow> (unit, 'w) act" where
  "grep k pattern fd = grep_loop k pattern fd (replicate GREPBUF 0) 0"

definition grep_main :: "'w calls \<Rightarrow> cchar list list \<Rightarrow> (unit, 'w) act" where
  "grep_main k argv =
     (case argv of
        _ # pattern # fnames \<Rightarrow>
          if fnames = [] then seqU (grep k pattern 0) exitU
          else
            seqU (forU (\<lambda>f. bindU (sysU (u_open k f 0)) (\<lambda>fd.
                    if sint fd < 0 then seqU (u_printf k 1 ''grep: cannot open %s\<newline>'' [Str (Some f)]) exitU
                    else seqU (grep k pattern fd) (seqU (sysU (u_close k fd)) (retU ())))) fnames) exitU
      | _ \<Rightarrow> seqU (u_printf k 2 ''usage: grep pattern [file ...]\<newline>'' []) exitU)"

subsection \<open>What a pattern means\<close>

text \<open>
  A pattern is an optional \<^verbatim>\<open>^\<close>, a sequence of items and an optional \<^verbatim>\<open>$\<close>.  An item is one
  symbol, or a symbol and a star; a symbol is a byte or, for the dot, any byte.
\<close>

datatype symbol = Byte cchar | Dot

datatype item = One symbol | Star symbol

fun in_symbol :: "cchar \<Rightarrow> symbol \<Rightarrow> bool" where
  "in_symbol c (Byte b) \<longleftrightarrow> c = b"
| "in_symbol c Dot \<longleftrightarrow> True"

fun lang_item :: "item \<Rightarrow> cchar list set" where
  "lang_item (One s) = {[c] | c. in_symbol c s}"
| "lang_item (Star s) = {w. \<forall>c\<in>set w. in_symbol c s}"

fun lang :: "item list \<Rightarrow> cchar list set" where
  "lang [] = {[]}"
| "lang (i # is) = {u @ v | u v. u \<in> lang_item i \<and> v \<in> lang is}"

definition symbol_of :: "cchar \<Rightarrow> symbol" where
  "symbol_of c = (if c = 46 then Dot else Byte c)"

fun items_of :: "cchar list \<Rightarrow> item list \<times> bool" where
  "items_of [] = ([], False)"
| "items_of [r] = (if r = 36 then ([], True) else ([One (symbol_of r)], False))"
| "items_of (r # s # re) =
     (if s = 42 then (let (is, end) = items_of re in (Star (symbol_of r) # is, end))
      else let (is, end) = items_of (s # re) in (One (symbol_of r) # is, end))"

definition matches_at_start :: "item list \<times> bool \<Rightarrow> cchar list \<Rightarrow> bool" where
  "matches_at_start p ts \<longleftrightarrow> (\<exists>u v. ts = u @ v \<and> u \<in> lang (fst p) \<and> (snd p \<longrightarrow> v = []))"

lemma symbol_of [simp]: "in_symbol t (symbol_of c) \<longleftrightarrow> c = 46 \<or> t = c"
  by (auto simp: symbol_of_def)

lemma start_Nil [simp]: "matches_at_start ([], e) ts \<longleftrightarrow> (e \<longrightarrow> ts = [])"
  by (auto simp: matches_at_start_def)

lemma start_Cons:
  "matches_at_start (i # is, e) ts \<longleftrightarrow> (\<exists>u v. ts = u @ v \<and> u \<in> lang_item i \<and> matches_at_start (is, e) v)"
proof
  assume "matches_at_start (i # is, e) ts"
  then obtain u u' v where "ts = (u @ u') @ v" "u \<in> lang_item i" "u' \<in> lang is" "e \<longrightarrow> v = []"
    unfolding matches_at_start_def fst_conv snd_conv lang.simps by blast
  then show "\<exists>u v. ts = u @ v \<and> u \<in> lang_item i \<and> matches_at_start (is, e) v"
    unfolding matches_at_start_def by (intro exI[of _ u] exI[of _ "u' @ v"]) auto
next
  assume "\<exists>u v. ts = u @ v \<and> u \<in> lang_item i \<and> matches_at_start (is, e) v"
  then obtain u u' v where "ts = u @ u' @ v" "u \<in> lang_item i" "u' \<in> lang is" "e \<longrightarrow> v = []"
    by (auto simp: matches_at_start_def)
  then show "matches_at_start (i # is, e) ts"
    unfolding matches_at_start_def by (intro exI[of _ "u @ u'"] exI[of _ v]) auto
qed

lemma start_One [simp]:
  "matches_at_start (One s # is, e) ts \<longleftrightarrow>
     (case ts of [] \<Rightarrow> False | t # ts1 \<Rightarrow> in_symbol t s \<and> matches_at_start (is, e) ts1)"
proof (cases ts)
  case (Cons t ts1)
  then show ?thesis unfolding start_Cons by (auto intro: exI[of _ "[t]"] exI[of _ ts1])
qed (simp add: start_Cons)

lemma start_Star:
  "matches_at_start (Star s # is, e) ts \<longleftrightarrow>
     matches_at_start (is, e) ts \<or>
     (case ts of [] \<Rightarrow> False | t # ts1 \<Rightarrow> in_symbol t s \<and> matches_at_start (Star s # is, e) ts1)" (is "?L \<longleftrightarrow> ?R")
proof
  assume ?L
  then obtain u v where "ts = u @ v" "\<forall>c\<in>set u. in_symbol c s" "matches_at_start (is, e) v"
    unfolding start_Cons by auto
  then show ?R unfolding start_Cons by (cases u) auto
next
  assume ?R
  then consider "matches_at_start (is, e) ts" |
    t ts1 where "ts = t # ts1" "in_symbol t s" "matches_at_start (Star s # is, e) ts1"
    by (cases ts) auto
  then show ?L
  proof cases
    case 1
    then show ?thesis unfolding start_Cons by (intro exI[of _ "[]"] exI[of _ ts]) auto
  next
    case 2
    from 2(3) obtain u v where "ts1 = u @ v" "\<forall>c\<in>set u. in_symbol c s" "matches_at_start (is, e) v"
      unfolding start_Cons by auto
    then show ?thesis unfolding start_Cons using 2(1,2) by (intro exI[of _ "t # u"] exI[of _ v]) auto
  qed
qed

lemma matchhere_spec:
  "matchhere re ts \<longleftrightarrow> matches_at_start (items_of re) ts"
  "matchstar c re' ts' \<longleftrightarrow> matches_at_start (Star (symbol_of c) # fst (items_of re'), snd (items_of re')) ts'"
proof (induction re ts and c re' ts' rule: matchhere_matchstar.induct)
  case (1 re ts)
  then show ?case
    by (subst matchhere.simps) (auto split: list.splits simp: case_prod_beta)
next
  case (2 c re ts)
  then show ?case
    by (subst matchstar.simps, subst start_Star) (auto split: list.splits)
qed

lemma match_from_spec: "match_from re ts \<longleftrightarrow> (\<exists>u v. ts = u @ v \<and> matchhere re v)"
proof (induction ts)
  case (Cons t ts)
  have "(\<exists>u v. t # ts = u @ v \<and> matchhere re v) \<longleftrightarrow> matchhere re (t # ts) \<or> (\<exists>u v. ts = u @ v \<and> matchhere re v)"
    by (auto simp: Cons_eq_append_conv)
  then show ?case using Cons by simp
qed simp

text \<open>
  C29. The matcher of \<^verbatim>\<open>grep\<close> finds exactly what the pattern means: \<^verbatim>\<open>match\<close> is true of a line
  just if some part of the line is in the set of strings its items denote, at the beginning if
  the pattern starts with \<^verbatim>\<open>^\<close>, and at the end if it ends with \<^verbatim>\<open>$\<close>.
\<close>

theorem match_iff_language:
  "match re line \<longleftrightarrow>
     (let anchored = (re \<noteq> [] \<and> hd re = 94); (is, at_end) = items_of (if anchored then tl re else re)
      in \<exists>u v w. line = u @ v @ w \<and> v \<in> lang is \<and> (if anchored then u = [] else True) \<and>
           (if at_end then w = [] else True))"
proof -
  have m: "match re line \<longleftrightarrow> (if re \<noteq> [] \<and> hd re = 94 then matchhere (tl re) line else match_from re line)"
    by (cases re) (simp_all add: match_def)
  show ?thesis unfolding m match_from_spec matchhere_spec matches_at_start_def Let_def case_prod_beta
    by auto
qed

subsection \<open>The lines of a file\<close>

text \<open>A text line as the file has it, with its newline.\<close>

definition is_line :: "cchar list \<Rightarrow> bool" where
  "is_line l \<longleftrightarrow> 10 \<notin> set l \<and> 0 \<notin> set l \<and> length l < 1023"

definition text_of :: "cchar list list \<Rightarrow> cchar list" where
  "text_of ls = concat (map (\<lambda>l. l @ [10]) ls)"

lemma text_of_simps [simp]: "text_of [] = []" "text_of (l # ls) = l @ 10 # text_of ls" "text_of (ls @ ms) = text_of ls @ text_of ms"
  by (simp_all add: text_of_def)

text \<open>\<^verbatim>\<open>strchr\<close> finds the end of a line that starts at \<open>p\<close>, or nothing before the NUL.\<close>

lemma strchr_at_skip:
  assumes "\<forall>i<length u. p + i < length buf \<and> buf ! (p + i) = u ! i" and "0 \<notin> set u" and "c \<notin> set u"
  shows "strchr_at buf p c = strchr_at buf (p + length u) c"
  using assms
proof (induction u arbitrary: p)
  case (Cons x u)
  have x: "p < length buf" "buf ! p = x" using Cons.prems(1)[rule_format, of 0] by auto
  have "\<forall>i<length u. p + 1 + i < length buf \<and> buf ! (p + 1 + i) = u ! i"
    using Cons.prems(1) by (metis Suc_less_eq add.assoc length_Cons nth_Cons_Suc plus_1_eq_Suc)
  from Cons.IH[OF this] have "strchr_at buf (p + 1) c = strchr_at buf (p + length (x # u)) c"
    using Cons.prems by simp
  then show ?case using x Cons.prems by (subst strchr_at.simps) auto
qed simp

lemma strchr_at_found:
  assumes "0 \<notin> set u" and "c \<notin> set u" and "c \<noteq> 0"
  shows "strchr_at (A @ u @ c # R) (length A) c = Some (length A + length u)"
    and "strchr_at (A @ u @ 0 # R) (length A) c = None"
proof -
  have "strchr_at (A @ u @ x # R) (length A) c = strchr_at (A @ u @ x # R) (length A + length u) c" for x
    by (rule strchr_at_skip) (use assms in \<open>auto simp: nth_append\<close>)
  moreover have "strchr_at (A @ u @ x # R) (length A + length u) c =
    (if x = 0 then None else if x = c then Some (length A + length u) else strchr_at (A @ u @ x # R) (length A + length u + 1) c)" for x
    by (subst strchr_at.simps) (simp add: nth_append)
  ultimately show "strchr_at (A @ u @ c # R) (length A) c = Some (length A + length u)"
    "strchr_at (A @ u @ 0 # R) (length A) c = None" using assms(3) by simp_all
qed

lemma grep_lines_text:
  assumes w: "\<And>bs r out. u_write k 1 bs (r, out) = (of_nat (length bs), r, out @ bs)"
    and "\<forall>l\<in>set ls. is_line l" and "0 \<notin> set pre" and "10 \<notin> set pre"
  shows "\<exists>B. length B = length A + length (text_of ls) \<and>
    grep_lines k pat (A @ text_of ls @ pre @ 0 # R) (length A) (r, out) =
      Some (Inr ((B @ pre @ 0 # R, length B), r, out @ text_of (filter (match pat) ls)))"
  using assms(2)
proof (induction ls arbitrary: A out)
  case Nil
  then show ?case
    using strchr_at_found(2)[of pre 10 A R] assms(3,4) by (subst grep_lines.simps) (simp add: retU_def)
next
  case (Cons l ls)
  let ?T = "text_of ls @ pre @ 0 # R"
  have l: "0 \<notin> set l" "10 \<notin> set l" using Cons.prems by (auto simp: is_line_def)
  note f = strchr_at_found(1)[OF l, of A ?T, simplified]
  have u: "(A @ l @ x # ?T)[length A + length l := y] = A @ l @ y # ?T" for x y
    by (simp add: list_update_append)
  have s: "slice (length A) (length l) (A @ l @ 0 # ?T) = l" "slice (length A) (Suc (length l)) (A @ l @ 10 # ?T) = l @ [10]"
    by (simp_all add: slice_def)
  have IH: "\<exists>B. length B = length A + length l + 1 + length (text_of ls) \<and>
    grep_lines k pat (A @ l @ x # ?T) (length A + length l + 1) (r, out') =
      Some (Inr ((B @ pre @ 0 # R, length B), r, out' @ text_of (filter (match pat) ls)))" for x out'
    using Cons.IH[of "A @ l @ [x]" out'] Cons.prems by simp
  show ?case
  proof (cases "match pat l")
    case True
    then have "grep_lines k pat (A @ text_of (l # ls) @ pre @ 0 # R) (length A) (r, out) =
      grep_lines k pat (A @ l @ 10 # ?T) (length A + length l + 1) (r, out @ l @ [10])"
      using f u s by (subst grep_lines.simps) (simp add: Let_def sysU_bind w)
    then show ?thesis using IH[of 10 "out @ l @ [10]"] True by auto
  next
    case False
    then have "grep_lines k pat (A @ text_of (l # ls) @ pre @ 0 # R) (length A) (r, out) =
      grep_lines k pat (A @ l @ 0 # ?T) (length A + length l + 1) (r, out)"
      using f u s by (subst grep_lines.simps) (simp add: Let_def)
    then show ?thesis using IH[of 0 out] False by auto
  qed
qed

text \<open>What a read brings into the buffer: whole lines, and the beginning of the next one.\<close>

lemma split_at_lines:
  assumes "\<forall>l\<in>set ls. is_line l"
  shows "\<exists>ls1 ls2 pre. ls = ls1 @ ls2 \<and> take n (text_of ls) = text_of ls1 @ pre \<and>
    (if ls2 = [] then pre = [] else length pre \<le> length (hd ls2) \<and> pre = take (length pre) (hd ls2))"
  using assms
proof (induction ls arbitrary: n)
  case Nil
  then show ?case by simp
next
  case (Cons l ls)
  show ?case
  proof (cases "length l < n")
    case False
    then show ?thesis by (intro exI[of _ "[]"] exI[of _ "l # ls"] exI[of _ "take n l"]) auto
  next
    case True
    from Cons.IH[of "n - length l - 1"] Cons.prems obtain ls1 ls2 pre where
      "ls = ls1 @ ls2" "take (n - length l - 1) (text_of ls) = text_of ls1 @ pre"
      "if ls2 = [] then pre = [] else length pre \<le> length (hd ls2) \<and> pre = take (length pre) (hd ls2)" by auto
    then show ?thesis using True
      by (intro exI[of _ "l # ls1"] exI[of _ ls2] exI[of _ pre]) (auto simp: take_Cons')
  qed
qed

text \<open>One turn of the loop moves whole lines from the file through the buffer.\<close>

lemma grep_turn:
  assumes r: "\<And>n r out. u_read k fd n (r, out) =
      ((of_nat (length (take (unat n) r)), take (unat n) r), drop (unat n) r, out)"
    and w: "\<And>bs r out. u_write k 1 bs (r, out) = (of_nat (length bs), r, out @ bs)"
    and b: "length buf = GREPBUF" and m: "m < 1023" "take m buf = pre" and ne: "rest \<noteq> []"
    and t: "take 1023 (pre @ rest) = text_of ls1 @ pre'" "0 \<notin> set pre'" "10 \<notin> set pre'"
    and ls1: "ls1 \<noteq> []" "\<forall>l\<in>set ls1. is_line l"
  shows "\<exists>buf'. length buf' = GREPBUF \<and> take (length pre') buf' = pre' \<and>
    grep_loop k pat fd buf m (rest, out) =
      grep_loop k pat fd buf' (length pre') (drop (1023 - m) rest, out @ text_of (filter (match pat) ls1))"
proof -
  let ?t = "take (1023 - m) rest"
  have mp: "length pre = m" using m b by (auto simp: GREPBUF_def)
  have tt: "pre @ ?t = text_of ls1 @ pre'" using t(1) m(1) mp by simp
  define R where "R = drop (m + length ?t + 1) buf"
  have lt: "0 < length ?t" "length ?t \<le> 1023 - m" using ne m(1) by auto
  have n: "unat (of_nat (GREPBUF - m - 1) :: cint) = 1023 - m" 
  proof -
    have "GREPBUF - m - 1 = 1023 - m" by (simp add: GREPBUF_def)
    then show ?thesis by (simp add: unat_of_nat del: of_nat_diff)
  qed
  have c: "unat (of_nat (length ?t) :: cint) = length ?t" "0 < sint (of_nat (length ?t) :: cint)"
    using lt by (auto simp: unat_of_nat32 sint_of_nat32 simp del: length_take)
  have buf1: "(blit m ?t buf)[m + length ?t := 0] = [] @ text_of ls1 @ pre' @ 0 # R"
  proof -
    have "drop (m + length ?t) buf = buf ! (m + length ?t) # R"
      unfolding R_def using b lt m(1) by (simp add: Cons_nth_drop_Suc GREPBUF_def)
    then have e: "blit m ?t buf = (text_of ls1 @ pre') @ buf ! (m + length ?t) # R"
      unfolding blit_def m(2) tt[symmetric] by simp
    have l: "m + length ?t = length (text_of ls1 @ pre')" unfolding tt[symmetric] by (simp add: mp)
    show ?thesis unfolding e l list_update_length by simp
  qed
  from grep_lines_text[OF w ls1(2) t(2,3), of "[]" pat R "drop (1023 - m) rest" out] obtain B where
    B: "length B = length (text_of ls1)"
    "grep_lines k pat ((blit m ?t buf)[m + length ?t := 0]) 0 (drop (1023 - m) rest, out) =
      Some (Inr ((B @ pre' @ 0 # R, length B), drop (1023 - m) rest, out @ text_of (filter (match pat) ls1)))"
    unfolding buf1 by auto
  have p: "0 < length B" using ls1(1) B(1) by (cases ls1) auto
  have m2: "m + length ?t - length B = length pre'" using arg_cong[OF tt, of length] B(1) mp by simp
  let ?b = "blit 0 (slice (length B) (length pre') (B @ pre' @ 0 # R)) (B @ pre' @ 0 # R)"
  have "length (B @ pre' @ 0 # R) = GREPBUF"
    using arg_cong[OF buf1, of length] B(1) b lt m(1) by (simp add: blit_def GREPBUF_def)
  then have "length ?b = GREPBUF" "take (length pre') ?b = pre'" by (auto simp: blit_def slice_def)
  moreover have "grep_loop k pat fd buf m (rest, out) =
      grep_loop k pat fd ?b (length pre') (drop (1023 - m) rest, out @ text_of (filter (match pat) ls1))"
    using c p m2 B(2) n lt(1) by (subst grep_loop.simps) (simp add: sysU_bind r bindU_def[of "grep_lines k pat b q" for b q] Let_def)
  ultimately show ?thesis by blast
qed

lemma grep_loop_text:
  assumes "\<And>n r out. u_read k fd n (r, out) =
      ((of_nat (length (take (unat n) r)), take (unat n) r), drop (unat n) r, out)"
    and "\<And>bs r out. u_write k 1 bs (r, out) = (of_nat (length bs), r, out @ bs)"
    and "\<forall>l\<in>set ls. is_line l" and "pre @ rest = text_of ls"
    and "if ls = [] then pre = [] else length pre \<le> length (hd ls) \<and> pre = take (length pre) (hd ls)"
    and "length buf = GREPBUF" and "take (length pre) buf = pre"
  shows "grep_loop k pat fd buf (length pre) (rest, out) = Some (Inr ((), [], out @ text_of (filter (match pat) ls)))"
  using assms(3-)
proof (induction "length rest" arbitrary: rest pre ls buf out rule: less_induct)
  case less
  show ?case
  proof (cases ls)
    case Nil
    then show ?thesis using less.prems(2) by (subst grep_loop.simps) (simp add: sysU_bind assms(1) retU_def)
  next
    case (Cons l ls')
    have l: "is_line l" "length pre \<le> length l" "pre = take (length pre) l" using less.prems Cons by auto
    then have m: "length pre < 1023" by (simp add: is_line_def)
    have ne: "rest \<noteq> []"
    proof
      assume "rest = []"
      then have "length pre > length l" using less.prems(2) Cons by simp
      then show False using l(2) by simp
    qed
    from split_at_lines[OF less.prems(1), of 1023] obtain ls1 ls2 pre' where
      s: "ls = ls1 @ ls2" "take 1023 (text_of ls) = text_of ls1 @ pre'"
      "if ls2 = [] then pre' = [] else length pre' \<le> length (hd ls2) \<and> pre' = take (length pre') (hd ls2)" by blast
    have "set pre' \<subseteq> set (hd ls2)" if "ls2 \<noteq> []" using s(3) that by (metis set_take_subset)
    then have z: "0 \<notin> set pre'" "10 \<notin> set pre'"
      using less.prems(1) s by (cases ls2; auto simp: is_line_def)+
    have ls1: "ls1 \<noteq> []"
    proof
      assume "ls1 = []"
      then have "length (take 1023 (text_of ls)) \<le> length l" using s Cons by auto
      then show False using Cons l(1) by (auto simp: is_line_def min_def split: if_splits)
    qed
    from grep_turn[OF assms(1,2) less.prems(4) m less.prems(5) ne, of ls1 pre' pat out] s(2) z ls1 less.prems(1,2)
    obtain buf' where b: "length buf' = GREPBUF" "take (length pre') buf' = pre'"
      "grep_loop k pat fd buf (length pre) (rest, out) =
        grep_loop k pat fd buf' (length pre') (drop (1023 - length pre) rest, out @ text_of (filter (match pat) ls1))"
      using s(1) by auto
    have d: "pre' @ drop (1023 - length pre) rest = text_of ls2"
    proof -
      have "text_of ls1 @ text_of ls2 = text_of ls1 @ pre' @ drop 1023 (text_of ls)"
        unfolding append_assoc[symmetric] s(2)[symmetric] append_take_drop_id using s(1) by simp
      moreover have "drop 1023 (text_of ls) = drop (1023 - length pre) rest"
        using less.prems(2)[symmetric] m by simp
      ultimately show ?thesis by simp
    qed
    have "length (drop (1023 - length pre) rest) < length rest" using ne m by (cases rest) auto
    from less.hyps[OF this _ d s(3) b(1,2)] less.prems(1) s(1)
    have "grep_loop k pat fd buf' (length pre') (drop (1023 - length pre) rest, out @ text_of (filter (match pat) ls1)) =
      Some (Inr ((), [], (out @ text_of (filter (match pat) ls1)) @ text_of (filter (match pat) ls2)))"
      by simp
    then show ?thesis using b(3) s(1) by simp
  qed
qed

text \<open>
  C30. \<^verbatim>\<open>grep\<close> run on a file of newline-terminated lines, each short enough for its buffer
  (at most 1022 bytes) and free of NULs, returns, having read the whole file and written exactly
  the lines that match the pattern, in order and complete, however the lines fall into the
  buffer.
\<close>

theorem grep_prints_matching_lines:
  assumes "\<And>n r out. u_read k fd n (r, out) =
      ((of_nat (length (take (unat n) r)), take (unat n) r), drop (unat n) r, out)"
    and "\<And>bs r out. u_write k 1 bs (r, out) = (of_nat (length bs), r, out @ bs)"
    and "\<forall>l\<in>set ls. is_line l"
  shows "grep k pattern fd (text_of ls, out) =
    Some (Inr ((), [], out @ text_of (filter (match pattern) ls)))"
  using grep_loop_text[OF assms(1,2), where pre = "[]" and rest = "text_of ls"] assms(3) by (simp add: grep_def)

theorem grep_prints_matching_lines_witness:
  "grep file_calls [97, 42, 99] 0 (text_of [[97, 98], [97, 97, 99], []], []) = Some (Inr ((), [], [97, 97, 99, 10]))"
  using grep_prints_matching_lines[of file_calls 0 "[[97, 98], [97, 97, 99], []]" "[97, 42, 99]" "[]"]
  by (simp add: file_calls_def is_line_def match_def matchhere.simps matchstar.simps)

text \<open>
  A line that arrives in two reads is lost: when what has been read so far holds no newline,
  \<^verbatim>\<open>m = 0\<close> throws it away.  Here \<^verbatim>\<open>abc\<close> comes as \<^verbatim>\<open>ab\<close> and \<^verbatim>\<open>c\<close>, as it may
  from a pipe or the console, and nothing is printed although the line matches.
\<close>

definition chunk_calls :: "(cchar list list \<times> cchar list) calls" where
  "chunk_calls = io_calls
     (\<lambda>fd n (cs, out). case cs of [] \<Rightarrow> ((0, []), [], out) | c # cs' \<Rightarrow> ((of_nat (length c), c), cs', out))
     (\<lambda>fd bs (cs, out). (of_nat (length bs), cs, out @ bs))"

lemma grep_loses_split_line:
  "match [97, 98, 99] [97, 98, 99] \<and>
   grep chunk_calls [97, 98, 99] 0 ([[97, 98], [99, 10]], []) = Some (Inr ((), [], []))"
proof
  show "match [97, 98, 99] [97, 98, 99]" by (simp add: match_def matchhere.simps)
  have r: "replicate GREPBUF (0 :: cchar) = 0 # 0 # 0 # replicate 1021 0"
    by (simp add: GREPBUF_def flip: replicate_Suc)
  show "grep chunk_calls [97, 98, 99] 0 ([[97, 98], [99, 10]], []) = Some (Inr ((), [], []))"
    unfolding grep_def r
    by (simp add: grep_loop.simps grep_lines.simps strchr_at.simps chunk_calls_def sysU_bind bindU_def sysU_def retU_def
        blit_def slice_def match_def matchhere.simps)
qed

end
