(* ===== verification/Progs.thy ===== *)
theory Progs
  imports Ulib
begin

section \<open>Small user programs\<close>

text \<open>
  cat.c, wc.c, echo.c, ls.c, rm.c, mkdir.c, ln.c, kill.c, init.c, zombie.c, helloxv6.c and the
  small test programs forktest.c, stressfs.c, lseektest.c and scheduler_test.c.  The argument
  vector is the list of its strings, the program's name first.
\<close>

subsection \<open>cat, echo\<close>

partial_function (option) cat_loop :: "'w calls \<Rightarrow> cint \<Rightarrow> 'w \<Rightarrow> ('w uend + unit \<times> 'w) option" where
  "cat_loop k fd w =
     bindU (sysU (u_read k fd 512)) (\<lambda>r w1.
       if 0 < sint (fst r) then
         bindU (sysU (u_write k 1 (snd r))) (\<lambda>c w2.
           if c \<noteq> fst r then seqU (u_printf k 1 ''cat: write error\<newline>'' []) exitU w2
           else cat_loop k fd w2) w1
       else if sint (fst r) < 0 then seqU (u_printf k 1 ''cat: read error\<newline>'' []) exitU w1
       else retU () w1) w"

text \<open>The loop over file arguments that \<^verbatim>\<open>cat\<close> and \<^verbatim>\<open>wc\<close> share.\<close>

definition each_file :: "'w calls \<Rightarrow> string \<Rightarrow> (cint \<Rightarrow> cchar list \<Rightarrow> (unit, 'w) act) \<Rightarrow> cchar list list \<Rightarrow> (unit, 'w) act" where
  "each_file k msg f names =
     forU (\<lambda>n. bindU (sysU (u_open k n 0)) (\<lambda>fd.
       if sint fd < 0 then seqU (u_printf k 1 msg [Str (Some n)]) exitU
       else seqU (f fd n) (seqU (sysU (u_close k fd)) (retU ())))) names"

definition cat_main :: "'w calls \<Rightarrow> cchar list list \<Rightarrow> (unit, 'w) act" where
  "cat_main k argv =
     (if length argv \<le> 1 then seqU (cat_loop k 0) exitU
      else seqU (each_file k ''cat: cannot open %s\<newline>'' (\<lambda>fd n. cat_loop k fd) (tl argv)) exitU)"

fun echo_args :: "'w calls \<Rightarrow> cchar list list \<Rightarrow> (unit, 'w) act" where
  "echo_args k [] = retU ()"
| "echo_args k (x # xs) =
     seqU (u_printf k 1 ''%s%s'' [Str (Some x), Str (Some (if xs \<noteq> [] then [32] else [10]))]) (echo_args k xs)"

definition echo_main :: "'w calls \<Rightarrow> cchar list list \<Rightarrow> (unit, 'w) act" where
  "echo_main k argv = seqU (echo_args k (tl argv)) exitU"

subsection \<open>wc\<close>

record wc_state =
  wc_l :: cint
  wc_w :: cint
  wc_c :: cint
  wc_inword :: bool

text \<open>The string \<^verbatim>\<open>" \r\t\n\v"\<close>.\<close>

definition wc_spaces :: "cchar list" where
  "wc_spaces = [32, 13, 9, 10, 11]"

definition wc_byte :: "cchar \<Rightarrow> wc_state \<Rightarrow> wc_state" where
  "wc_byte b s =
     (let s1 = s\<lparr>wc_c := wc_c s + 1, wc_l := (if b = 10 then wc_l s + 1 else wc_l s)\<rparr>
      in if b \<in> set wc_spaces then s1\<lparr>wc_inword := False\<rparr>
         else if \<not> wc_inword s1 then s1\<lparr>wc_w := wc_w s1 + 1, wc_inword := True\<rparr>
         else s1)"

partial_function (option) wc_loop ::
  "'w calls \<Rightarrow> cint \<Rightarrow> cchar list \<Rightarrow> wc_state \<Rightarrow> 'w \<Rightarrow> ('w uend + unit \<times> 'w) option" where
  "wc_loop k fd name s w =
     bindU (sysU (u_read k fd 512)) (\<lambda>r w1.
       if 0 < sint (fst r) then wc_loop k fd name (fold wc_byte (snd r) s) w1
       else if sint (fst r) < 0 then seqU (u_printf k 1 ''wc: read error\<newline>'' []) exitU w1
       else u_printf k 1 ''%d %d %d %s\<newline>'' [Num (wc_l s), Num (wc_w s), Num (wc_c s), Str (Some name)] w1) w"

definition wc :: "'w calls \<Rightarrow> cint \<Rightarrow> cchar list \<Rightarrow> (unit, 'w) act" where
  "wc k fd name = wc_loop k fd name \<lparr>wc_l = 0, wc_w = 0, wc_c = 0, wc_inword = False\<rparr>"

definition wc_main :: "'w calls \<Rightarrow> cchar list list \<Rightarrow> (unit, 'w) act" where
  "wc_main k argv =
     (if length argv \<le> 1 then seqU (wc k 0 []) exitU
      else seqU (each_file k ''wc: cannot open %s\<newline>'' (wc k) (tl argv)) exitU)"

subsection \<open>rm, mkdir, ln, kill\<close>

text \<open>\<^verbatim>\<open>for(...) if(call(argv[i]) < 0){ printf; break; }\<close>\<close>

fun until_fails :: "'w calls \<Rightarrow> (cchar list \<Rightarrow> 'w \<Rightarrow> cint \<times> 'w) \<Rightarrow> string \<Rightarrow> cchar list list \<Rightarrow> (unit, 'w) act" where
  "until_fails k call msg [] = retU ()"
| "until_fails k call msg (x # xs) =
     bindU (sysU (call x)) (\<lambda>r.
       if sint r < 0 then u_printf k 2 msg [Str (Some x)] else until_fails k call msg xs)"

definition rm_main :: "'w calls \<Rightarrow> cchar list list \<Rightarrow> (unit, 'w) act" where
  "rm_main k argv =
     (if length argv < 2 then seqU (u_printf k 2 ''Usage: rm files...\<newline>'' []) exitU
      else seqU (until_fails k (u_unlink k) ''rm: %s failed to delete\<newline>'' (tl argv)) exitU)"

definition mkdir_main :: "'w calls \<Rightarrow> cchar list list \<Rightarrow> (unit, 'w) act" where
  "mkdir_main k argv =
     (if length argv < 2 then seqU (u_printf k 2 ''Usage: mkdir files...\<newline>'' []) exitU
      else seqU (until_fails k (u_mkdir k) ''mkdir: %s failed to create\<newline>'' (tl argv)) exitU)"

definition ln_main :: "'w calls \<Rightarrow> cchar list list \<Rightarrow> (unit, 'w) act" where
  "ln_main k argv =
     (case argv of
        [_, old, new] \<Rightarrow>
          bindU (sysU (u_link k old new)) (\<lambda>r.
            seqU (if sint r < 0 then u_printf k 2 ''link %s %s: failed\<newline>'' [Str (Some old), Str (Some new)] else retU ())
              exitU)
      | _ \<Rightarrow> seqU (u_printf k 2 ''Usage: ln old new\<newline>'' []) exitU)"

text \<open>\<^verbatim>\<open>atoi\<close> on a string.\<close>

definition atoi_str :: "cchar list \<Rightarrow> cint" where
  "atoi_str cs = foldl (\<lambda>n c. n * 10 + ucast c - 48) 0 (takeWhile (\<lambda>c. 48 \<le> c \<and> c \<le> 57) cs)"

definition kill_main :: "'w calls \<Rightarrow> cchar list list \<Rightarrow> (unit, 'w) act" where
  "kill_main k argv =
     (if length argv < 2 then seqU (u_printf k 2 ''usage: kill pid...\<newline>'' []) exitU
      else seqU (forU (\<lambda>x. seqU (sysU (u_kill k (atoi_str x))) (retU ())) (tl argv)) exitU)"

subsection \<open>ls\<close>

text \<open>What follows the last slash, padded with blanks to \<open>DIRSIZ\<close> unless it is longer.\<close>

definition fmtname :: "cchar list \<Rightarrow> cchar list" where
  "fmtname path =
     (let p = rev (takeWhile (\<lambda>c. c \<noteq> 47) (rev path))
      in if DIRSIZ \<le> length p then p else p @ replicate (DIRSIZ - length p) 32)"

definition ls_print :: "'w calls \<Rightarrow> cchar list \<Rightarrow> stat \<Rightarrow> (unit, 'w) act" where
  "ls_print k path st =
     u_printf k 1 ''%s %d %d %d\<newline>''
       [Str (Some (fmtname path)), Num (scast (st_type st)), Num (st_ino st), Num (st_size st)]"

text \<open>The loop over the 16-byte entries of a directory; the name in an entry need not end with a NUL.\<close>

partial_function (option) ls_dir :: "'w calls \<Rightarrow> cint \<Rightarrow> cchar list \<Rightarrow> 'w \<Rightarrow> ('w uend + unit \<times> 'w) option" where
  "ls_dir k fd path w =
     bindU (sysU (u_read k fd 16)) (\<lambda>r w1.
       if fst r \<noteq> 16 then retU () w1
       else if get16 0 (snd r) = 0 then ls_dir k fd path w1
       else
         let buf = path @ 47 # takeWhile (\<lambda>c. c \<noteq> 0) (slice 2 DIRSIZ (snd r)) in
         bindU (u_stat k buf) (\<lambda>q w2.
           bindU (case snd q of
                    None \<Rightarrow> u_printf k 1 ''ls: cannot stat %s\<newline>'' [Str (Some buf)]
                  | Some st \<Rightarrow> ls_print k buf st) (\<lambda>_ w3. ls_dir k fd path w3) w2) w1) w"

definition ls :: "'w calls \<Rightarrow> cchar list \<Rightarrow> (unit, 'w) act" where
  "ls k path =
     bindU (sysU (u_open k path 0)) (\<lambda>fd.
       if sint fd < 0 then u_printf k 2 ''ls: cannot open %s\<newline>'' [Str (Some path)]
       else bindU (sysU (u_fstat k fd)) (\<lambda>(r, st).
         if sint r < 0 then
           seqU (u_printf k 2 ''ls: cannot stat %s\<newline>'' [Str (Some path)]) (seqU (sysU (u_close k fd)) (retU ()))
         else
           seqU (if st_type st = T_FILE then ls_print k path st
                 else if st_type st = T_DIR then
                   (if 512 < length path + 1 + DIRSIZ + 1 then u_printf k 1 ''ls: path too long\<newline>'' []
                    else ls_dir k fd path)
                 else retU ())
             (seqU (sysU (u_close k fd)) (retU ()))))"

definition ls_main :: "'w calls \<Rightarrow> cchar list list \<Rightarrow> (unit, 'w) act" where
  "ls_main k argv =
     (if length argv < 2 then seqU (ls k [46]) exitU else seqU (forU (ls k) (tl argv)) exitU)"

subsection \<open>init, zombie, helloxv6\<close>

text \<open>\<^verbatim>\<open>while((wpid=wait()) >= 0 && wpid != pid)\<close>\<close>

partial_function (option) init_wait :: "'w calls \<Rightarrow> cint \<Rightarrow> 'w \<Rightarrow> ('w uend + unit \<times> 'w) option" where
  "init_wait k pid w =
     bindU (sysU (u_wait k)) (\<lambda>wpid w1.
       if 0 \<le> sint wpid \<and> wpid \<noteq> pid
       then bindU (u_printf k 1 ''zombie!\<newline>'' []) (\<lambda>_ w2. init_wait k pid w2) w1
       else retU () w1) w"

definition execU :: "'w calls \<Rightarrow> cchar list \<Rightarrow> cchar list list \<Rightarrow> (cint, 'w) act" where
  "execU k f argv w = Some (case u_exec k f argv w of Inl w1 \<Rightarrow> Inl (Execed w1) | Inr r \<Rightarrow> Inr r)"

partial_function (option) init_loop :: "'w calls \<Rightarrow> 'w \<Rightarrow> ('w uend + unit \<times> 'w) option" where
  "init_loop k w =
     bindU (seqU (u_printf k 1 ''init: starting sh\<newline>'' []) (sysU (u_fork k))) (\<lambda>pid w1.
       if sint pid < 0 then seqU (u_printf k 1 ''init: fork failed\<newline>'' []) exitU w1
       else if pid = 0 then
         seqU (execU k (ascii ''sh'') [ascii ''sh'']) (seqU (u_printf k 1 ''init: exec sh failed\<newline>'' []) exitU) w1
       else bindU (init_wait k pid) (\<lambda>_ w2. init_loop k w2) w1) w"

definition init_main :: "'w calls \<Rightarrow> (unit, 'w) act" where
  "init_main k =
     bindU (sysU (u_open k (ascii ''console'') O_RDWR)) (\<lambda>fd.
       seqU (if sint fd < 0
             then seqU (sysU (u_mknod k (ascii ''console'') 1 1)) (seqU (sysU (u_open k (ascii ''console'') O_RDWR)) (retU ()))
             else retU ())
         (seqU (sysU (u_dup k 0)) (seqU (sysU (u_dup k 0)) (init_loop k))))"

definition zombie_main :: "'w calls \<Rightarrow> (unit, 'w) act" where
  "zombie_main k =
     bindU (sysU (u_fork k)) (\<lambda>r. seqU (if 0 < sint r then seqU (sysU (u_sleep k 5)) (retU ()) else retU ()) exitU)"

definition helloxv6_main :: "'w calls \<Rightarrow> (unit, 'w) act" where
  "helloxv6_main k = seqU (u_printf k 1 ''Hello xv6 World\<newline>'' []) exitU"

subsection \<open>Test programs\<close>

text \<open>The private \<^verbatim>\<open>printf\<close> of forktest.c writes its format as it is.\<close>

definition ft_printf :: "'w calls \<Rightarrow> cint \<Rightarrow> string \<Rightarrow> (unit, 'w) act" where
  "ft_printf k fd s = seqU (sysU (u_write k fd (ascii s))) (retU ())"

text \<open>How many forks succeed out of the \<open>n\<close> still to try; a child exits at once.\<close>

fun ft_forks :: "'w calls \<Rightarrow> nat \<Rightarrow> (nat, 'w) act" where
  "ft_forks k 0 = retU 0"
| "ft_forks k (Suc n) =
     bindU (sysU (u_fork k)) (\<lambda>pid.
       if sint pid < 0 then retU 0
       else if pid = 0 then exitU
       else bindU (ft_forks k n) (\<lambda>c. retU (Suc c)))"

fun ft_waits :: "'w calls \<Rightarrow> nat \<Rightarrow> (unit, 'w) act" where
  "ft_waits k 0 = retU ()"
| "ft_waits k (Suc n) =
     bindU (sysU (u_wait k)) (\<lambda>r.
       if sint r < 0 then seqU (ft_printf k 1 ''wait stopped early\<newline>'') exitU else ft_waits k n)"

definition forktest :: "'w calls \<Rightarrow> (unit, 'w) act" where
  "forktest k =
     seqU (ft_printf k 1 ''fork test\<newline>'')
       (bindU (ft_forks k 1000) (\<lambda>n.
          if n = 1000 then seqU (ft_printf k 1 ''fork claimed to work N times!\<newline>'') exitU
          else seqU (ft_waits k n) (bindU (sysU (u_wait k)) (\<lambda>r.
            if r \<noteq> -1 then seqU (ft_printf k 1 ''wait got too many\<newline>'') exitU
            else ft_printf k 1 ''fork test OK\<newline>''))))"

definition forktest_main :: "'w calls \<Rightarrow> (unit, 'w) act" where
  "forktest_main k = seqU (forktest k) exitU"

text \<open>The value of \<^verbatim>\<open>i\<close> after \<^verbatim>\<open>for(i = 0; i < 4; i++) if(fork() > 0) break;\<close>, from a given one.\<close>

fun sf_forks :: "'w calls \<Rightarrow> nat \<Rightarrow> nat \<Rightarrow> (nat, 'w) act" where
  "sf_forks k 0 i = retU i"
| "sf_forks k (Suc n) i = bindU (sysU (u_fork k)) (\<lambda>r. if 0 < sint r then retU i else sf_forks k n (i + 1))"

definition stressfs_main :: "'w calls \<Rightarrow> (unit, 'w) act" where
  "stressfs_main k =
     seqU (u_printf k 1 ''stressfs starting\<newline>'' [])
       (bindU (sf_forks k 4 0) (\<lambda>i.
          let path = ascii ''stressfs'' @ [48 + of_nat i] in
          seqU (u_printf k 1 ''write %d\<newline>'' [Num (of_nat i)])
            (bindU (sysU (u_open k path (O_CREATE OR O_RDWR))) (\<lambda>fd.
               seqU (forU (\<lambda>_. seqU (sysU (u_write k fd (replicate 512 97))) (retU ())) [0..<20])
                 (seqU (sysU (u_close k fd))
                   (seqU (u_printf k 1 ''read\<newline>'' [])
                     (bindU (sysU (u_open k path O_RDONLY)) (\<lambda>fd2.
                        seqU (forU (\<lambda>_. seqU (sysU (u_read k fd2 512)) (retU ())) [0..<20])
                          (seqU (sysU (u_close k fd2)) (seqU (sysU (u_wait k)) exitU))))))))))"

text \<open>
  \<^verbatim>\<open>while (read(fd, buf, 99) > 0)\<close>: the array keeps the bytes of the read before wherever the
  new one does not reach; it is printed up to its first NUL.
\<close>

partial_function (option) lt_show :: "'w calls \<Rightarrow> cint \<Rightarrow> cchar list \<Rightarrow> 'w \<Rightarrow> ('w uend + cchar list \<times> 'w) option" where
  "lt_show k fd buf w =
     bindU (sysU (u_read k fd 99)) (\<lambda>r w1.
       if 0 < sint (fst r) then
         let buf1 = (blit 0 (snd r) buf)[99 := 0] in
         bindU (u_printf k 1 ''%s'' [Str (Some (takeWhile (\<lambda>c. c \<noteq> 0) buf1))]) (\<lambda>_ w2. lt_show k fd buf1 w2) w1
       else retU buf w1) w"

text \<open>The first content of the array is whatever the stack holds, an argument here.\<close>

definition lseektest_main :: "'w calls \<Rightarrow> cchar list \<Rightarrow> cchar list list \<Rightarrow> (unit, 'w) act" where
  "lseektest_main k junk argv =
     (case argv of
        _ # name # offset # str # _ \<Rightarrow>
          bindU (sysU (u_open k name O_RDWR)) (\<lambda>fd.
            if sint fd < 0 then seqU (u_printf k 1 ''error: open %s failed!\<newline>'' [Str (Some name)]) exitU
            else bindU (lt_show k fd junk) (\<lambda>buf.
              seqU (u_printf k 1 ''\<newline>'' []) (seqU (sysU (u_close k fd))
                (bindU (sysU (u_open k name O_RDWR)) (\<lambda>fd.
                   if sint fd < 0 then seqU (u_printf k 1 ''error: open %s failed!\<newline>'' [Str (Some name)]) exitU
                   else bindU (sysU (u_lseek k fd (atoi_str offset) 0)) (\<lambda>r.
                     if sint r < 0 then seqU (u_printf k 1 ''error: lseek %s failed!\<newline>'' [Str (Some name)]) exitU
                     else bindU (sysU (u_write k fd str)) (\<lambda>r.
                       if sint r < 0 then seqU (u_printf k 1 ''error: write %s failed!\<newline>'' [Str (Some name)]) exitU
                       else bindU (sysU (u_lseek k fd 0 0)) (\<lambda>r.
                         if sint r < 0 then seqU (u_printf k 1 ''error: lseek %s failed!\<newline>'' [Str (Some name)]) exitU
                         else bindU (lt_show k fd buf) (\<lambda>_.
                           seqU (u_printf k 1 ''\<newline>'' []) (seqU (sysU (u_close k fd)) exitU))))))))))
      | _ \<Rightarrow> seqU (u_printf k 1 ''usage : lseek_test <filename> <offset> <string>\<newline>'' []) exitU)"

text \<open>A child that set its scheduling information runs an empty loop and never ends.\<close>

definition st_child :: "'w calls \<Rightarrow> (unit, 'w) act" where
  "st_child k =
     bindU (sysU (u_getpid k)) (\<lambda>pid.
       seqU (u_printf k 1 ''PID: %d created\<newline>'' [Num pid])
         (bindU (sysU (u_set_proc_info k 2 0 0 0 300)) (\<lambda>r.
            if sint r < 0 then seqU (u_printf k 1 ''error: set_proc_info failed for %d\<newline>'' [Num pid]) exitU
            else seqU (u_printf k 1 ''Set process %d's info complete\<newline>'' [Num pid]) (\<lambda>w. None))))"

definition scheduler_test_main :: "'w calls \<Rightarrow> (unit, 'w) act" where
  "scheduler_test_main k =
     seqU (u_printf k 1 ''start scheduler_test\<newline>'' [])
       (seqU (forU (\<lambda>i. bindU (sysU (u_fork k)) (\<lambda>pid.
                if sint pid < 0 then seqU (u_printf k 1 ''error: fork fail\<newline>'' []) exitU
                else if pid = 0 then st_child k
                else retU ())) [0..<3])
         (seqU (forU (\<lambda>i. seqU (sysU (u_wait k)) (retU ())) [0..<3])
           (seqU (u_printf k 1 ''end of scheduler_test\<newline>'' []) exitU)))"

subsection \<open>What cat and wc do with a file\<close>

text \<open>Printing into a world with an input that printing leaves alone.\<close>

lemma forU_putc_io:
  assumes "\<And>bs r out. u_write k fd bs (r, out) = (of_nat (length bs), r, out @ bs)"
  shows "forU (u_putc k fd) cs (r, out) = Some (Inr ((), r, out @ cs))"
proof (induction cs arbitrary: out)
  case (Cons c cs)
  have "u_putc k fd c (r, out) = Some (Inr ((), r, out @ [c]))"
    by (simp add: u_putc_def bindU_def sysU_def retU_def assms)
  then show ?case using Cons[of "out @ [c]"] by (simp add: bindU_def)
qed (simp add: retU_def)

lemma cat_copies:
  assumes "\<And>n r out. u_read k fd n (r, out) =
      ((of_nat (length (take (unat n) r)), take (unat n) r), drop (unat n) r, out)"
    and "\<And>bs r out. u_write k 1 bs (r, out) = (of_nat (length bs), r, out @ bs)"
  shows "cat_loop k fd (content, out) = Some (Inr ((), [], out @ content))"
proof (induction "length content" arbitrary: content out rule: less_induct)
  case less
  show ?case
  proof (cases "content = []")
    case True
    then show ?thesis by (subst cat_loop.simps) (simp add: sysU_bind assms retU_def)
  next
    case False
    have l: "0 < sint (of_nat (min (length content) 512) :: cint)"
      using False by (subst sint_of_nat32) auto
    have "cat_loop k fd (content, out) = cat_loop k fd (drop 512 content, out @ take 512 content)"
      using l by (subst cat_loop.simps) (simp add: sysU_bind assms)
    then show ?thesis using less[of "drop 512 content" "out @ take 512 content"] False by simp
  qed
qed

text \<open>The words of a text: its non-empty pieces between the bytes \<^verbatim>\<open>wc\<close> takes for spaces.\<close>

fun pieces :: "cchar list \<Rightarrow> cchar list list" where
  "pieces [] = [[]]"
| "pieces (b # bs) = (if b \<in> set wc_spaces then [] # pieces bs else (b # hd (pieces bs)) # tl (pieces bs))"

definition words_of :: "cchar list \<Rightarrow> cchar list list" where
  "words_of bs = filter (\<lambda>u. u \<noteq> []) (pieces bs)"

lemma pieces_nonempty [simp]: "pieces bs \<noteq> []"
  by (cases bs) auto

lemma words_of_parts:
  "length (words_of bs) = (if hd (pieces bs) \<noteq> [] then 1 else 0) + length (filter (\<lambda>u. u \<noteq> []) (tl (pieces bs)))"
  unfolding words_of_def by (cases "pieces bs") simp_all

lemma wc_bytes:
  "wc_l (fold wc_byte bs s) = wc_l s + of_nat (count_list bs 10)"
  "wc_c (fold wc_byte bs s) = wc_c s + of_nat (length bs)"
  "wc_w (fold wc_byte bs s) = wc_w s +
     of_nat ((if \<not> wc_inword s \<and> hd (pieces bs) \<noteq> [] then 1 else 0) + length (filter (\<lambda>u. u \<noteq> []) (tl (pieces bs))))"
proof (induction bs arbitrary: s)
  case (Cons b bs)
  { case 1 show ?case using Cons(1)[of "wc_byte b s"] by (simp add: wc_byte_def Let_def)
  next case 2 show ?case using Cons(2)[of "wc_byte b s"] by (simp add: wc_byte_def Let_def)
  next case 3
    have "filter (\<lambda>u. u \<noteq> []) (pieces bs) = (if hd (pieces bs) \<noteq> [] then [hd (pieces bs)] else []) @ filter (\<lambda>u. u \<noteq> []) (tl (pieces bs))"
      by (cases "pieces bs") simp_all
    then show ?case using Cons(3)[of "wc_byte b s"] by (simp add: wc_byte_def Let_def) }
qed simp_all

lemma wc_loop_file:
  assumes "\<And>n r out. u_read k fd n (r, out) =
      ((of_nat (length (take (unat n) r)), take (unat n) r), drop (unat n) r, out)"
  shows "wc_loop k fd name s (content, out) =
    (let t = fold wc_byte content s in
     u_printf k 1 ''%d %d %d %s\<newline>'' [Num (wc_l t), Num (wc_w t), Num (wc_c t), Str (Some name)] ([], out))"
proof (induction "length content" arbitrary: content s rule: less_induct)
  case less
  show ?case
  proof (cases "content = []")
    case True
    then show ?thesis by (subst wc_loop.simps) (simp add: sysU_bind assms)
  next
    case False
    have l: "0 < sint (of_nat (min (length content) 512) :: cint)"
      using False by (subst sint_of_nat32) auto
    have "fold wc_byte content s = fold wc_byte (drop 512 content) (fold wc_byte (take 512 content) s)"
      by (metis append_take_drop_id comp_apply fold_append)
    moreover have "wc_loop k fd name s (content, out) = wc_loop k fd name (fold wc_byte (take 512 content) s) (drop 512 content, out)"
      using l by (subst wc_loop.simps) (simp add: sysU_bind assms)
    ultimately show ?thesis using less[of "drop 512 content"] False by simp
  qed
qed

text \<open>
  C31. \<^verbatim>\<open>wc\<close> counts: run on a file it returns, having printed the number of newlines, the
  number of words (maximal runs of bytes other than blank, tab, return, newline and vertical
  tab) and the number of bytes, as C integers, and the name; how the file falls into the reads
  of 512 bytes makes no difference, also where a word spans two of them.
\<close>

theorem wc_counts:
  assumes "\<And>n r out. u_read k fd n (r, out) =
      ((of_nat (length (take (unat n) r)), take (unat n) r), drop (unat n) r, out)"
    and "\<And>bs r out. u_write k 1 bs (r, out) = (of_nat (length bs), r, out @ bs)"
  shows "wc k fd name (content, out) = Some (Inr ((), [], out @
    u_printint_chars (of_nat (count_list content 10)) 10 True @ [32] @
    u_printint_chars (of_nat (length (words_of content))) 10 True @ [32] @
    u_printint_chars (of_nat (length content)) 10 True @ [32] @ name @ [10]))"
proof -
  have p: "u_putc k 1 c (r, o1) = Some (Inr ((), r, o1 @ [c]))" for c r o1
    by (simp add: u_putc_def bindU_def sysU_def retU_def assms)
  have a: "ascii ''%d %d %d %s\<newline>'' = [37, 100, 32, 37, 100, 32, 37, 100, 32, 37, 115, 10]"
    by (simp add: ascii_def)
  show ?thesis
    unfolding wc_def wc_loop_file[OF assms(1)] u_printf_def a words_of_parts
    by (simp add: Let_def u_printint_def bindU_def p forU_putc_io[OF assms(2)] retU_def wc_bytes)
qed

theorem wc_counts_witness:
  "wc file_calls 0 [120] ([97, 98, 32, 99, 10], []) = Some (Inr ((), [], [49, 32, 50, 32, 53, 32, 120, 10]))"
  using wc_counts[of file_calls 0 "[120]" "[97, 98, 32, 99, 10]" "[]"]
  by (simp add: file_calls_def words_of_def wc_spaces_def u_printint_chars_def rev_digits.simps u_digits_def)

text \<open>
  \<^verbatim>\<open>lseektest\<close> prints stale bytes: a read shorter than the one before leaves the rest of the
  array as it was.  Of a file of ninety-nine \<^verbatim>\<open>a\<close> and a \<^verbatim>\<open>b\<close> it shows ninety-eight
  \<^verbatim>\<open>a\<close> too many.
\<close>

lemma lt_show_stale:
  "\<exists>buf. lt_show file_calls 3 (replicate 100 0) (replicate 99 97 @ [98], []) =
     Some (Inr (buf, [], replicate 99 97 @ [98] @ replicate 98 97))"
proof -
  have w: "u_write file_calls 1 bs (r, out) = (of_nat (length bs), r, out @ bs)" for bs r out
    by (simp add: file_calls_def)
  have r: "u_read file_calls 3 n (r, out) =
    ((of_nat (length (take (unat n) r)), take (unat n) r), drop (unat n) r, out)" for n r out
    by (simp add: file_calls_def)
  have pr: "u_printf file_calls 1 ''%s'' [Str (Some cs)] (r, out) = Some (Inr ((), r, out @ cs))" for cs r out
    by (simp add: u_printf_def ascii_def bindU_def forU_putc_io[OF w] retU_def)
  have b1: "(blit 0 (replicate 99 97) (replicate 100 0))[99 := 0] = replicate 99 97 @ [0 :: cchar]"
    by (simp add: blit_def list_update_append)
  have b2: "(blit 0 [98] (replicate 99 97 @ [0]))[99 := 0] = 98 # replicate 98 97 @ [0 :: cchar]"
    by (simp add: blit_def list_update_append)
  have t: "takeWhile (\<lambda>c. c \<noteq> 0) (replicate n 97 @ [0]) = replicate n (97 :: cchar)" for n
    by (simp add: takeWhile_append)
  have e: "lt_show file_calls 3 buf ([], out) = Some (Inr (buf, [], out))" for buf out
    by (subst lt_show.simps) (simp add: sysU_bind r retU_def)
  have s: "lt_show file_calls 3 buf (rest, out) =
    (let b = (blit 0 (take 99 rest) buf)[99 := 0]
     in lt_show file_calls 3 b (drop 99 rest, out @ takeWhile (\<lambda>c. c \<noteq> 0) b))" if "rest \<noteq> []" for buf rest out
  proof -
    have "0 < sint (of_nat (min (length rest) 99) :: cint)" using that by (subst sint_of_nat32) auto
    then show ?thesis
      by (subst lt_show.simps)
         (simp add: sysU_bind r Let_def bindU_def[of "u_printf k fd f a" for k fd f a] pr)
  qed
  show ?thesis using t by (simp add: s e Let_def b1 b2)
qed

end
