(* ===== verification/Shell.thy ===== *)
theory Shell
  imports Progs
begin

section \<open>The shell (sh.c)\<close>

text \<open>
  The command line is a C string; positions in it stand for the \<^verbatim>\<open>char*\<close> the parser moves.
  A parsed command holds its words as pairs of positions, as sh.c does, until
  \<^verbatim>\<open>nulterminate\<close> has cut the line into strings.  The parser's four mutually recursive
  functions take a bound on their calls; \<open>parsecmd\<close> gives them enough for every line.  The
  command structures come from \<^verbatim>\<open>malloc\<close>, which is taken to succeed here; the message that
  shows the unparsed rest of a line is not modelled.
\<close>

subsection \<open>Commands\<close>

definition MAXARGS :: nat where
  "MAXARGS = 10"

datatype 'x cmd =
    EXEC "'x list"
  | REDIR "'x cmd" 'x cint cint
  | PIPE "'x cmd" "'x cmd"
  | LIST "'x cmd" "'x cmd"
  | BACK "'x cmd"

subsection \<open>Tokens\<close>

definition whitespace :: "cchar list" where
  "whitespace = [32, 9, 13, 10, 11]"

definition symbols :: "cchar list" where
  "symbols = [60, 124, 62, 38, 59, 40, 41]"

text \<open>\<^verbatim>\<open>while(s < es && strchr(whitespace, *s)) s++\<close>\<close>

function skip_ws :: "cchar list \<Rightarrow> nat \<Rightarrow> nat" where
  "skip_ws buf s = (if s < length buf \<and> buf ! s \<in> set whitespace then skip_ws buf (s + 1) else s)"
  by pat_completeness auto
termination
  by (relation "measure (\<lambda>(buf, s). length buf - s)") auto

function skip_word :: "cchar list \<Rightarrow> nat \<Rightarrow> nat" where
  "skip_word buf s =
     (if s < length buf \<and> buf ! s \<notin> set whitespace \<and> buf ! s \<notin> set symbols then skip_word buf (s + 1) else s)"
  by pat_completeness auto
termination
  by (relation "measure (\<lambda>(buf, s). length buf - s)") auto

declare skip_ws.simps [simp del] skip_word.simps [simp del]

text \<open>The token, where it begins and ends, and where the next one begins; 97 (\<^verbatim>\<open>'a'\<close>) is a word and 43 is \<^verbatim>\<open>>>\<close>.\<close>

definition gettoken :: "cchar list \<Rightarrow> nat \<Rightarrow> cchar \<times> nat \<times> nat \<times> nat" where
  "gettoken buf ps =
     (let q = skip_ws buf ps;
          c = cstr_at buf q;
          (ret, eq) =
            (if c = 0 then (c, q)
             else if c \<in> {124, 40, 41, 59, 38, 60} then (c, q + 1)
             else if c = 62 then (if cstr_at buf (q + 1) = 62 then (43, q + 2) else (c, q + 1))
             else (97, skip_word buf q))
      in (ret, q, eq, skip_ws buf eq))"

definition peek :: "cchar list \<Rightarrow> nat \<Rightarrow> cchar list \<Rightarrow> bool \<times> nat" where
  "peek buf ps toks = (let s = skip_ws buf ps; c = cstr_at buf s in (c \<noteq> 0 \<and> c \<in> set toks, s))"

lemma skip_ws_ge: "s \<le> skip_ws buf s"
proof (induction buf s rule: skip_ws.induct)
  case (1 buf s)
  then show ?case by (subst skip_ws.simps) auto
qed

lemma skip_word_ge: "s \<le> skip_word buf s"
proof (induction buf s rule: skip_word.induct)
  case (1 buf s)
  then show ?case by (subst skip_word.simps) auto
qed

lemma skip_ws_stop: "skip_ws buf s < length buf \<Longrightarrow> buf ! skip_ws buf s \<notin> set whitespace"
proof (induction buf s rule: skip_ws.induct)
  case (1 buf s)
  then show ?case by (cases "s < length buf \<and> buf ! s \<in> set whitespace") (auto simp: skip_ws.simps)
qed

lemma cstr_at_nonzero: "cstr_at buf i \<noteq> 0 \<Longrightarrow> i < length buf \<and> cstr_at buf i = buf ! i"
  by (simp add: cstr_at_def split: if_splits)

text \<open>A token other than the end moves on.\<close>

lemma gettoken_moves:
  assumes "gettoken buf ps = (ret, q, eq, s)" and "ret \<noteq> 0"
  shows "ps \<le> q \<and> q < eq \<and> eq \<le> s \<and> q < length buf"
proof -
  let ?c = "cstr_at buf (skip_ws buf ps)"
  have c: "?c \<noteq> 0" using assms by (auto simp: gettoken_def Let_def split: if_splits)
  note n = cstr_at_nonzero[OF c]
  have "skip_ws buf ps < skip_word buf (skip_ws buf ps)" if "?c \<notin> set symbols"
    using n that skip_ws_stop[of buf ps] skip_word_ge[of "skip_ws buf ps + 1" buf]
    by (subst skip_word.simps) (auto simp: Suc_le_eq)
  then show ?thesis
    using assms c n skip_ws_ge[of ps buf] skip_ws_ge[of eq buf]
    by (auto simp: gettoken_def Let_def symbols_def split: if_splits)
qed

lemma peek_moves: "peek buf ps toks = (b, s) \<Longrightarrow> ps \<le> s \<and> (b \<longrightarrow> cstr_at buf s \<noteq> 0 \<and> s = skip_ws buf ps)"
  using skip_ws_ge[of ps buf] by (auto simp: peek_def Let_def)

lemma skip_ws_idem [simp]: "skip_ws buf (skip_ws buf s) = skip_ws buf s"
  using skip_ws_stop[of buf s] by (subst skip_ws.simps) auto

text \<open>After a successful \<^verbatim>\<open>peek\<close> there is a token.\<close>

lemma peek_gettoken:
  assumes "peek buf ps toks = (True, s)" and "gettoken buf s = (ret, q, eq, s1)"
  shows "ret \<noteq> 0 \<and> q = s"
proof -
  have "s = skip_ws buf ps" "cstr_at buf s \<noteq> 0" using peek_moves[OF assms(1)] by auto
  then show ?thesis using assms(2) by (auto simp: gettoken_def Let_def split: if_splits)
qed

subsection \<open>The parser\<close>

type_synonym tok = "nat \<times> nat"

text \<open>The body of the loop of \<^verbatim>\<open>parseredirs\<close>, once a redirection is ahead.\<close>

definition parseredir :: "cchar list \<Rightarrow> tok cmd \<Rightarrow> nat \<Rightarrow> (tok cmd \<times> nat) res" where
  "parseredir buf c s =
     (case gettoken buf s of (tok, _, _, s1) \<Rightarrow>
      case gettoken buf s1 of (t2, q, eq, s2) \<Rightarrow>
        if t2 \<noteq> 97 then Inl (Panic ''missing file for redirection'')
        else Inr (if tok = 60 then REDIR c (q, eq) O_RDONLY 0
                  else REDIR c (q, eq) (O_WRONLY OR O_CREATE) 1, s2))"

lemma parseredir_moves:
  assumes "fst (peek buf ps toks)" and "parseredir buf c (snd (peek buf ps toks)) = Inr (c', s2)"
  shows "ps < s2 \<and> ps < length buf"
proof -
  obtain s where p: "peek buf ps toks = (True, s)" using assms(1) by (cases "peek buf ps toks") auto
  obtain tok q1 e1 s1 where g1: "gettoken buf s = (tok, q1, e1, s1)" by (cases "gettoken buf s") auto
  obtain t2 q eq s3 where g2: "gettoken buf s1 = (t2, q, eq, s3)" by (cases "gettoken buf s1") auto
  have "t2 \<noteq> 0" "s3 = s2" using assms(2) p g1 g2 by (auto simp: parseredir_def split: if_splits)
  then show ?thesis
    using peek_moves[OF p] peek_gettoken[OF p g1] gettoken_moves[OF g1] gettoken_moves[OF g2] by auto
qed

function parseredirs :: "cchar list \<Rightarrow> tok cmd \<Rightarrow> nat \<Rightarrow> (tok cmd \<times> nat) res" where
  "parseredirs buf c ps =
     (if fst (peek buf ps [60, 62])
      then bindR (parseredir buf c (snd (peek buf ps [60, 62]))) (\<lambda>(c', s). parseredirs buf c' s)
      else Inr (c, snd (peek buf ps [60, 62])))"
  by pat_completeness auto
termination
  by (relation "measure (\<lambda>(buf, c, s). length buf - s)") (auto dest: parseredir_moves)

declare parseredirs.simps [simp del]

lemma peek_ge: "ps \<le> snd (peek buf ps toks)"
  using skip_ws_ge by (simp add: peek_def Let_def)

lemma parseredirs_moves: "parseredirs buf c ps = Inr (c', s) \<Longrightarrow> ps \<le> s"
proof (induction buf c ps rule: parseredirs.induct)
  case (1 buf c ps)
  show ?case
  proof (cases "fst (peek buf ps [60, 62])")
    case False
    then show ?thesis using "1.prems" peek_ge by (subst (asm) parseredirs.simps) auto
  next
    case True
    with "1.prems" obtain c1 s1 where p: "parseredir buf c (snd (peek buf ps [60, 62])) = Inr (c1, s1)"
      "parseredirs buf c1 s1 = Inr (c', s)"
      by (subst (asm) parseredirs.simps) (auto simp: bindR_eq_Inr)
    have "s1 \<le> s" using "1.IH"[OF True p(1) refl] p(2) by simp
    then show ?thesis using parseredir_moves[OF True p(1)] by simp
  qed
qed

text \<open>
  The words go into the \<^verbatim>\<open>execcmd\<close> inside the redirections wrapped around it so far, which the C
  code keeps a pointer to.
\<close>

fun add_arg :: "tok \<Rightarrow> tok cmd \<Rightarrow> tok cmd" where
  "add_arg x (EXEC as) = EXEC (as @ [x])"
| "add_arg x (REDIR c f m d) = REDIR (add_arg x c) f m d"
| "add_arg x c = c"

text \<open>A turn of the loop of \<^verbatim>\<open>parseexec\<close>: \<^const>\<open>None\<close> at the end of the line.\<close>

definition parsearg :: "cchar list \<Rightarrow> nat \<Rightarrow> tok cmd \<Rightarrow> nat \<Rightarrow> (tok cmd \<times> nat) option res" where
  "parsearg buf argc c s =
     (case gettoken buf s of (tok, q, eq, s1) \<Rightarrow>
        if tok = 0 then Inr None
        else if tok \<noteq> 97 then Inl (Panic ''syntax'')
        else if MAXARGS \<le> argc + 1 then Inl (Panic ''too many args'')
        else bindR (parseredirs buf (add_arg (q, eq) c) s1) (\<lambda>r. Inr (Some r)))"

lemma parsearg_moves:
  assumes "parsearg buf argc c s = Inr (Some (c', s'))"
  shows "s < s' \<and> s < length buf"
proof -
  obtain tok q eq s1 where g: "gettoken buf s = (tok, q, eq, s1)" by (cases "gettoken buf s") auto
  have "tok \<noteq> 0" "\<exists>c1. parseredirs buf c1 s1 = Inr (c', s')"
    using assms g by (auto simp: parsearg_def bindR_eq_Inr split: if_splits)
  then show ?thesis using gettoken_moves[OF g] by (auto dest: parseredirs_moves)
qed

function parseargs :: "cchar list \<Rightarrow> nat \<Rightarrow> tok cmd \<Rightarrow> nat \<Rightarrow> (tok cmd \<times> nat) res" where
  "parseargs buf argc c ps =
     (if fst (peek buf ps [124, 41, 38, 59]) then Inr (c, snd (peek buf ps [124, 41, 38, 59]))
      else bindR (parsearg buf argc c (snd (peek buf ps [124, 41, 38, 59]))) (\<lambda>r.
        case r of
          None \<Rightarrow> Inr (c, snd (peek buf ps [124, 41, 38, 59]))
        | Some cs \<Rightarrow> parseargs buf (argc + 1) (fst cs) (snd cs)))"
  by pat_completeness auto
termination
proof (relation "measure (\<lambda>(buf, argc, c, s). length buf - s)", goal_cases)
  case (2 buf argc c ps r cs)
  then show ?case
    using parsearg_moves[of buf argc c "snd (peek buf ps [124, 41, 38, 59])" "fst cs" "snd cs"] peek_ge[of ps buf "[124, 41, 38, 59]"]
    by (cases cs) (simp, linarith)
qed simp

declare parseargs.simps [simp del]

text \<open>\<^verbatim>\<open>while(peek(ps, es, "&")){ gettoken; cmd = backcmd(cmd); }\<close>\<close>

definition token_end :: "cchar list \<Rightarrow> nat \<Rightarrow> nat" where
  "token_end buf s = snd (snd (snd (gettoken buf s)))"

lemma token_end_moves:
  assumes "fst (peek buf ps toks)"
  shows "ps < token_end buf (snd (peek buf ps toks)) \<and> ps < length buf"
proof -
  obtain s where p: "peek buf ps toks = (True, s)" using assms(1) by (cases "peek buf ps toks") auto
  obtain tok q1 e1 s1 where g1: "gettoken buf s = (tok, q1, e1, s1)" by (cases "gettoken buf s") auto
  then show ?thesis
    using peek_moves[OF p] peek_gettoken[OF p g1] gettoken_moves[OF g1] p by (auto simp: token_end_def)
qed

function parsebacks :: "cchar list \<Rightarrow> tok cmd \<Rightarrow> nat \<Rightarrow> tok cmd \<times> nat" where
  "parsebacks buf c ps =
     (if fst (peek buf ps [38]) then parsebacks buf (BACK c) (token_end buf (snd (peek buf ps [38])))
      else (c, snd (peek buf ps [38])))"
  by pat_completeness auto
termination
  by (relation "measure (\<lambda>(buf, c, s). length buf - s)") (auto dest: token_end_moves)

declare parsebacks.simps [simp del]

text \<open>The recursive functions, with a bound \<open>n\<close> on the depth of their calls.\<close>

fun parseline :: "nat \<Rightarrow> cchar list \<Rightarrow> nat \<Rightarrow> (tok cmd \<times> nat) res"
  and parsepipe :: "nat \<Rightarrow> cchar list \<Rightarrow> nat \<Rightarrow> (tok cmd \<times> nat) res"
  and parseblock :: "nat \<Rightarrow> cchar list \<Rightarrow> nat \<Rightarrow> (tok cmd \<times> nat) res"
  and parseexec :: "nat \<Rightarrow> cchar list \<Rightarrow> nat \<Rightarrow> (tok cmd \<times> nat) res" where
  "parseline 0 buf ps = Inl Diverges"
| "parseline (Suc n) buf ps =
     bindR (parsepipe n buf ps) (\<lambda>(c0, s0).
       let (c, s) = parsebacks buf c0 s0 in
       if fst (peek buf s [59])
       then bindR (parseline n buf (token_end buf (snd (peek buf s [59])))) (\<lambda>(c2, s2). Inr (LIST c c2, s2))
       else Inr (c, snd (peek buf s [59])))"
| "parsepipe 0 buf ps = Inl Diverges"
| "parsepipe (Suc n) buf ps =
     bindR (parseexec n buf ps) (\<lambda>(c, s).
       if fst (peek buf s [124])
       then bindR (parsepipe n buf (token_end buf (snd (peek buf s [124])))) (\<lambda>(c2, s2). Inr (PIPE c c2, s2))
       else Inr (c, snd (peek buf s [124])))"
| "parseblock 0 buf ps = Inl Diverges"
| "parseblock (Suc n) buf ps =
     (if \<not> fst (peek buf ps [40]) then Inl (Panic ''parseblock'')
      else bindR (parseline n buf (token_end buf (snd (peek buf ps [40])))) (\<lambda>(c, s).
        if \<not> fst (peek buf s [41]) then Inl (Panic ''syntax - missing )'')
        else parseredirs buf c (token_end buf (snd (peek buf s [41])))))"
| "parseexec 0 buf ps = Inl Diverges"
| "parseexec (Suc n) buf ps =
     (if fst (peek buf ps [40]) then parseblock n buf (snd (peek buf ps [40]))
      else bindR (parseredirs buf (EXEC []) (snd (peek buf ps [40]))) (\<lambda>(c, s). parseargs buf 0 c s))"

text \<open>\<^verbatim>\<open>nulterminate\<close> writes into the line itself, which has room for the NUL at its end.\<close>

fun nulterminate :: "tok cmd \<Rightarrow> cchar list \<Rightarrow> cchar list" where
  "nulterminate (EXEC as) arr = fold (\<lambda>(q, eq) arr. arr[eq := 0]) as arr"
| "nulterminate (REDIR c f m d) arr = (nulterminate c arr)[snd f := 0]"
| "nulterminate (PIPE l r) arr = nulterminate r (nulterminate l arr)"
| "nulterminate (LIST l r) arr = nulterminate r (nulterminate l arr)"
| "nulterminate (BACK c) arr = nulterminate c arr"

definition parsecmd_toks :: "cchar list \<Rightarrow> (tok cmd \<times> cchar list) res" where
  "parsecmd_toks s =
     bindR (parseline (4 * length s + 4) s 0) (\<lambda>(c, p).
       if snd (peek s p []) \<noteq> length s then Inl (Panic ''syntax'')
       else Inr (c, nulterminate c (s @ [0])))"

text \<open>The command the caller sees: every word is the C string at its first position.\<close>

definition str_at :: "cchar list \<Rightarrow> tok \<Rightarrow> cchar list" where
  "str_at arr x = takeWhile (\<lambda>c. c \<noteq> 0) (drop (fst x) arr)"

definition parsecmd :: "cchar list \<Rightarrow> cchar list cmd res" where
  "parsecmd s = bindR (parsecmd_toks s) (\<lambda>(c, arr). Inr (map_cmd (str_at arr) c))"

subsection \<open>Running commands\<close>

definition sh_panic :: "'w calls \<Rightarrow> string \<Rightarrow> ('x, 'w) act" where
  "sh_panic k msg = seqU (u_printf k 2 ''%s\<newline>'' [Str (Some (ascii msg))]) exitU"

definition fork1 :: "'w calls \<Rightarrow> (cint, 'w) act" where
  "fork1 k = bindU (sysU (u_fork k)) (\<lambda>pid. if pid = -1 then sh_panic k ''fork'' else retU pid)"

text \<open>\<^verbatim>\<open>if(fork1() == 0) child\<close>\<close>

definition in_child :: "'w calls \<Rightarrow> (unit, 'w) act \<Rightarrow> (unit, 'w) act" where
  "in_child k m = bindU (fork1 k) (\<lambda>pid. if pid = 0 then m else retU ())"

fun runcmd :: "'w calls \<Rightarrow> cchar list cmd \<Rightarrow> (unit, 'w) act" where
  "runcmd k (EXEC argv) =
     (case argv of
        [] \<Rightarrow> exitU
      | a0 # _ \<Rightarrow> seqU (execU k a0 argv) (seqU (u_printf k 2 ''exec %s failed\<newline>'' [Str (Some a0)]) exitU))"
| "runcmd k (REDIR c f mode fd) =
     seqU (sysU (u_close k fd))
       (bindU (sysU (u_open k f mode)) (\<lambda>r.
          if sint r < 0 then seqU (u_printf k 2 ''open %s failed\<newline>'' [Str (Some f)]) exitU
          else seqU (runcmd k c) exitU))"
| "runcmd k (LIST l r) = seqU (in_child k (runcmd k l)) (seqU (sysU (u_wait k)) (seqU (runcmd k r) exitU))"
| "runcmd k (PIPE l r) =
     bindU (sysU (u_pipe k)) (\<lambda>(e, p0, p1).
       if sint e < 0 then sh_panic k ''pipe''
       else
         seqU (in_child k (seqU (sysU (u_close k 1)) (seqU (sysU (u_dup k p1))
                 (seqU (sysU (u_close k p0)) (seqU (sysU (u_close k p1)) (runcmd k l))))))
        (seqU (in_child k (seqU (sysU (u_close k 0)) (seqU (sysU (u_dup k p0))
                 (seqU (sysU (u_close k p0)) (seqU (sysU (u_close k p1)) (runcmd k r))))))
        (seqU (sysU (u_close k p0)) (seqU (sysU (u_close k p1))
           (seqU (sysU (u_wait k)) (seqU (sysU (u_wait k)) exitU))))))"
| "runcmd k (BACK c) = seqU (in_child k (runcmd k c)) exitU"

text \<open>The line read, or \<^const>\<open>None\<close> at the end of the input.\<close>

definition getcmd :: "'w calls \<Rightarrow> (cchar list option, 'w) act" where
  "getcmd k =
     seqU (u_printf k 2 ''$ '' [])
       (bindU (u_gets k 100) (\<lambda>cs.
          let s = takeWhile (\<lambda>c. c \<noteq> 0) cs in retU (if s = [] then None else Some s)))"

partial_function (option) sh_open :: "'w calls \<Rightarrow> 'w \<Rightarrow> ('w uend + unit \<times> 'w) option" where
  "sh_open k w =
     bindU (sysU (u_open k (ascii ''console'') O_RDWR)) (\<lambda>fd w1.
       if sint fd < 0 then retU () w1
       else if 3 \<le> sint fd then seqU (sysU (u_close k fd)) (retU ()) w1
       else sh_open k w1) w"

text \<open>A syntax error ends the process that parses, a child of the shell.\<close>

definition run_line :: "'w calls \<Rightarrow> cchar list \<Rightarrow> (unit, 'w) act" where
  "run_line k s =
     (case parsecmd s of
        Inr c \<Rightarrow> runcmd k c
      | Inl (Panic msg) \<Rightarrow> sh_panic k msg
      | Inl _ \<Rightarrow> (\<lambda>w. None))"

partial_function (option) sh_loop :: "'w calls \<Rightarrow> 'w \<Rightarrow> ('w uend + unit \<times> 'w) option" where
  "sh_loop k w =
     bindU (getcmd k) (\<lambda>line w1.
       case line of
         None \<Rightarrow> exitU w1
       | Some s \<Rightarrow>
           if take 3 s = [99, 100, 32] then
             bindU (sysU (u_chdir k (drop 3 (butlast s)))) (\<lambda>r w2.
               bindU (if sint r < 0 then u_printf k 2 ''cannot cd %s\<newline>'' [Str (Some (drop 3 (butlast s)))] else retU ())
                 (\<lambda>_ w3. sh_loop k w3) w2) w1
           else bindU (seqU (in_child k (run_line k s)) (sysU (u_wait k))) (\<lambda>_ w2. sh_loop k w2) w1) w"

definition sh_main :: "'w calls \<Rightarrow> (unit, 'w) act" where
  "sh_main k = seqU (sh_open k) (sh_loop k)"

subsection \<open>The parser always ends\<close>

lemma parsebacks_moves: "ps \<le> snd (parsebacks buf c ps)"
proof (induction buf c ps rule: parsebacks.induct)
  case (1 buf c ps)
  show ?case
  proof (cases "fst (peek buf ps [38])")
    case True
    then show ?thesis using 1[OF True] token_end_moves[OF True] by (subst parsebacks.simps) simp
  next
    case False
    then show ?thesis using peek_ge[of ps buf] by (subst parsebacks.simps) simp
  qed
qed

lemma parseargs_moves: "parseargs buf argc c ps = Inr (c', s) \<Longrightarrow> ps \<le> s"
proof (induction buf argc c ps rule: parseargs.induct)
  case (1 buf argc c ps)
  let ?s = "snd (peek buf ps [124, 41, 38, 59])"
  show ?case
  proof (cases "fst (peek buf ps [124, 41, 38, 59])")
    case True
    then show ?thesis using "1.prems" peek_ge by (subst (asm) parseargs.simps) auto
  next
    case False
    with "1.prems"[unfolded parseargs.simps[of buf argc c ps]] obtain r where r: "parsearg buf argc c ?s = Inr r"
      "(case r of None \<Rightarrow> Inr (c, ?s) | Some cs \<Rightarrow> parseargs buf (argc + 1) (fst cs) (snd cs)) = Inr (c', s)"
      unfolding if_not_P[OF False] bindR_eq_Inr by blast
    show ?thesis
    proof (cases r)
      case None
      then show ?thesis using r(2) peek_ge[of ps buf] by auto
    next
      case (Some cs)
      then have "snd cs \<le> s" using "1.IH"[OF False r(1), of cs] r(2) by simp
      moreover have "?s < snd cs" using parsearg_moves[of buf argc c ?s "fst cs" "snd cs"] r(1) Some by simp
      ultimately show ?thesis using peek_ge[of ps buf "[124, 41, 38, 59]"] by linarith
    qed
  qed
qed

lemma parse_moves:
  "parseline n buf ps = Inr (c, s) \<Longrightarrow> ps \<le> s"
  "parsepipe n buf ps = Inr (c, s) \<Longrightarrow> ps \<le> s"
  "parseblock n buf ps = Inr (c, s) \<Longrightarrow> ps \<le> s"
  "parseexec n buf ps = Inr (c, s) \<Longrightarrow> ps \<le> s"
proof (induction n arbitrary: ps c s)
  case (Suc n)
  { case 1
    then obtain c0 s0 where p: "parsepipe n buf ps = Inr (c0, s0)" by (auto simp: bindR_eq_Inr)
    obtain c1 s1 where b: "parsebacks buf c0 s0 = (c1, s1)" by fastforce
    have "ps \<le> s1" using Suc(2)[OF p] parsebacks_moves[of s0 buf c0] b by simp
    moreover have "s1 \<le> s"
      using 1 p b token_end_moves[of buf s1 "[59]"] peek_ge[of s1 buf "[59]"]
      by (auto simp: bindR_eq_Inr split: if_splits dest!: Suc(1))
    ultimately show ?case by simp
  next
    case 2
    then obtain c0 s0 where p: "parseexec n buf ps = Inr (c0, s0)" by (auto simp: bindR_eq_Inr)
    have "s0 \<le> s"
      using 2 p token_end_moves[of buf s0 "[124]"] peek_ge[of s0 buf "[124]"]
      by (auto simp: bindR_eq_Inr split: if_splits dest!: Suc(2))
    then show ?case using Suc(4)[OF p] by simp
  next
    case 3
    then have t: "fst (peek buf ps [40])" by (auto split: if_splits)
    with 3 obtain c0 s0 where p: "parseline n buf (token_end buf (snd (peek buf ps [40]))) = Inr (c0, s0)"
      "fst (peek buf s0 [41])" "parseredirs buf c0 (token_end buf (snd (peek buf s0 [41]))) = Inr (c, s)"
      by (auto simp: bindR_eq_Inr split: if_splits)
    show ?case
      using Suc(1)[OF p(1)] parseredirs_moves[OF p(3)] token_end_moves[OF t] token_end_moves[OF p(2)] by simp
  next
    case 4
    then show ?case using peek_ge[of ps buf "[40]"]
      by (auto simp: bindR_eq_Inr split: if_splits dest!: Suc(3) parseargs_moves parseredirs_moves) }
qed simp_all

text \<open>Ending with a diagnostic, if not with a result.\<close>

definition ends :: "'x res \<Rightarrow> bool" where
  "ends r \<longleftrightarrow> (\<forall>e. r = Inl e \<longrightarrow> (\<exists>msg. e = Panic msg))"

lemma ends_simps [simp]: "ends (Inr x)" "ends (Inl (Panic msg))" "\<not> ends (Inl Diverges)"
  by (simp_all add: ends_def)

lemma ends_bindR: "ends m \<Longrightarrow> (\<And>x. m = Inr x \<Longrightarrow> ends (f x)) \<Longrightarrow> ends (bindR m f)"
  by (cases m) (auto simp: ends_def)

lemma parseredirs_ends: "ends (parseredirs buf c ps)"
proof (induction buf c ps rule: parseredirs.induct)
  case (1 buf c ps)
  have "ends (parseredir buf c s)" for s by (auto simp: parseredir_def split: prod.splits if_splits)
  then show ?case using 1 by (subst parseredirs.simps) (auto intro!: ends_bindR split: prod.splits)
qed

lemma parseargs_ends: "ends (parseargs buf argc c ps)"
proof (induction buf argc c ps rule: parseargs.induct)
  case (1 buf argc c ps)
  have "ends (parsearg buf argc c s)" for s
    using parseredirs_ends by (auto simp: parsearg_def intro!: ends_bindR split: prod.splits if_splits)
  then show ?case using 1 by (subst parseargs.simps) (auto intro!: ends_bindR split: option.splits)
qed

lemma parse_ends:
  "4 * (length buf - ps) + 4 \<le> n \<Longrightarrow> ends (parseline n buf ps)"
  "4 * (length buf - ps) + 3 \<le> n \<Longrightarrow> ends (parsepipe n buf ps)"
  "4 * (length buf - ps) + 1 \<le> n \<Longrightarrow> ends (parseblock n buf ps)"
  "4 * (length buf - ps) + 2 \<le> n \<Longrightarrow> ends (parseexec n buf ps)"
proof (induction n arbitrary: ps)
  case (Suc n)
  have te: "4 * (length buf - token_end buf (snd (peek buf s x))) + 4 \<le> 4 * (length buf - ps)"
    if "fst (peek buf s x)" "ps \<le> s" for ps s x
    using token_end_moves[OF that(1)] that(2) by linarith
  { case 1
    have p: "ends (parsepipe n buf ps)" by (rule Suc(2)) (use 1 in simp)
    have q: "ends (parseline n buf (token_end buf (snd (peek buf s [59]))))"
      if "fst (peek buf s [59])" "ps \<le> s" for s by (rule Suc(1)) (use te[OF that] 1 in linarith)
    have "ps \<le> s1" if "parsepipe n buf ps = Inr (c0, s0)" "parsebacks buf c0 s0 = (c1, s1)" for c0 s0 c1 s1
      using parse_moves(2)[OF that(1)] parsebacks_moves[of s0 buf c0] that(2) by simp
    then show ?case using p q by (auto intro!: ends_bindR simp: Let_def split: prod.splits if_splits)
  next
    case 2
    have p: "ends (parseexec n buf ps)" by (rule Suc(4)) (use 2 in simp)
    have "ends (parsepipe n buf (token_end buf (snd (peek buf s [124]))))"
      if "fst (peek buf s [124])" "ps \<le> s" for s by (rule Suc(2)) (use te[OF that] 2 in linarith)
    then show ?case using p parse_moves(4)[of n buf ps] by (auto intro!: ends_bindR split: prod.splits if_splits)
  next
    case 3
    have "ends (parseline n buf (token_end buf (snd (peek buf ps [40]))))" if "fst (peek buf ps [40])"
      by (rule Suc(1)) (use te[OF that order_refl] 3 in linarith)
    then show ?case using parseredirs_ends by (auto intro!: ends_bindR split: prod.splits if_splits)
  next
    case 4
    have "ends (parseblock n buf (snd (peek buf ps [40])))"
      by (rule Suc(3)) (use 4 peek_ge[of ps buf "[40]"] in linarith)
    then show ?case using parseredirs_ends parseargs_ends by (auto intro!: ends_bindR split: prod.splits if_splits) }
qed simp_all

subsection \<open>The words of a parsed command\<close>

definition plain :: "cchar \<Rightarrow> bool" where
  "plain c \<longleftrightarrow> c \<noteq> 0 \<and> c \<notin> set whitespace \<and> c \<notin> set symbols"

definition is_word :: "cchar list \<Rightarrow> bool" where
  "is_word w \<longleftrightarrow> w \<noteq> [] \<and> (\<forall>c\<in>set w. plain c)"

text \<open>What the parser promises of a command: words, at most nine arguments, known redirections.\<close>

fun wf_cmd :: "('x \<Rightarrow> bool) \<Rightarrow> 'x cmd \<Rightarrow> bool" where
  "wf_cmd P (EXEC as) \<longleftrightarrow> length as < MAXARGS \<and> (\<forall>x\<in>set as. P x)"
| "wf_cmd P (REDIR c f m d) \<longleftrightarrow> wf_cmd P c \<and> P f \<and> (m = O_RDONLY \<and> d = 0 \<or> m = O_WRONLY OR O_CREATE \<and> d = 1)"
| "wf_cmd P (PIPE l r) \<longleftrightarrow> wf_cmd P l \<and> wf_cmd P r"
| "wf_cmd P (LIST l r) \<longleftrightarrow> wf_cmd P l \<and> wf_cmd P r"
| "wf_cmd P (BACK c) \<longleftrightarrow> wf_cmd P c"

definition good_tok :: "cchar list \<Rightarrow> tok \<Rightarrow> bool" where
  "good_tok buf x \<longleftrightarrow> fst x < snd x \<and> snd x \<le> length buf \<and> (\<forall>i\<in>{fst x..<snd x}. plain (buf ! i)) \<and>
     \<not> plain (cstr_at buf (snd x))"

lemma skip_word_spec:
  assumes "0 \<notin> set buf" and "s \<le> length buf"
  shows "skip_word buf s \<le> length buf \<and> (\<forall>i\<in>{s..<skip_word buf s}. plain (buf ! i)) \<and>
    \<not> plain (cstr_at buf (skip_word buf s))"
  using assms
proof (induction buf s rule: skip_word.induct)
  case (1 buf s)
  show ?case
  proof (cases "s < length buf \<and> buf ! s \<notin> set whitespace \<and> buf ! s \<notin> set symbols")
    case True
    have e: "skip_word buf s = skip_word buf (s + 1)" using True by (subst skip_word.simps) simp
    have "plain (buf ! s)" unfolding plain_def using True "1.prems"(1) by (metis nth_mem)
    then show ?thesis using 1(1)[OF True] "1.prems" True unfolding e
      by (auto simp: Suc_le_eq)
  next
    case False
    have e: "skip_word buf s = s" using False by (subst skip_word.simps) auto
    show ?thesis using False "1.prems" unfolding e by (auto simp: plain_def cstr_at_def)
  qed
qed

lemma gettoken_word:
  assumes "gettoken buf ps = (97, q, eq, s)" and "0 \<notin> set buf"
  shows "good_tok buf (q, eq)"
proof -
  have q: "q < eq" "q < length buf" using gettoken_moves[OF assms(1)] by auto
  have "eq = skip_word buf q" using assms(1) by (auto simp: gettoken_def Let_def split: if_splits)
  then show ?thesis using q skip_word_spec[OF assms(2), of q] by (simp add: good_tok_def)
qed

lemma parseredir_wf:
  assumes "parseredir buf c s = Inr (c', s')" and "wf_cmd (good_tok buf) c" and "0 \<notin> set buf"
  shows "wf_cmd (good_tok buf) c'"
  using assms gettoken_word[OF _ assms(3)]
  by (auto simp: parseredir_def split: prod.splits if_splits)

lemma parseredirs_wf:
  assumes "parseredirs buf c ps = Inr (c', s)" and "wf_cmd (good_tok buf) c" and "0 \<notin> set buf"
  shows "wf_cmd (good_tok buf) c'"
  using assms
proof (induction buf c ps rule: parseredirs.induct)
  case (1 buf c ps)
  show ?case
  proof (cases "fst (peek buf ps [60, 62])")
    case False
    then show ?thesis using "1.prems" by (subst (asm) parseredirs.simps) auto
  next
    case True
    with "1.prems"(1)[unfolded parseredirs.simps[of buf c ps]] obtain c1 s1 where
      p: "parseredir buf c (snd (peek buf ps [60, 62])) = Inr (c1, s1)" "parseredirs buf c1 s1 = Inr (c', s)"
      by (auto simp: bindR_eq_Inr)
    show ?thesis using "1.IH"[OF True p(1) refl p(2)] parseredir_wf[OF p(1)] "1.prems" by simp
  qed
qed

text \<open>How many words the innermost \<^verbatim>\<open>execcmd\<close> has; redirections do not change it.\<close>

fun nargs :: "'x cmd \<Rightarrow> nat option" where
  "nargs (EXEC as) = Some (length as)"
| "nargs (REDIR c f m d) = nargs c"
| "nargs c = None"

lemma parseredirs_nargs: "parseredirs buf c ps = Inr (c', s) \<Longrightarrow> nargs c' = nargs c"
proof (induction buf c ps rule: parseredirs.induct)
  case (1 buf c ps)
  show ?case
  proof (cases "fst (peek buf ps [60, 62])")
    case False
    then show ?thesis using "1.prems" by (subst (asm) parseredirs.simps) auto
  next
    case True
    with "1.prems"[unfolded parseredirs.simps[of buf c ps]] obtain c1 s1 where
      p: "parseredir buf c (snd (peek buf ps [60, 62])) = Inr (c1, s1)" "parseredirs buf c1 s1 = Inr (c', s)"
      by (auto simp: bindR_eq_Inr)
    have "nargs c1 = nargs c" using p(1) by (auto simp: parseredir_def split: prod.splits if_splits)
    then show ?thesis using "1.IH"[OF True p(1) refl p(2)] by simp
  qed
qed

lemma add_arg_nargs [simp]: "nargs (add_arg x c) = map_option Suc (nargs c)"
  by (induction c) auto

lemma add_arg_wf: "wf_cmd P c \<Longrightarrow> P x \<Longrightarrow> nargs c = Some n \<Longrightarrow> n + 1 < MAXARGS \<Longrightarrow> wf_cmd P (add_arg x c)"
  by (induction c) auto

lemma parsearg_wf:
  assumes "parsearg buf argc c s = Inr (Some (c', s'))" and "wf_cmd (good_tok buf) c" and "nargs c = Some argc"
    and "0 \<notin> set buf"
  shows "wf_cmd (good_tok buf) c' \<and> nargs c' = Some (argc + 1)"
proof -
  obtain tok q eq s1 where g: "gettoken buf s = (tok, q, eq, s1)" by (cases "gettoken buf s") auto
  have t: "tok = 97" "argc + 1 < MAXARGS" and p: "parseredirs buf (add_arg (q, eq) c) s1 = Inr (c', s')"
    using assms(1) g by (auto simp: parsearg_def bindR_eq_Inr not_le split: if_splits)
  have w: "wf_cmd (good_tok buf) (add_arg (q, eq) c)"
    by (rule add_arg_wf[OF assms(2) _ assms(3) t(2)]) (use gettoken_word[of buf s q eq s1] g t assms(4) in simp)
  show ?thesis using parseredirs_wf[OF p w assms(4)] parseredirs_nargs[OF p] assms(3) by simp
qed

lemma parseargs_wf:
  assumes "parseargs buf argc c ps = Inr (c', s)" and "wf_cmd (good_tok buf) c" and "nargs c = Some argc"
    and "0 \<notin> set buf"
  shows "wf_cmd (good_tok buf) c'"
  using assms
proof (induction buf argc c ps rule: parseargs.induct)
  case (1 buf argc c ps)
  let ?s = "snd (peek buf ps [124, 41, 38, 59])"
  show ?case
  proof (cases "fst (peek buf ps [124, 41, 38, 59])")
    case True
    then show ?thesis using "1.prems" by (subst (asm) parseargs.simps) auto
  next
    case False
    with "1.prems"(1)[unfolded parseargs.simps[of buf argc c ps]] obtain r where r: "parsearg buf argc c ?s = Inr r"
      "(case r of None \<Rightarrow> Inr (c, ?s) | Some cs \<Rightarrow> parseargs buf (argc + 1) (fst cs) (snd cs)) = Inr (c', s)"
      unfolding if_not_P[OF False] bindR_eq_Inr by blast
    show ?thesis
    proof (cases r)
      case None
      then show ?thesis using r(2) "1.prems" by auto
    next
      case (Some cs)
      then have "wf_cmd (good_tok buf) (fst cs) \<and> nargs (fst cs) = Some (argc + 1)"
        using parsearg_wf[of buf argc c ?s "fst cs" "snd cs"] r(1) "1.prems" by simp
      then show ?thesis using "1.IH"[OF False r(1) Some] r(2) Some "1.prems" by simp
    qed
  qed
qed

lemma parsebacks_wf: "wf_cmd P c \<Longrightarrow> wf_cmd P (fst (parsebacks buf c ps))"
proof (induction buf c ps rule: parsebacks.induct)
  case (1 buf c ps)
  then show ?case by (subst parsebacks.simps) simp
qed

lemma parse_wf:
  assumes "0 \<notin> set buf"
  shows "parseline n buf ps = Inr (c, s) \<Longrightarrow> wf_cmd (good_tok buf) c"
    "parsepipe n buf ps = Inr (c, s) \<Longrightarrow> wf_cmd (good_tok buf) c"
    "parseblock n buf ps = Inr (c, s) \<Longrightarrow> wf_cmd (good_tok buf) c"
    "parseexec n buf ps = Inr (c, s) \<Longrightarrow> wf_cmd (good_tok buf) c"
proof (induction n arbitrary: ps c s)
  case (Suc n)
  { case 1
    then obtain c0 s0 where p: "parsepipe n buf ps = Inr (c0, s0)" by (auto simp: bindR_eq_Inr)
    obtain c1 s1 where b: "parsebacks buf c0 s0 = (c1, s1)" by fastforce
    have "wf_cmd (good_tok buf) c1" using parsebacks_wf[OF Suc(2)[OF p], of buf s0] b by simp
    then show ?case using 1 p b by (auto simp: bindR_eq_Inr split: if_splits dest!: Suc(1))
  next
    case 2
    then show ?case by (auto simp: bindR_eq_Inr split: if_splits dest!: Suc(2) Suc(4))
  next
    case 3
    then show ?case by (auto simp: bindR_eq_Inr split: if_splits dest!: Suc(1) intro: parseredirs_wf[OF _ _ assms])
  next
    case 4
    have e: "wf_cmd (good_tok buf) (EXEC [])" by (simp add: MAXARGS_def)
    have "wf_cmd (good_tok buf) c'" if "parseredirs buf (EXEC []) s0 = Inr (c1, s1)" "parseargs buf 0 c1 s1 = Inr (c', s2)"
      for s0 c1 s1 c' s2
      using parseargs_wf[OF that(2) parseredirs_wf[OF that(1) e assms] _ assms] parseredirs_nargs[OF that(1)] by simp
    then show ?case using 4 by (auto simp: bindR_eq_Inr split: if_splits dest!: Suc(3)) }
qed simp_all

text \<open>\<^verbatim>\<open>nulterminate\<close> puts a NUL behind every word and changes nothing else.\<close>

lemma nulterminate_args:
  "length (fold (\<lambda>(q, eq) arr. arr[eq := 0 :: cchar]) as arr) = length arr"
  "i < length arr \<Longrightarrow>
     fold (\<lambda>(q, eq) arr. arr[eq := 0 :: cchar]) as arr ! i = (if i \<in> snd ` set as then 0 else arr ! i)"
  by (induction as arbitrary: arr) (auto simp: nth_list_update split: prod.splits if_splits)

lemma nulterminate_length [simp]: "length (nulterminate c arr) = length arr"
  by (induction c arbitrary: arr) (simp_all add: nulterminate_args)

lemma nulterminate_nth:
  "i < length arr \<Longrightarrow> nulterminate c arr ! i = (if i \<in> snd ` set_cmd c then 0 else arr ! i)"
proof (induction c arbitrary: arr)
  case (EXEC as)
  then show ?case by (simp add: nulterminate_args)
next
  case (REDIR c f m d)
  then show ?case by (cases "i = snd f") auto
qed auto

lemma wf_cmd_set: "wf_cmd P c \<Longrightarrow> x \<in> set_cmd c \<Longrightarrow> P x"
  by (induction c) auto

lemma wf_cmd_map: "wf_cmd P c \<Longrightarrow> (\<And>x. x \<in> set_cmd c \<Longrightarrow> Q (f x)) \<Longrightarrow> wf_cmd Q (map_cmd f c)"
  by (induction c) auto

lemma str_at_nulterminate:
  assumes "wf_cmd (good_tok buf) c" and "x \<in> set_cmd c"
  shows "str_at (nulterminate c (buf @ [0])) x = slice (fst x) (snd x - fst x) buf \<and>
    is_word (slice (fst x) (snd x - fst x) buf)"
proof -
  obtain q eq where x: "x = (q, eq)" by (cases x)
  have g: "q < eq" "eq \<le> length buf" "\<And>i. q \<le> i \<Longrightarrow> i < eq \<Longrightarrow> plain (buf ! i)"
    using wf_cmd_set[OF assms] by (auto simp: good_tok_def x)
  let ?a = "nulterminate c (buf @ [0])"
  have l: "length ?a = length buf + 1" by simp
  have "eq \<in> snd ` set_cmd c" using assms(2) x by force
  then have z: "?a ! eq = 0" using g(2) by (simp add: nulterminate_nth)
  have k: "?a ! i = buf ! i" if i: "q \<le> i" "i < eq" for i
  proof -
    have "i \<notin> snd ` set_cmd c"
    proof
      assume "i \<in> snd ` set_cmd c"
      then obtain y where "y \<in> set_cmd c" "snd y = i" by auto
      then have "\<not> plain (cstr_at buf i)" using wf_cmd_set[OF assms(1), of y] by (simp add: good_tok_def)
      then show False using g(3)[OF i] i g(2) by (simp add: cstr_at_def)
    qed
    then show ?thesis using i g(2) by (simp add: nulterminate_nth nth_append)
  qed
  have w: "\<forall>c\<in>set (slice q (eq - q) buf). plain c"
  proof
    fix c assume "c \<in> set (slice q (eq - q) buf)"
    then obtain j where "j < eq - q" "c = buf ! (q + j)" using g(1,2) by (auto simp: slice_def in_set_conv_nth)
    then show "plain c" using g(3)[of "q + j"] by simp
  qed
  have "slice q (eq - q) ?a = slice q (eq - q) buf"
    using g l k by (auto simp: slice_def intro!: nth_equalityI)
  moreover have "drop q ?a = slice q (eq - q) ?a @ ?a ! eq # drop (eq + 1) ?a"
  proof -
    have "drop eq ?a = ?a ! eq # drop (eq + 1) ?a" using g l by (simp add: Cons_nth_drop_Suc)
    moreover have "drop eq ?a = drop (eq - q) (drop q ?a)" using g(1) by simp
    ultimately show ?thesis unfolding slice_def by (metis append_take_drop_id)
  qed
  ultimately have "drop q ?a = slice q (eq - q) buf @ 0 # drop (eq + 1) ?a" using z by simp
  then show ?thesis using w x g(1,2) by (auto simp: str_at_def is_word_def plain_def takeWhile_append slice_def)
qed

text \<open>
  C28. The parser of the shell is total: on every line it either ends with one of its
  diagnostics or returns a command, never running out of the call depth it is given; and the
  command it returns is well formed after \<^verbatim>\<open>nulterminate\<close> cut the line: every word in it is a
  non-empty string of plain characters, no \<^verbatim>\<open>execcmd\<close> has more than nine arguments, so that
  its NULL fits, and a redirection is of descriptor 0 for reading or 1 for writing.
\<close>

theorem parsecmd_total_wf:
  assumes "0 \<notin> set line"
  shows "case parsecmd line of Inl e \<Rightarrow> (\<exists>msg. e = Panic msg) | Inr c \<Rightarrow> wf_cmd is_word c"
proof (cases "parseline (4 * length line + 4) line 0")
  case (Inl e)
  have "ends (parseline (4 * length line + 4) line 0)" by (rule parse_ends(1)) simp
  then show ?thesis using Inl by (simp add: parsecmd_def parsecmd_toks_def ends_def)
next
  case (Inr r)
  obtain c p where r: "r = (c, p)" by (cases r)
  have w: "wf_cmd (good_tok line) c" by (rule parse_wf(1)[OF assms]) (use Inr r in simp)
  have "wf_cmd is_word (map_cmd (str_at (nulterminate c (line @ [0]))) c)"
    by (rule wf_cmd_map[OF w]) (use str_at_nulterminate[OF w] in simp)
  then show ?thesis using Inr r by (simp add: parsecmd_def parsecmd_toks_def)
qed

theorem parsecmd_total_wf_witness:
  "case parsecmd [108, 115, 32, 62, 32, 102] of Inl e \<Rightarrow> (\<exists>msg. e = Panic msg) | Inr c \<Rightarrow> wf_cmd is_word c"
  by (rule parsecmd_total_wf) simp

end
