(* ===== verification/ShellRound.thy ===== *)
theory ShellRound
  imports Shell
begin

section \<open>Parsing undoes printing (sh.c)\<close>

text \<open>
  Commands are printed the way one would type them, with the parentheses they need, and the
  shell's parser is shown to give back the command that was printed.  The parser is followed
  on the text that is still to be read: \<open>sk\<close> is that text from its next token on.
\<close>

subsection \<open>Printing a command and parsing it back\<close>

text \<open>
  A command as one would type it.  The level says what may stand there without parentheses:
  0 a line, 1 a pipe with ampersands, 2 a pipe, 3 a simple command.
\<close>

definition paren :: "bool \<Rightarrow> cchar list \<Rightarrow> cchar list" where
  "paren b xs = (if b then 40 # xs @ [41] else xs)"

fun show_cmd :: "nat \<Rightarrow> cchar list cmd \<Rightarrow> cchar list" where
  "show_cmd v (EXEC as) = concat (map (\<lambda>a. a @ [32]) as)"
| "show_cmd v (REDIR c f m d) = show_cmd 3 c @ (if d = 0 then 60 else 62) # 32 # f @ [32]"
| "show_cmd v (PIPE l r) = paren (2 < v) (show_cmd 3 l @ 124 # show_cmd 2 r)"
| "show_cmd v (BACK c) = paren (1 < v) (show_cmd 1 c @ [38])"
| "show_cmd v (LIST l r) = paren (0 < v) (show_cmd 1 l @ 59 # show_cmd 0 r)"

text \<open>A text from its first character that is not white space.\<close>

fun sk :: "cchar list \<Rightarrow> cchar list" where
  "sk [] = []"
| "sk (c # xs) = (if c \<in> set whitespace then sk xs else c # xs)"

lemma drop_skip_ws: "drop (skip_ws buf s) buf = sk (drop s buf)"
proof (induction buf s rule: skip_ws.induct)
  case (1 buf s)
  show ?case
  proof (cases "s < length buf \<and> buf ! s \<in> set whitespace")
    case True
    then show ?thesis using 1[OF True] by (subst skip_ws.simps) (simp flip: Cons_nth_drop_Suc)
  next
    case False
    then show ?thesis
      by (subst skip_ws.simps) (cases "s < length buf"; auto simp flip: Cons_nth_drop_Suc)
  qed
qed

lemma sk_sk [simp]: "sk (sk xs) = sk xs"
  by (induction xs) auto

lemma sk_skip_ws [simp]: "sk (drop (skip_ws buf s) buf) = sk (drop s buf)"
  by (simp add: drop_skip_ws)

lemma sk_set: "c \<in> set (sk xs) \<Longrightarrow> c \<in> set xs"
  by (induction xs) (auto split: if_splits)

lemma cstr_at_drop: "cstr_at buf s = (case drop s buf of [] \<Rightarrow> 0 | c # _ \<Rightarrow> c)"
  by (cases "s < length buf") (simp_all add: cstr_at_def Cons_nth_drop_Suc[symmetric])

lemma peek_drop:
  "fst (peek buf s toks) \<longleftrightarrow> (case sk (drop s buf) of [] \<Rightarrow> False | c # _ \<Rightarrow> c \<noteq> 0 \<and> c \<in> set toks)"
  "drop (snd (peek buf s toks)) buf = sk (drop s buf)"
  "snd (peek buf s toks) = skip_ws buf s"
  by (cases "sk (drop s buf)"; simp add: peek_def Let_def cstr_at_drop drop_skip_ws)+

lemma drop_Cons_less: "drop s buf = c # r \<Longrightarrow> s < length buf \<and> drop (s + 1) buf = r \<and> buf ! s = c"
  by (metis Cons_nth_drop_Suc Suc_eq_plus1 drop_eq_Nil list.distinct(1) list.inject not_le)

text \<open>The symbols as tokens.\<close>

lemma token_end_symbol:
  assumes "sk (drop s buf) = c # r" and "c \<in> {124, 40, 41, 59, 38, 60} \<or> c = 62 \<and> take 1 r \<noteq> [62]"
  shows "drop (token_end buf s) buf = sk r" "fst (gettoken buf s) = c"
proof -
  have d: "drop (skip_ws buf s) buf = c # r" using assms(1) by (simp add: drop_skip_ws)
  note l = drop_Cons_less[OF d]
  have c: "cstr_at buf (skip_ws buf s) = c" using d by (simp add: cstr_at_drop)
  have "cstr_at buf (skip_ws buf s + 1) \<noteq> 62" if "take 1 r \<noteq> [62]"
    using l that by (cases r) (auto simp: cstr_at_drop)
  then have "gettoken buf s = (c, skip_ws buf s, skip_ws buf s + 1, skip_ws buf (skip_ws buf s + 1))"
    using assms(2) c by (auto simp: gettoken_def Let_def)
  then show "drop (token_end buf s) buf = sk r" "fst (gettoken buf s) = c"
    using l by (simp_all add: token_end_def drop_skip_ws)
qed

lemma skip_word_drop:
  assumes "drop s buf = a @ x # r" and "\<forall>c\<in>set a. plain c" and "\<not> plain x" and "x \<noteq> 0"
  shows "skip_word buf s = s + length a"
  using assms
proof (induction a arbitrary: s)
  case Nil
  then show ?case using drop_Cons_less[of s buf x r] by (subst skip_word.simps) (auto simp: plain_def)
next
  case (Cons c a)
  have d: "s < length buf" "drop (s + 1) buf = a @ x # r" "buf ! s = c"
    using drop_Cons_less[of s buf c "a @ x # r"] Cons.prems(1) by auto
  then show ?case using Cons.IH[OF d(2)] Cons.prems by (subst skip_word.simps) (auto simp: plain_def)
qed

text \<open>The text of a word.\<close>

definition tx :: "cchar list \<Rightarrow> tok \<Rightarrow> cchar list" where
  "tx buf x = slice (fst x) (snd x - fst x) buf"

lemma gettoken_drop_word:
  assumes "sk (drop s buf) = a @ x # r" and "is_word a" and "\<not> plain x" and "x \<noteq> 0"
  shows "\<exists>q eq s1. gettoken buf s = (97, q, eq, s1) \<and> tx buf (q, eq) = a \<and> drop s1 buf = sk (x # r)"
proof -
  obtain c a' where a: "a = c # a'" "plain c" using assms(2) by (cases a) (auto simp: is_word_def)
  let ?q = "skip_ws buf s"
  have d: "drop ?q buf = a @ x # r" using assms(1) by (simp add: drop_skip_ws)
  have c: "cstr_at buf ?q = c" using d a by (simp add: cstr_at_drop)
  have w: "skip_word buf ?q = ?q + length a"
    by (rule skip_word_drop[OF d]) (use assms in \<open>simp_all add: is_word_def\<close>)
  have "gettoken buf s = (97, ?q, ?q + length a, skip_ws buf (?q + length a))"
    using c a(2) w by (auto simp: gettoken_def Let_def plain_def symbols_def)
  moreover have "tx buf (?q, ?q + length a) = a" using d by (simp add: tx_def slice_def)
  moreover have "drop (skip_ws buf (?q + length a)) buf = sk (x # r)"
    using d by (simp add: drop_skip_ws add.commute[of ?q] flip: drop_drop)
  ultimately show ?thesis by blast
qed

subsection \<open>Simple commands\<close>

text \<open>What is left of \<^verbatim>\<open>parseexec\<close>, or of \<^verbatim>\<open>parseblock\<close>, when it has a command and is about to look for redirections.\<close>

definition exec_rest :: "cchar list \<Rightarrow> tok cmd \<Rightarrow> nat \<Rightarrow> (tok cmd \<times> nat) res" where
  "exec_rest buf c s =
     (case nargs c of
        None \<Rightarrow> parseredirs buf c s
      | Some n \<Rightarrow> bindR (parseredirs buf c s) (\<lambda>(c1, s1). parseargs buf n c1 s1))"

definition heads :: "cchar list \<Rightarrow> cchar list \<Rightarrow> bool" where
  "heads X xs \<longleftrightarrow> (case sk xs of [] \<Rightarrow> True | c # _ \<Rightarrow> c \<in> set X)"

lemma heads_mono: "heads X xs \<Longrightarrow> set X \<subseteq> set Y \<Longrightarrow> heads Y xs"
  by (auto simp: heads_def split: list.splits)

lemma parseredirs_none:
  assumes "heads X (drop s buf)" and "60 \<notin> set X" and "62 \<notin> set X"
  shows "parseredirs buf c s = Inr (c, skip_ws buf s)"
  using assms by (subst parseredirs.simps) (auto simp: peek_drop heads_def split: list.splits)

lemma exec_rest_done:
  assumes "heads [41, 59, 38, 124] (drop s buf)" and "0 \<notin> set buf"
  shows "exec_rest buf c s = Inr (c, skip_ws buf s)"
proof -
  have h: "heads [41, 59, 38, 124] (drop (skip_ws buf s) buf)"
    using assms(1) by (simp add: heads_def)
  have "parseargs buf n c (skip_ws buf s) = Inr (c, skip_ws buf s)" for n
  proof (cases "sk (drop s buf)")
    case Nil
    then have "\<not> fst (peek buf (skip_ws buf s) [124, 41, 38, 59])" "cstr_at buf (skip_ws buf s) = 0"
      by (simp_all add: peek_drop drop_skip_ws cstr_at_drop)
    moreover have "parsearg buf n c (skip_ws buf s) = Inr None"
      using calculation(2) by (simp add: parsearg_def gettoken_def Let_def)
    ultimately show ?thesis by (subst parseargs.simps) (simp add: peek_drop(3))
  next
    case (Cons x xs)
    have "x \<in> set buf"
      using Cons sk_set[of x "drop s buf"] in_set_dropD[of x s buf] by simp
    then have "x \<noteq> 0" using assms(2) by auto
    then have "fst (peek buf (skip_ws buf s) [124, 41, 38, 59])"
      using Cons h by (auto simp: peek_drop heads_def)
    then show ?thesis by (subst parseargs.simps) (simp add: peek_drop(3))
  qed
  then show ?thesis
    using parseredirs_none[OF assms(1)] by (simp add: exec_rest_def split: option.splits)
qed

lemma exec_rest_word:
  assumes "sk (drop s buf) = a @ x # r" and "is_word a" and "\<not> plain x" and "x \<noteq> 0"
    and "nargs c = Some n" and "n + 1 < MAXARGS"
  shows "\<exists>tok s1. exec_rest buf c s = exec_rest buf (add_arg tok c) s1 \<and> tx buf tok = a \<and> drop s1 buf = sk (x # r)"
proof -
  obtain b a' where a: "a = b # a'" "plain b" using assms(2) by (cases a) (auto simp: is_word_def)
  have s: "sk (drop s buf) = b # a' @ x # r" using assms(1) a by simp
  have b: "b \<noteq> 60" "b \<noteq> 62" "b \<notin> set [124, 41, 38, 59]" using a(2) by (auto simp: plain_def symbols_def)
  have p: "parseredirs buf c s = Inr (c, skip_ws buf s)"
    using b s by (subst parseredirs.simps) (simp add: peek_drop)
  from gettoken_drop_word[of "skip_ws buf s" buf a x r] assms(1-4) obtain q eq s1 where
    g: "gettoken buf (skip_ws buf s) = (97, q, eq, s1)" "tx buf (q, eq) = a" "drop s1 buf = sk (x # r)"
    by auto
  have "\<not> fst (peek buf (skip_ws buf s) [124, 41, 38, 59])" using s b by (simp add: peek_drop)
  then have "parseargs buf n c (skip_ws buf s) =
    bindR (parseredirs buf (add_arg (q, eq) c) s1) (\<lambda>(c1, s1). parseargs buf (n + 1) c1 s1)"
    using g(1) assms(6) by (subst parseargs.simps) (simp add: peek_drop(3) parsearg_def bindR_assoc case_prod_unfold)
  then have "exec_rest buf c s = exec_rest buf (add_arg (q, eq) c) s1"
    using p assms(5) by (simp add: exec_rest_def)
  then show ?thesis using g by blast
qed

lemma exec_rest_redir:
  assumes "sk (drop s buf) = (if d = 0 then 60 else 62) # 32 # f @ 32 # r" and "is_word f"
    and "m = O_RDONLY \<and> d = 0 \<or> m = O_WRONLY OR O_CREATE \<and> d = 1"
  shows "\<exists>tok s1. exec_rest buf c s = exec_rest buf (REDIR c tok m d) s1 \<and> tx buf tok = f \<and> drop s1 buf = sk r"
proof -
  let ?c = "if d = 0 then 60 else 62 :: cchar"
  have w: "(32 :: cchar) \<in> set whitespace" by (simp add: whitespace_def)
  have k: "sk (drop (skip_ws buf s) buf) = ?c # 32 # f @ 32 # r" using assms(1) by simp
  note t = token_end_symbol[OF k]
  have "sk (drop (token_end buf (skip_ws buf s)) buf) = f @ 32 # r"
    using t assms(2) w by (cases f) (auto simp: is_word_def plain_def)
  from gettoken_drop_word[OF this assms(2)] w obtain q eq s1 where
    g: "gettoken buf (token_end buf (skip_ws buf s)) = (97, q, eq, s1)" "tx buf (q, eq) = f" "drop s1 buf = sk r"
    by (auto simp: plain_def)
  have g0: "gettoken buf (skip_ws buf s) = (?c, fst (snd (gettoken buf (skip_ws buf s))),
      fst (snd (snd (gettoken buf (skip_ws buf s)))), token_end buf (skip_ws buf s))"
    using t(2) by (cases "gettoken buf (skip_ws buf s)") (auto simp: token_end_def split: if_splits)
  have "fst (peek buf s [60, 62])" using assms(1) by (auto simp: peek_drop)
  then have "parseredirs buf c s = parseredirs buf (REDIR c (q, eq) m d) s1"
    using g(1) g0 assms(3) by (subst parseredirs.simps) (auto simp: peek_drop(3) parseredir_def split: prod.splits)
  then have "exec_rest buf c s = exec_rest buf (REDIR c (q, eq) m d) s1"
    by (cases "nargs c") (simp_all add: exec_rest_def)
  then show ?thesis using g by blast
qed

subsection \<open>The levels\<close>

text \<open>
  Parsing a printed command at each level: the parser, started in front of it with depth
  enough, comes out behind it with a command whose words have the right texts.  At level 3 a
  redirection may follow, and at level 1 an ampersand; what the parser does with them then is
  left open.
\<close>

definition ok3 :: "cchar list \<Rightarrow> cchar list cmd \<Rightarrow> bool" where
  "ok3 buf c \<longleftrightarrow> (\<forall>ps n post. 4 * (length buf - ps) + 2 \<le> n \<and> sk (drop ps buf) = sk (show_cmd 3 c @ post) \<and>
     heads [41, 59, 38, 124, 60, 62] post \<longrightarrow>
     (\<exists>c' s. parseexec n buf ps = exec_rest buf c' s \<and> map_cmd (tx buf) c' = c \<and> drop s buf = sk post))"

definition ok2 :: "cchar list \<Rightarrow> cchar list cmd \<Rightarrow> bool" where
  "ok2 buf c \<longleftrightarrow> (\<forall>ps n post. 4 * (length buf - ps) + 3 \<le> n \<and> sk (drop ps buf) = sk (show_cmd 2 c @ post) \<and>
     heads [41, 59, 38] post \<longrightarrow>
     (\<exists>c' s. parsepipe n buf ps = Inr (c', s) \<and> map_cmd (tx buf) c' = c \<and> drop s buf = sk post))"

definition ok1 :: "cchar list \<Rightarrow> cchar list cmd \<Rightarrow> bool" where
  "ok1 buf c \<longleftrightarrow> (\<forall>ps n post. 4 * (length buf - ps) + 3 \<le> n \<and> sk (drop ps buf) = sk (show_cmd 1 c @ post) \<and>
     heads [41, 59, 38] post \<longrightarrow>
     (\<exists>c0 s0 c' s. parsepipe n buf ps = Inr (c0, s0) \<and> parsebacks buf c0 s0 = parsebacks buf c' s \<and>
        map_cmd (tx buf) c' = c \<and> drop s buf = sk post))"

definition ok0 :: "cchar list \<Rightarrow> cchar list cmd \<Rightarrow> bool" where
  "ok0 buf c \<longleftrightarrow> (\<forall>ps n post. 4 * (length buf - ps) + 4 \<le> n \<and> sk (drop ps buf) = sk (show_cmd 0 c @ post) \<and>
     heads [41] post \<longrightarrow>
     (\<exists>c' s. parseline n buf ps = Inr (c', s) \<and> map_cmd (tx buf) c' = c \<and> drop s buf = sk post))"

lemma heads_sk [simp]: "heads X (sk xs) \<longleftrightarrow> heads X xs"
  by (simp add: heads_def)

lemma drop_skip_sk [simp]: "drop s buf = sk post \<Longrightarrow> drop (skip_ws buf s) buf = sk post"
  by (simp add: drop_skip_ws)

lemma fuel_after:
  assumes "fst (peek buf s x)" and "ps \<le> s" and "4 * (length buf - ps) + k \<le> n"
  shows "4 * (length buf - token_end buf (snd (peek buf s x))) + k + 4 \<le> n"
  using token_end_moves[OF assms(1)] assms(2,3) by linarith

lemma ok3_ok2:
  assumes "ok3 buf c" and "show_cmd 2 c = show_cmd 3 c" and "0 \<notin> set buf"
  shows "ok2 buf c"
  unfolding ok2_def
proof (intro allI impI, elim conjE)
  fix ps n post
  assume n: "4 * (length buf - ps) + 3 \<le> n" and d: "sk (drop ps buf) = sk (show_cmd 2 c @ post)"
    and h: "heads [41, 59, 38] post"
  obtain m where m: "n = Suc m" "4 * (length buf - ps) + 2 \<le> m" using n by (cases n) auto
  have h': "heads [41, 59, 38, 124, 60, 62] post" by (rule heads_mono[OF h]) auto
  from assms(1)[unfolded ok3_def, rule_format, of ps m post] m(2) d h' assms(2) obtain c' s where
    e: "parseexec m buf ps = exec_rest buf c' s" "map_cmd (tx buf) c' = c" "drop s buf = sk post" by auto
  have "exec_rest buf c' s = Inr (c', skip_ws buf s)"
    by (rule exec_rest_done[OF _ assms(3)]) (use heads_mono[OF h, of "[41, 59, 38, 124]"] e(3) in auto)
  moreover have "\<not> fst (peek buf (skip_ws buf s) [124])"
    using h e(3) by (auto simp: peek_drop heads_def split: list.splits)
  ultimately show "\<exists>c' s. parsepipe n buf ps = Inr (c', s) \<and> map_cmd (tx buf) c' = c \<and> drop s buf = sk post"
    using e m(1) by (simp add: peek_drop(3))
qed

lemma ok2_ok1: "ok2 buf c \<Longrightarrow> show_cmd 1 c = show_cmd 2 c \<Longrightarrow> ok1 buf c"
  unfolding ok1_def ok2_def by metis

lemma ok1_ok0:
  assumes "ok1 buf c" and "show_cmd 0 c = show_cmd 1 c"
  shows "ok0 buf c"
  unfolding ok0_def
proof (intro allI impI, elim conjE)
  fix ps n post
  assume n: "4 * (length buf - ps) + 4 \<le> n" and d: "sk (drop ps buf) = sk (show_cmd 0 c @ post)"
    and h: "heads [41] post"
  obtain m where m: "n = Suc m" "4 * (length buf - ps) + 3 \<le> m" using n by (cases n) auto
  have h': "heads [41, 59, 38] post" by (rule heads_mono[OF h]) auto
  from assms(1)[unfolded ok1_def, rule_format, of ps m post] m(2) d h' assms(2) obtain c0 s0 c' s where
    e: "parsepipe m buf ps = Inr (c0, s0)" "parsebacks buf c0 s0 = parsebacks buf c' s"
      "map_cmd (tx buf) c' = c" "drop s buf = sk post" by auto
  have "\<not> fst (peek buf s [38])" "\<not> fst (peek buf (skip_ws buf s) [59])"
    using h e(4) by (auto simp: peek_drop heads_def split: list.splits)
  moreover from calculation(1) have "parsebacks buf c' s = (c', skip_ws buf s)"
    by (subst parsebacks.simps) (simp add: peek_drop(3))
  ultimately show "\<exists>c' s. parseline n buf ps = Inr (c', s) \<and> map_cmd (tx buf) c' = c \<and> drop s buf = sk post"
    using e m(1) by (simp add: peek_drop(3))
qed

lemma nargs_map [simp]: "nargs (map_cmd f c) = nargs c"
  by (induction c) auto

lemma ok0_ok3:
  assumes "ok0 buf c" and "show_cmd 3 c = 40 # show_cmd 0 c @ [41]" and "nargs c = None"
  shows "ok3 buf c"
  unfolding ok3_def
proof (intro allI impI, elim conjE)
  fix ps n post
  assume n: "4 * (length buf - ps) + 2 \<le> n" and d: "sk (drop ps buf) = sk (show_cmd 3 c @ post)"
  obtain m where m: "n = Suc (Suc m)" using n by (cases n; cases "n - 1") auto
  have d': "sk (drop ps buf) = 40 # show_cmd 0 c @ 41 # post"
    using d assms(2) by (simp add: whitespace_def)
  let ?q = "skip_ws buf ps"
  have p: "fst (peek buf ps [40])" "fst (peek buf ?q [40])" using d' by (simp_all add: peek_drop)
  note t1 = token_end_symbol[of ?q buf 40, simplified, OF d']
  have f: "4 * (length buf - token_end buf ?q) + 4 \<le> m"
    using fuel_after[OF p(1) order_refl n] m by (simp add: peek_drop(3))
  have h1: "heads [41] (41 # post)" by (simp add: heads_def whitespace_def)
  from assms(1)[unfolded ok0_def, rule_format, of "token_end buf ?q" m "41 # post"] f h1 t1 obtain c' s where
    e: "parseline m buf (token_end buf ?q) = Inr (c', s)" "map_cmd (tx buf) c' = c" "drop s buf = sk (41 # post)"
    by auto
  have e3: "sk (drop s buf) = 41 # post" using e(3) by (simp add: whitespace_def)
  then have p2: "fst (peek buf s [41])" by (simp add: peek_drop)
  have t2: "drop (token_end buf (skip_ws buf s)) buf = sk post"
    using token_end_symbol(1)[of "skip_ws buf s" buf 41 post] e3 by simp
  have "nargs c' = None" using e(2) assms(3) by (metis nargs_map)
  then have "parseexec n buf ps = exec_rest buf c' (token_end buf (skip_ws buf s))"
    using p p2 e(1) m by (simp add: peek_drop(3) exec_rest_def)
  then show "\<exists>c' s. parseexec n buf ps = exec_rest buf c' s \<and> map_cmd (tx buf) c' = c \<and> drop s buf = sk post"
    using e(2) t2 by blast
qed

subsection \<open>The constructors\<close>

lemma exec_rest_skip: "exec_rest buf c (skip_ws buf s) = exec_rest buf c s"
proof -
  have "peek buf (skip_ws buf s) x = peek buf s x" for x by (simp add: peek_def)
  then have "parseredirs buf c (skip_ws buf s) = parseredirs buf c s" by (simp add: parseredirs.simps[of buf c])
  then show ?thesis by (cases "nargs c") (simp_all add: exec_rest_def)
qed

lemma exec_rest_args:
  assumes "sk (drop s buf) = sk (concat (map (\<lambda>a. a @ [32]) as) @ post)" and "\<forall>a\<in>set as. is_word a"
    and "length ts + length as < MAXARGS"
  shows "\<exists>ts' s'. exec_rest buf (EXEC ts) s = exec_rest buf (EXEC (ts @ ts')) s' \<and> map (tx buf) ts' = as \<and>
    drop s' buf = sk post"
  using assms
proof (induction as arbitrary: s ts)
  case Nil
  then show ?case
    using exec_rest_skip[of buf "EXEC ts" s] by (intro exI[of _ "[]"] exI[of _ "skip_ws buf s"]) (simp add: drop_skip_ws)
next
  case (Cons a as)
  let ?r = "concat (map (\<lambda>a. a @ [32]) as) @ post"
  obtain b a' where a: "a = b # a'" "b \<notin> set whitespace"
    using Cons.prems(2) by (cases a) (auto simp: is_word_def plain_def)
  have k: "sk (drop s buf) = a @ 32 # ?r" using Cons.prems(1) a by simp
  have sp: "\<not> plain 32" "(32 :: cchar) \<in> set whitespace" by (simp_all add: plain_def whitespace_def)
  from exec_rest_word[OF k _ sp(1), of "EXEC ts"] Cons.prems obtain tok s1 where
    w: "exec_rest buf (EXEC ts) s = exec_rest buf (EXEC (ts @ [tok])) s1" "tx buf tok = a" "drop s1 buf = sk (32 # ?r)"
    by auto
  have "sk (drop s1 buf) = sk ?r" using w(3) sp(2) by simp
  from Cons.IH[OF this, of "ts @ [tok]"] Cons.prems obtain ts' s' where
    "exec_rest buf (EXEC (ts @ [tok])) s1 = exec_rest buf (EXEC ((ts @ [tok]) @ ts')) s'" "map (tx buf) ts' = as"
    "drop s' buf = sk post" by auto
  then show ?case using w by (intro exI[of _ "tok # ts'"] exI[of _ s']) simp
qed

lemma ok3_EXEC:
  assumes "length as < MAXARGS" and "\<forall>a\<in>set as. is_word a"
  shows "ok3 buf (EXEC as)"
  unfolding ok3_def
proof (intro allI impI, elim conjE)
  fix ps n post
  assume n: "4 * (length buf - ps) + 2 \<le> n" and d: "sk (drop ps buf) = sk (show_cmd 3 (EXEC as) @ post)"
    and h: "heads [41, 59, 38, 124, 60, 62] post"
  obtain m where m: "n = Suc m" using n by (cases n) auto
  have "\<not> fst (peek buf ps [40])"
  proof (cases as)
    case Nil
    then show ?thesis using d h by (auto simp: peek_drop heads_def split: list.splits)
  next
    case (Cons a as')
    then obtain b a' where "a = b # a'" "plain b" using assms(2) by (cases a) (auto simp: is_word_def)
    then show ?thesis using d Cons by (auto simp: peek_drop plain_def symbols_def)
  qed
  then have e: "parseexec n buf ps = exec_rest buf (EXEC []) (skip_ws buf ps)"
    using m by (simp add: peek_drop(3) exec_rest_def)
  from exec_rest_args[of "skip_ws buf ps" buf as post "[]"] d assms obtain ts s' where
    "exec_rest buf (EXEC []) (skip_ws buf ps) = exec_rest buf (EXEC ts) s'" "map (tx buf) ts = as" "drop s' buf = sk post"
    by auto
  then show "\<exists>c' s. parseexec n buf ps = exec_rest buf c' s \<and> map_cmd (tx buf) c' = EXEC as \<and> drop s buf = sk post"
    using e by (intro exI[of _ "EXEC ts"] exI[of _ s']) simp
qed

lemma ok3_REDIR:
  assumes "ok3 buf c" and "is_word f" and "m = O_RDONLY \<and> d = 0 \<or> m = O_WRONLY OR O_CREATE \<and> d = 1"
  shows "ok3 buf (REDIR c f m d)"
  unfolding ok3_def
proof (intro allI impI, elim conjE)
  fix ps n post
  let ?p = "(if d = 0 then 60 else 62) # 32 # f @ 32 # post"
  assume n: "4 * (length buf - ps) + 2 \<le> n" and e: "sk (drop ps buf) = sk (show_cmd 3 (REDIR c f m d) @ post)"
  have s: "(60 :: cchar) \<notin> set whitespace" "(62 :: cchar) \<notin> set whitespace" by (simp_all add: whitespace_def)
  have h: "heads [41, 59, 38, 124, 60, 62] ?p" using s by (auto simp: heads_def)
  from assms(1)[unfolded ok3_def, rule_format, of ps n ?p] n e h obtain c' s1 where
    p: "parseexec n buf ps = exec_rest buf c' s1" "map_cmd (tx buf) c' = c" "drop s1 buf = sk ?p" by auto
  have "sk (drop s1 buf) = ?p" using p(3) s by simp
  from exec_rest_redir[OF this assms(2,3), of c'] obtain tok s2 where
    "exec_rest buf c' s1 = exec_rest buf (REDIR c' tok m d) s2" "tx buf tok = f" "drop s2 buf = sk post" by blast
  then show "\<exists>c' s. parseexec n buf ps = exec_rest buf c' s \<and> map_cmd (tx buf) c' = REDIR c f m d \<and> drop s buf = sk post"
    using p by (intro exI[of _ "REDIR c' tok m d"] exI[of _ s2]) simp
qed

lemma ok2_PIPE:
  assumes "ok3 buf l" and "ok2 buf r" and "0 \<notin> set buf"
  shows "ok2 buf (PIPE l r)"
  unfolding ok2_def
proof (intro allI impI, elim conjE)
  fix ps n post
  let ?p = "124 # show_cmd 2 r @ post"
  assume n: "4 * (length buf - ps) + 3 \<le> n" and e: "sk (drop ps buf) = sk (show_cmd 2 (PIPE l r) @ post)"
    and h: "heads [41, 59, 38] post"
  obtain m where m: "n = Suc m" "4 * (length buf - ps) + 2 \<le> m" using n by (cases n) auto
  have w: "(124 :: cchar) \<notin> set whitespace" by (simp add: whitespace_def)
  from assms(1)[unfolded ok3_def, rule_format, of ps m ?p] m e w obtain l' s where
    p: "parseexec m buf ps = exec_rest buf l' s" "map_cmd (tx buf) l' = l" "drop s buf = sk ?p"
    by (auto simp: paren_def heads_def)
  have k: "sk (drop s buf) = ?p" using p(3) w by simp
  have x: "parseexec m buf ps = Inr (l', skip_ws buf s)"
    unfolding p(1) by (rule exec_rest_done[OF _ assms(3)]) (simp add: heads_def k)
  have q: "fst (peek buf (skip_ws buf s) [124])" using k by (simp add: peek_drop)
  have t: "drop (token_end buf (skip_ws buf s)) buf = sk (show_cmd 2 r @ post)"
    using token_end_symbol(1)[of "skip_ws buf s" buf 124] k by simp
  have "4 * (length buf - token_end buf (skip_ws buf s)) + 3 \<le> m"
    using fuel_after[OF q parse_moves(4)[OF x] m(2)] by (simp add: peek_drop(3))
  from assms(2)[unfolded ok2_def, rule_format, of "token_end buf (skip_ws buf s)" m post] this t h obtain r' s2 where
    "parsepipe m buf (token_end buf (skip_ws buf s)) = Inr (r', s2)" "map_cmd (tx buf) r' = r" "drop s2 buf = sk post"
    by auto
  then show "\<exists>c' s. parsepipe n buf ps = Inr (c', s) \<and> map_cmd (tx buf) c' = PIPE l r \<and> drop s buf = sk post"
    using x q m(1) p(2) by (simp add: peek_drop(3))
qed

lemma ok1_BACK:
  assumes "ok1 buf c"
  shows "ok1 buf (BACK c)"
  unfolding ok1_def
proof (intro allI impI, elim conjE)
  fix ps n post
  assume n: "4 * (length buf - ps) + 3 \<le> n" and e: "sk (drop ps buf) = sk (show_cmd 1 (BACK c) @ post)"
  have w: "(38 :: cchar) \<notin> set whitespace" by (simp add: whitespace_def)
  from assms[unfolded ok1_def, rule_format, of ps n "38 # post"] n e w obtain c0 s0 c' s where
    p: "parsepipe n buf ps = Inr (c0, s0)" "parsebacks buf c0 s0 = parsebacks buf c' s"
      "map_cmd (tx buf) c' = c" "drop s buf = sk (38 # post)"
    by (auto simp: paren_def heads_def)
  have k: "sk (drop s buf) = 38 # post" using p(4) w by simp
  have "parsebacks buf c' s = parsebacks buf (BACK c') (token_end buf (skip_ws buf s))"
    using k by (subst parsebacks.simps) (simp add: peek_drop)
  moreover have "drop (token_end buf (skip_ws buf s)) buf = sk post"
    using token_end_symbol(1)[of "skip_ws buf s" buf 38] k by simp
  ultimately show "\<exists>c0 s0 c' s. parsepipe n buf ps = Inr (c0, s0) \<and> parsebacks buf c0 s0 = parsebacks buf c' s \<and>
      map_cmd (tx buf) c' = BACK c \<and> drop s buf = sk post"
    using p by (intro exI[of _ c0] exI[of _ s0] exI[of _ "BACK c'"] exI[of _ "token_end buf (skip_ws buf s)"]) simp
qed

lemma ok0_LIST:
  assumes "ok1 buf l" and "ok0 buf r"
  shows "ok0 buf (LIST l r)"
  unfolding ok0_def
proof (intro allI impI, elim conjE)
  fix ps n post
  let ?p = "59 # show_cmd 0 r @ post"
  assume n: "4 * (length buf - ps) + 4 \<le> n" and e: "sk (drop ps buf) = sk (show_cmd 0 (LIST l r) @ post)"
    and h: "heads [41] post"
  obtain m where m: "n = Suc m" "4 * (length buf - ps) + 3 \<le> m" using n by (cases n) auto
  have w: "(59 :: cchar) \<notin> set whitespace" by (simp add: whitespace_def)
  from assms(1)[unfolded ok1_def, rule_format, of ps m ?p] m e w obtain c0 s0 l' s where
    p: "parsepipe m buf ps = Inr (c0, s0)" "parsebacks buf c0 s0 = parsebacks buf l' s"
      "map_cmd (tx buf) l' = l" "drop s buf = sk ?p"
    by (auto simp: paren_def heads_def)
  have k: "sk (drop s buf) = ?p" using p(4) w by simp
  have b: "parsebacks buf l' s = (l', skip_ws buf s)"
    using k by (subst parsebacks.simps) (simp add: peek_drop)
  have q: "fst (peek buf (skip_ws buf s) [59])" using k by (simp add: peek_drop)
  have t: "drop (token_end buf (skip_ws buf s)) buf = sk (show_cmd 0 r @ post)"
    using token_end_symbol(1)[of "skip_ws buf s" buf 59] k by simp
  have "ps \<le> skip_ws buf s" using parse_moves(2)[OF p(1)] parsebacks_moves[of s0 buf c0] p(2) b by simp
  then have "4 * (length buf - token_end buf (skip_ws buf s)) + 4 \<le> m"
    using fuel_after[OF q _ m(2)] by (simp add: peek_drop(3))
  from assms(2)[unfolded ok0_def, rule_format, of "token_end buf (skip_ws buf s)" m post] this t h obtain r' s2 where
    "parseline m buf (token_end buf (skip_ws buf s)) = Inr (r', s2)" "map_cmd (tx buf) r' = r" "drop s2 buf = sk post"
    by auto
  then show "\<exists>c' s. parseline n buf ps = Inr (c', s) \<and> map_cmd (tx buf) c' = LIST l r \<and> drop s buf = sk post"
    using p b q m(1) by (simp add: peek_drop(3))
qed

lemma show_parse:
  assumes "0 \<notin> set buf" and "wf_cmd is_word c"
  shows "ok3 buf c \<and> ok2 buf c \<and> ok1 buf c \<and> ok0 buf c"
  using assms(2)
proof (induction c)
  case (EXEC as)
  then have "ok3 buf (EXEC as)" by (simp add: ok3_EXEC)
  then show ?case by (simp add: ok3_ok2 ok2_ok1 ok1_ok0 assms(1))
next
  case (REDIR c f m d)
  then have "ok3 buf (REDIR c f m d)" by (simp add: ok3_REDIR)
  then show ?case by (simp add: ok3_ok2 ok2_ok1 ok1_ok0 assms(1))
next
  case (PIPE l r)
  then have "ok2 buf (PIPE l r)" by (simp add: ok2_PIPE assms(1))
  then have "ok0 buf (PIPE l r) \<and> ok1 buf (PIPE l r) \<and> ok2 buf (PIPE l r)"
    by (simp add: ok2_ok1 ok1_ok0 paren_def)
  then show ?case by (simp add: ok0_ok3 paren_def)
next
  case (LIST l r)
  then have "ok0 buf (LIST l r)" by (simp add: ok0_LIST)
  then have "ok0 buf (LIST l r) \<and> ok3 buf (LIST l r)" by (simp add: ok0_ok3 paren_def)
  then show ?case by (simp add: ok3_ok2 ok2_ok1 paren_def assms(1))
next
  case (BACK c)
  then have "ok1 buf (BACK c)" by (simp add: ok1_BACK)
  then have "ok1 buf (BACK c) \<and> ok0 buf (BACK c)" by (simp add: ok1_ok0 paren_def)
  then have "ok1 buf (BACK c) \<and> ok0 buf (BACK c) \<and> ok3 buf (BACK c)" by (simp add: ok0_ok3 paren_def)
  then show ?case by (simp add: ok3_ok2 paren_def assms(1))
qed

lemma show_nonzero: "wf_cmd is_word c \<Longrightarrow> 0 \<notin> set (show_cmd v c)"
  by (induction c arbitrary: v) (auto simp: paren_def is_word_def plain_def)

text \<open>Positions stay inside the line.\<close>

lemma skip_ws_le: "s \<le> length buf \<Longrightarrow> skip_ws buf s \<le> length buf"
proof (induction buf s rule: skip_ws.induct)
  case (1 buf s)
  then show ?case by (subst skip_ws.simps) auto
qed

lemma skip_word_le: "s \<le> length buf \<Longrightarrow> skip_word buf s \<le> length buf"
proof (induction buf s rule: skip_word.induct)
  case (1 buf s)
  then show ?case by (subst skip_word.simps) auto
qed

lemma gettoken_le:
  assumes "s \<le> length buf" and "gettoken buf s = (ret, q, eq, s1)"
  shows "s1 \<le> length buf"
proof -
  have q: "skip_ws buf s \<le> length buf" by (rule skip_ws_le[OF assms(1)])
  have "eq \<le> length buf"
    using assms(2) q skip_word_le[OF q] cstr_at_nonzero[of buf "skip_ws buf s"] cstr_at_nonzero[of buf "Suc (skip_ws buf s)"]
    by (auto simp: gettoken_def Let_def Suc_le_eq split: if_splits)
  then have "skip_ws buf eq \<le> length buf" by (rule skip_ws_le)
  then show ?thesis using assms(2) by (auto simp: gettoken_def Let_def split: prod.splits)
qed

lemma token_end_le: "s \<le> length buf \<Longrightarrow> token_end buf s \<le> length buf"
  using gettoken_le[of s buf] by (cases "gettoken buf s") (simp add: token_end_def)

lemma peek_le: "s \<le> length buf \<Longrightarrow> snd (peek buf s toks) \<le> length buf"
  by (simp add: peek_drop(3) skip_ws_le)

lemma parseredirs_le: "parseredirs buf c ps = Inr (c', s) \<Longrightarrow> ps \<le> length buf \<Longrightarrow> s \<le> length buf"
proof (induction buf c ps rule: parseredirs.induct)
  case (1 buf c ps)
  show ?case
  proof (cases "fst (peek buf ps [60, 62])")
    case False
    then show ?thesis using "1.prems" peek_le by (subst (asm) parseredirs.simps) auto
  next
    case True
    with "1.prems"(1)[unfolded parseredirs.simps[of buf c ps]] obtain c1 s1 where
      p: "parseredir buf c (snd (peek buf ps [60, 62])) = Inr (c1, s1)" "parseredirs buf c1 s1 = Inr (c', s)"
      by (auto simp: bindR_eq_Inr)
    have "s1 \<le> length buf"
      using p(1) gettoken_le[OF gettoken_le[OF peek_le[OF "1.prems"(2)]]]
      by (auto simp: parseredir_def split: prod.splits if_splits)
    then show ?thesis using "1.IH"[OF True p(1) refl p(2)] by simp
  qed
qed

lemma parsearg_le: "parsearg buf n c s = Inr (Some (c', s')) \<Longrightarrow> s \<le> length buf \<Longrightarrow> s' \<le> length buf"
  using gettoken_le[of s buf] parseredirs_le
  by (auto simp: parsearg_def bindR_eq_Inr split: prod.splits if_splits)

lemma parseargs_le: "parseargs buf argc c ps = Inr (c', s) \<Longrightarrow> ps \<le> length buf \<Longrightarrow> s \<le> length buf"
proof (induction buf argc c ps rule: parseargs.induct)
  case (1 buf argc c ps)
  let ?s = "snd (peek buf ps [124, 41, 38, 59])"
  note le = peek_le[OF "1.prems"(2), of "[124, 41, 38, 59]"]
  show ?case
  proof (cases "fst (peek buf ps [124, 41, 38, 59])")
    case True
    then show ?thesis using "1.prems" le by (subst (asm) parseargs.simps) auto
  next
    case False
    with "1.prems"(1)[unfolded parseargs.simps[of buf argc c ps]] obtain r where r: "parsearg buf argc c ?s = Inr r"
      "(case r of None \<Rightarrow> Inr (c, ?s) | Some cs \<Rightarrow> parseargs buf (argc + 1) (fst cs) (snd cs)) = Inr (c', s)"
      unfolding if_not_P[OF False] bindR_eq_Inr by blast
    then show ?thesis
      using le "1.IH"[OF False r(1)] parsearg_le[of buf argc c ?s "fst (the r)" "snd (the r)"] by (cases r) auto
  qed
qed

lemma parsebacks_le: "ps \<le> length buf \<Longrightarrow> snd (parsebacks buf c ps) \<le> length buf"
proof (induction buf c ps rule: parsebacks.induct)
  case (1 buf c ps)
  then show ?case using token_end_le peek_le by (subst parsebacks.simps) simp
qed

lemma parse_bounds:
  "parseline n buf ps = Inr (c, s) \<Longrightarrow> ps \<le> length buf \<Longrightarrow> s \<le> length buf"
  "parsepipe n buf ps = Inr (c, s) \<Longrightarrow> ps \<le> length buf \<Longrightarrow> s \<le> length buf"
  "parseblock n buf ps = Inr (c, s) \<Longrightarrow> ps \<le> length buf \<Longrightarrow> s \<le> length buf"
  "parseexec n buf ps = Inr (c, s) \<Longrightarrow> ps \<le> length buf \<Longrightarrow> s \<le> length buf"
proof (induction n arbitrary: ps c s)
  case (Suc n)
  { case 1
    then obtain c0 s0 where p: "parsepipe n buf ps = Inr (c0, s0)" by (auto simp: bindR_eq_Inr)
    obtain c1 s1 where b: "parsebacks buf c0 s0 = (c1, s1)" by fastforce
    have s1: "s1 \<le> length buf" using parsebacks_le[OF Suc(2)[OF p 1(2)], of c0] b by simp
    show ?case using 1 p b Suc(1) token_end_le[OF peek_le[OF s1]] peek_le[OF s1]
      by (auto simp: bindR_eq_Inr split: if_splits)
  next
    case 2
    then obtain c0 s0 where p: "parseexec n buf ps = Inr (c0, s0)" by (auto simp: bindR_eq_Inr)
    have s0: "s0 \<le> length buf" by (rule Suc(4)[OF p 2(2)])
    show ?case using 2 p Suc(2) token_end_le[OF peek_le[OF s0]] peek_le[OF s0]
      by (auto simp: bindR_eq_Inr split: if_splits)
  next
    case 3
    then show ?case using Suc(1) token_end_le[OF peek_le] parseredirs_le
      by (auto simp: bindR_eq_Inr split: if_splits)
  next
    case 4
    then show ?case using Suc(3) peek_le parseargs_le parseredirs_le
      by (auto simp: bindR_eq_Inr split: if_splits) }
qed simp_all

text \<open>
  C27. Parsing undoes printing: every well-formed command, however its pipes, lists,
  background marks and redirections are nested, printed with the parentheses it needs, is
  parsed back to itself, with the words as the NUL-terminated strings the command line has
  been cut into.
\<close>

theorem parsecmd_show_roundtrip:
  assumes "wf_cmd is_word c"
  shows "parsecmd (show_cmd 0 c) = Inr c"
proof -
  let ?buf = "show_cmd 0 c"
  have z: "0 \<notin> set ?buf" by (rule show_nonzero[OF assms])
  have "ok0 ?buf c" using show_parse[OF z assms] by blast
  from this[unfolded ok0_def, rule_format, of 0 "4 * length ?buf + 4" "[]"] obtain c' s where
    p: "parseline (4 * length ?buf + 4) ?buf 0 = Inr (c', s)" "map_cmd (tx ?buf) c' = c" "drop s ?buf = []"
    by (auto simp: heads_def)
  have w: "wf_cmd (good_tok ?buf) c'" by (rule parse_wf(1)[OF z p(1)])
  have "snd (peek ?buf s []) = length ?buf"
    using p(3) parse_bounds(1)[OF p(1)] skip_ws_ge[of s ?buf] skip_ws_le[of s ?buf] by (simp add: peek_drop(3))
  moreover have "map_cmd (str_at (nulterminate c' (?buf @ [0]))) c' = map_cmd (tx ?buf) c'"
    by (rule cmd.map_cong0) (use str_at_nulterminate[OF w] in \<open>simp add: tx_def\<close>)
  ultimately show ?thesis using p(1,2) by (simp add: parsecmd_def parsecmd_toks_def)
qed

theorem parsecmd_show_roundtrip_witness:
  "parsecmd [97, 32, 124, 98, 32, 62, 32, 102, 32, 38] = Inr (BACK (PIPE (EXEC [[97]]) (REDIR (EXEC [[98]]) [102] (O_WRONLY OR O_CREATE) 1)))"
  using parsecmd_show_roundtrip[of "BACK (PIPE (EXEC [[97]]) (REDIR (EXEC [[98]]) [102] (O_WRONLY OR O_CREATE) 1))"]
  by (simp add: is_word_def plain_def whitespace_def symbols_def MAXARGS_def paren_def)

end
