(* ===== verification/Calm.thy ===== *)
theory Calm
  imports Sleeplock
begin

section \<open>Kernel code that is not disturbed\<close>

text \<open>
  \<open>calm a p n F s\<close>: the CPU with id \<open>a\<close> runs process \<open>p\<close> at nesting depth \<open>n\<close>, holds
  exactly the spin locks \<open>F\<close>, no other lock is held by anyone, and the process table is
  well-formed.  This is what kernel code finds when no other CPU is in its way; from it, the
  locking operations, \<^verbatim>\<open>wakeup\<close> and the sleep locks return, and their effect is exact.
  \<open>low s s'\<close> says what they keep: memory, page tables and every process that was not asleep.
\<close>

subsection \<open>Definitions\<close>

definition calm :: "8 word \<Rightarrow> nat \<Rightarrow> nat \<Rightarrow> lockid set \<Rightarrow> 'a sched_state_scheme \<Rightarrow> bool" where
  "calm a p n F s \<longleftrightarrow>
     (\<exists>c. cpu_at a s = Some c \<and> cpu_proc (cpus s c) = Some p \<and> ncli (cpus s c) = of_nat n \<and>
        (0 < n \<longrightarrow> \<not> hw_if s a) \<and>
        (\<forall>L. if L \<in> F then locked (locks s L) \<noteq> 0 \<and> lk_cpu (locks s L) = Some c
             else locked (locks s L) = 0 \<and> lk_cpu (locks s L) = None)) \<and>
     pt_inv (ptable s) \<and> p < NPROC \<and> p_state (proc_at s p) = RUNNING"

definition low :: "'a sched_state_scheme \<Rightarrow> 'a sched_state_scheme \<Rightarrow> bool" where
  "low s s' \<longleftrightarrow> mem s' = mem s \<and> freelist s' = freelist s \<and> use_lock s' = use_lock s \<and> kend s' = kend s \<and>
     kpgdir s' = kpgdir s \<and> cr3 s' = cr3 s \<and> data_seg s' = data_seg s \<and> initproc s' = initproc s \<and>
     nextpid s' = nextpid s \<and> ticks s' = ticks s \<and>
     (\<forall>x. p_state (proc_at s x) \<noteq> SLEEPING \<longrightarrow> pview (ptable s') x = pview (ptable s) x) \<and>
     (\<forall>x. p_pid (proc_at s' x) = p_pid (proc_at s x))"

lemma low_refl [simp]: "low s s"
  by (simp add: low_def)

lemma low_trans [trans]:
  assumes "low s s'" and "low s' s''"
  shows "low s s''"
proof -
  have "pview (ptable s'') x = pview (ptable s) x" if x: "p_state (proc_at s x) \<noteq> SLEEPING" for x
  proof -
    have e: "pview (ptable s') x = pview (ptable s) x" using assms(1) x unfolding low_def by blast
    have "p_state (proc_at s' x) = p_state (proc_at s x)"
      using arg_cong[OF e, of p_state] by (simp add: proc_at_def)
    then show ?thesis using assms(2) x e unfolding low_def by metis
  qed
  then show ?thesis using assms unfolding low_def by simp
qed

lemma low_more: "machine.more s' = machine.more s \<Longrightarrow> low s s'"
  using sched_more_eq[of s' s] by (simp add: low_def)

lemma calm_cong:
  assumes "cpus s' = cpus s" and "ncpu s' = ncpu s" and "hw_if s' = hw_if s" and "locks s' = locks s"
    and "ptable s' = ptable s"
  shows "calm a p n F s' \<longleftrightarrow> calm a p n F s"
  unfolding calm_def cpu_at_def proc_at_def assms ..

lemma calmD:
  assumes "calm a p n F s"
  obtains c where "cpu_at a s = Some c" "cpu_proc (cpus s c) = Some p" "ncli (cpus s c) = of_nat n"
    "0 < n \<longrightarrow> \<not> hw_if s a" "\<And>L. L \<in> F \<Longrightarrow> locked (locks s L) \<noteq> 0 \<and> lk_cpu (locks s L) = Some c"
    "\<And>L. L \<notin> F \<Longrightarrow> locked (locks s L) = 0 \<and> lk_cpu (locks s L) = None"
  using assms unfolding calm_def by (metis (mono_tags))

lemma calm_pt:
  assumes "calm a p n F s"
  shows "pt_inv (ptable s)" "p < NPROC" "p_state (proc_at s p) = RUNNING"
  using assms unfolding calm_def by blast+

text \<open>A depth is back at zero when the outermost section ends.\<close>

lemma depth_zero: "n < 100 \<Longrightarrow> of_nat n + 1 = (1 :: 32 word) \<longleftrightarrow> n = 0"
  by (auto simp: word_of_nat_eq_0_iff dest: dvd_imp_le)

subsection \<open>Locks\<close>

lemma calmI:
  assumes "calm a p n F s" and "machine.more s' = machine.more s"
    and "cpu_at a s' = Some c" and "cpu_proc (cpus s' c) = Some p" and "ncli (cpus s' c) = of_nat m"
    and "0 < m \<longrightarrow> \<not> hw_if s' a"
    and "\<And>L. L \<in> G \<Longrightarrow> locked (locks s' L) \<noteq> 0 \<and> lk_cpu (locks s' L) = Some c"
    and "\<And>L. L \<notin> G \<Longrightarrow> locked (locks s' L) = 0 \<and> lk_cpu (locks s' L) = None"
  shows "calm a p m G s'"
  using assms calm_pt[OF assms(1)] sched_more_eq[OF assms(2)] unfolding calm_def
  by (intro conjI exI[of _ c]) auto

lemma acquire_calm:
  assumes "calm a p n F s" and "n < 100" and "L \<notin> F"
  shows "\<exists>s'. acquire a L s = Inr s' \<and> calm a p (Suc n) (insert L F) s' \<and> machine.more s' = machine.more s"
proof -
  from assms(1) obtain c where c: "cpu_at a s = Some c" "cpu_proc (cpus s c) = Some p" "ncli (cpus s c) = of_nat n"
    "0 < n \<longrightarrow> \<not> hw_if s a" and l: "\<And>L. L \<in> F \<Longrightarrow> locked (locks s L) \<noteq> 0 \<and> lk_cpu (locks s L) = Some c"
    "\<And>L. L \<notin> F \<Longrightarrow> locked (locks s L) = 0 \<and> lk_cpu (locks s L) = None" by (rule calmD) blast
  have d: "depth_ok c s" using assms(2) c(3) sint_of_nat32[of n] by (simp add: depth_ok_def)
  have "calm a p (Suc n) (insert L F) (taken a c L s)"
    by (rule calmI[OF assms(1)]) (use c l in \<open>auto simp: taken_def\<close>)
  then show ?thesis using acquire_free[OF c(1) d] l(2)[OF assms(3)] by (auto simp: taken_def)
qed

lemma release_calm:
  assumes "calm a p (Suc n) F s" and "n < 100" and "L \<in> F"
  shows "\<exists>s'. release a L s = Inr s' \<and> calm a p n (F - {L}) s' \<and> machine.more s' = machine.more s"
proof -
  from assms(1) obtain c where c: "cpu_at a s = Some c" "cpu_proc (cpus s c) = Some p" "ncli (cpus s c) = of_nat (Suc n)"
    "0 < Suc n \<longrightarrow> \<not> hw_if s a" and l: "\<And>L. L \<in> F \<Longrightarrow> locked (locks s L) \<noteq> 0 \<and> lk_cpu (locks s L) = Some c"
    "\<And>L. L \<notin> F \<Longrightarrow> locked (locks s L) = 0 \<and> lk_cpu (locks s L) = None" by (rule calmD) blast
  have h: "held a c L s" using c l(1)[OF assms(3)] assms(2) sint_of_nat32[of "Suc n"] by (simp add: held_def)
  have one: "of_nat (Suc n) = (1 :: 32 word) \<longleftrightarrow> n = 0" using depth_zero[OF assms(2)] by (simp add: add.commute)
  have "calm a p n (F - {L}) (dropped a c L s)"
    by (rule calmI[OF assms(1)]) (use c l one in \<open>auto simp: dropped_def Let_def split: if_splits\<close>)
  then show ?thesis using release_held[OF h] by auto
qed

lemma curproc_calm:
  assumes "calm a p n F s" and "n < 100"
  shows "\<exists>s'. curproc a s = Inr (p, s') \<and> calm a p n F s' \<and> machine.more s' = machine.more s"
proof -
  from assms(1) obtain c where c: "cpu_at a s = Some c" "cpu_proc (cpus s c) = Some p" "ncli (cpus s c) = of_nat n"
    "0 < n \<longrightarrow> \<not> hw_if s a" and l: "\<And>L. L \<in> F \<Longrightarrow> locked (locks s L) \<noteq> 0 \<and> lk_cpu (locks s L) = Some c"
    "\<And>L. L \<notin> F \<Longrightarrow> locked (locks s L) = 0 \<and> lk_cpu (locks s L) = None" by (rule calmD) blast
  let ?s1 = "upd_cpu c (\<lambda>k. k\<lparr>intena := (if ncli k = 0 then readeflags_IF a s else intena k), ncli := ncli k + 1\<rparr>) (cli a s)"
  let ?s2 = "let m1 = upd_cpu c (\<lambda>k. k\<lparr>ncli := ncli k - 1\<rparr>) ?s1
             in if ncli (cpus ?s1 c) = 1 \<and> intena (cpus ?s1 c) \<noteq> 0 then sti a m1 else m1"
  have one: "of_nat n + 1 = (1 :: 32 word) \<longleftrightarrow> n = 0" using depth_zero[OF assms(2)] by (simp add: add.commute)
  have "popcli a ?s1 = Inr ?s2" by (rule popcli_eq) (use c assms(2) sint_of_nat32[of n] in simp_all)
  then have m: "myproc a s = Inr (Some p, ?s2)" using c by (simp add: myproc_def pushcli_eq[OF c(1)] mycpu_eq)
  have "calm a p n F ?s2"
    by (rule calmI[OF assms(1)]) (use c l one in \<open>auto simp: Let_def split: if_splits\<close>)
  then show ?thesis using m by (auto simp: curproc_def deref_def Let_def)
qed

lemma upd_pt_more: "sched_state.more (upd_pt f s) = sched_state.more s"
  by (simp add: upd_pt_def)

lemma wakeup_calm:
  assumes "calm a p n F s" and "n < 99" and "L_ptable \<notin> F"
  shows "\<exists>s'. wakeup a ch s = Inr s' \<and> calm a p n F s' \<and> low s s' \<and> sched_state.more s' = sched_state.more s"
proof -
  from acquire_calm[OF assms(1) _ assms(3)] assms(2) obtain s1 where
    s1: "acquire a L_ptable s = Inr s1" "calm a p (Suc n) (insert L_ptable F) s1" "machine.more s1 = machine.more s" by auto
  note e1 = sched_more_eq[OF s1(3)]
  from wakeup1_ok[OF calm_pt(1)[OF s1(2)], of ch] obtain t' where t': "wakeup1 ch s1 = Inr (upd_pt (\<lambda>_. t') s1)" "pt_inv t'"
    and v: "pview t' = (\<lambda>x. if x < NPROC \<and> p_state (pview (ptable s1) x) = SLEEPING \<and> p_chan (pview (ptable s1) x) = ch
      then woken (ticks s1) (pview (ptable s1) x) else pview (ptable s1) x)" by blast
  let ?s2 = "upd_pt (\<lambda>_. t') s1"
  have keep: "pview t' x = pview (ptable s) x" if "p_state (proc_at s x) \<noteq> SLEEPING" for x
    using that unfolding v e1 by (simp add: proc_at_def)
  have pid: "p_pid (procs t' x) = p_pid (procs (ptable s) x)" for x
    using arg_cong[OF fun_cong[OF v, of x], of p_pid] unfolding e1 by (simp add: woken_def split: if_splits)
  have run: "p_state (procs t' p) = RUNNING"
    using arg_cong[OF keep[of p], of p_state] calm_pt(3)[OF assms(1)] by (simp add: proc_at_def)
  have c2: "calm a p (Suc n) (insert L_ptable F) ?s2"
    using s1(2) t'(2) run unfolding calm_def proc_at_upd upd_pt_sel by blast
  from release_calm[OF c2, of L_ptable] assms(2) obtain s3 where
    s3: "release a L_ptable ?s2 = Inr s3" "calm a p n (insert L_ptable F - {L_ptable}) s3" "machine.more s3 = machine.more ?s2" by auto
  note e3 = sched_more_eq[OF s3(3)]
  have "low s s3" unfolding low_def using e1 e3 keep pid by (simp add: upd_pt_def proc_at_def)
  moreover have "sched_state.more s3 = sched_state.more s" using e1 e3 by (simp add: upd_pt_more)
  moreover have "wakeup a ch s = Inr s3" using s1(1) t'(1) s3(1) by (simp add: wakeup_def)
  ultimately show ?thesis using s3(2) assms(3) by auto
qed

subsection \<open>Sleep locks\<close>

lemma sl_more_eq:
  assumes "sched_state.more s' = sched_state.more (s :: 'a sl_state_scheme)"
  shows "slocks s' = slocks s" "sl_state.more s' = sl_state.more s"
  using assms by (cases s, cases s', simp)+

lemma upd_sl_sel [simp]:
  "slocks (upd_sl L f s) = (slocks s)(L := f (slocks s L))" "sl_state.more (upd_sl L f s) = sl_state.more s"
  "calm a p n F (upd_sl L f s) = calm a p n F s" "low s0 (upd_sl L f s) = low s0 s" "low (upd_sl L f s) s0 = low s s0" "ptable (upd_sl L f s) = ptable s"
  "proc_at (upd_sl L f s) q = proc_at s q"
proof -
  show "calm a p n F (upd_sl L f s) = calm a p n F s" by (rule calm_cong) (simp_all add: upd_sl_def)
qed (simp_all add: upd_sl_def low_def proc_at_def)

lemma low_pid: "low s s' \<Longrightarrow> p_pid (proc_at s' x) = p_pid (proc_at s x)"
  by (simp add: low_def)

lemma acquiresleep_calm:
  assumes "calm a p n F s" and "n < 98" and "L \<notin> F" and "sl_locked (slocks s L) = 0"
  shows "\<exists>s'. acquiresleep a L s = Inr s' \<and> calm a p n F s' \<and> low s s' \<and>
    slocks s' = (slocks s)(L := (slocks s L)\<lparr>sl_locked := 1, sl_pid := p_pid (proc_at s p)\<rparr>) \<and>
    sl_state.more s' = sl_state.more s"
proof -
  from acquire_calm[OF assms(1) _ assms(3)] assms(2) obtain s1 where
    s1: "acquire a L s = Inr s1" "calm a p (Suc n) (insert L F) s1" "machine.more s1 = machine.more s" by auto
  note e1 = sched_more_eq[OF s1(3)] and f1 = sl_more_eq[OF sched_more_eq(12)[OF s1(3)]]
  let ?s2 = "upd_sl L (\<lambda>k. k\<lparr>sl_locked := 1\<rparr>) s1"
  have c2: "calm a p (Suc n) (insert L F) ?s2" using s1(2) by simp
  from curproc_calm[OF c2] assms(2) obtain s3 where
    s3: "curproc a ?s2 = Inr (p, s3)" "calm a p (Suc n) (insert L F) s3" "machine.more s3 = machine.more ?s2" by auto
  note e3 = sched_more_eq[OF s3(3)] and f3 = sl_more_eq[OF sched_more_eq(12)[OF s3(3)]]
  let ?s4 = "upd_sl L (\<lambda>k. k\<lparr>sl_pid := p_pid (proc_at s3 p)\<rparr>) s3"
  have c4: "calm a p (Suc n) (insert L F) ?s4" using s3(2) by simp
  from release_calm[OF c4, of L] assms(2) obtain s5 where
    s5: "release a L ?s4 = Inr s5" "calm a p n (insert L F - {L}) s5" "machine.more s5 = machine.more ?s4" by auto
  note f5 = sl_more_eq[OF sched_more_eq(12)[OF s5(3)]]
  have "acquiresleep a L s = Inr s5" using s1(1) s3(1) s5(1) assms(4) f1 by (simp add: acquiresleep_def)
  moreover have "low s s5"
    using low_trans[OF low_trans[OF low_more[OF s1(3)]], of s3 s5] low_more[OF s3(3)] low_more[OF s5(3)] by simp
  moreover have "slocks s5 = (slocks s)(L := (slocks s L)\<lparr>sl_locked := 1, sl_pid := p_pid (proc_at s p)\<rparr>)"
    using f1 f3 f5 e1 e3 by simp
  moreover have "sl_state.more s5 = sl_state.more s" using f1 f3 f5 by simp
  ultimately show ?thesis using s5(2) assms(3) by auto
qed

lemma releasesleep_calm:
  assumes "calm a p n F s" and "n < 98" and "L \<notin> F" and "L \<noteq> L_ptable" and "L_ptable \<notin> F"
  shows "\<exists>s'. releasesleep a L s = Inr s' \<and> calm a p n F s' \<and> low s s' \<and>
    slocks s' = (slocks s)(L := (slocks s L)\<lparr>sl_locked := 0, sl_pid := 0\<rparr>) \<and> sl_state.more s' = sl_state.more s"
proof -
  from acquire_calm[OF assms(1) _ assms(3)] assms(2) obtain s1 where
    s1: "acquire a L s = Inr s1" "calm a p (Suc n) (insert L F) s1" "machine.more s1 = machine.more s" by auto
  note f1 = sl_more_eq[OF sched_more_eq(12)[OF s1(3)]]
  let ?s2 = "upd_sl L (\<lambda>k. k\<lparr>sl_locked := 0, sl_pid := 0\<rparr>) s1"
  have c2: "calm a p (Suc n) (insert L F) ?s2" using s1(2) by simp
  from wakeup_calm[OF c2, of "lock_chan L"] assms(2,4,5) obtain s3 where
    s3: "wakeup a (lock_chan L) ?s2 = Inr s3" "calm a p (Suc n) (insert L F) s3" "low ?s2 s3"
      "sched_state.more s3 = sched_state.more ?s2" by auto
  note f3 = sl_more_eq[OF s3(4)]
  from release_calm[OF s3(2), of L] assms(2) obtain s4 where
    s4: "release a L s3 = Inr s4" "calm a p n (insert L F - {L}) s4" "machine.more s4 = machine.more s3" by auto
  note f4 = sl_more_eq[OF sched_more_eq(12)[OF s4(3)]]
  have "releasesleep a L s = Inr s4" using s1(1) s3(1) s4(1) by (simp add: releasesleep_def)
  moreover have "low s ?s2" using low_more[OF s1(3)] by simp
  then have "low s s4" using s3(3) low_more[OF s4(3)] by (meson low_trans)
  ultimately show ?thesis using f1 f3 f4 s4(2) assms(3) by auto
qed

lemma holdingsleep_calm:
  assumes "calm a p n F s" and "n < 98" and "L \<notin> F"
  shows "\<exists>s'. holdingsleep a L s = Inr (sl_locked (slocks s L) \<noteq> 0 \<and> sl_pid (slocks s L) = p_pid (proc_at s p), s') \<and>
    calm a p n F s' \<and> machine.more s' = machine.more s"
proof -
  from acquire_calm[OF assms(1) _ assms(3)] assms(2) obtain s1 where
    s1: "acquire a L s = Inr s1" "calm a p (Suc n) (insert L F) s1" "machine.more s1 = machine.more s" by auto
  note e1 = sched_more_eq[OF s1(3)] and f1 = sl_more_eq[OF sched_more_eq(12)[OF s1(3)]]
  from curproc_calm[OF s1(2)] assms(2) obtain s2 where
    s2: "curproc a s1 = Inr (p, s2)" "calm a p (Suc n) (insert L F) s2" "machine.more s2 = machine.more s1" by auto
  note e2 = sched_more_eq[OF s2(3)] and f2 = sl_more_eq[OF sched_more_eq(12)[OF s2(3)]]
  have fin: "insert L F - {L} = F" using assms(3) by auto
  show ?thesis
  proof (cases "sl_locked (slocks s L) = 0")
    case True
    from release_calm[OF s1(2), of L] assms(2) fin obtain s3 where
      "release a L s1 = Inr s3" "calm a p n F s3" "machine.more s3 = machine.more s1" by auto
    then show ?thesis using True s1 f1 by (auto simp: holdingsleep_def)
  next
    case False
    from release_calm[OF s2(2), of L] assms(2) fin obtain s3 where
      "release a L s2 = Inr s3" "calm a p n F s3" "machine.more s3 = machine.more s2" by auto
    then show ?thesis using False s1 s2 f1 f2 e1 e2 by (auto simp: holdingsleep_def)
  qed
qed

end
