(* ===== verification/State0.thy ===== *)
theory State0
  imports Pipe Calm
begin

section \<open>A concrete kernel state\<close>

text \<open>
  The state of SchedInv's examples -- CPU 0 runs process 5, no lock is held -- extended with
  every component up to the pipes, to apply theorems to: an empty buffer cache over a disk of
  zeroes with a log of 30 blocks from block 2 on, no inode in use, a blank screen, no input,
  empty pipes.
\<close>

definition sl0 :: sl_state where
  "sl0 = sched_state.extend sched0 (sl_state.fields (\<lambda>_. \<lparr>sl_locked = 0, sl_name = [], sl_pid = 0\<rparr>))"

definition buf0 :: "nat \<Rightarrow> buf" where
  "buf0 b = \<lparr>b_flags = 0, b_dev = 0, b_blockno = 0, b_refcnt = 0,
     b_prev = (if b = NBUF - 1 then NBUF else if b = NBUF then 0 else b + 1),
     b_next = (if b = 0 then NBUF else b - 1), b_qnext = None, b_data = replicate BSIZE 0\<rparr>"

definition bio0 :: bio_state where
  "bio0 = sl_state.extend sl0 (bio_state.fields buf0 None 1 0 0 False (\<lambda>_ _. replicate BSIZE 0))"

definition log0 :: log_state where
  "log0 = bio_state.extend bio0 (log_state.fields
     \<lparr>log_start = 2, log_size = 30, log_outstanding = 0, log_committing = 0, log_dev = 1,
      log_lh = \<lparr>lh_n = 0, lh_block = replicate LOGSIZE 0\<rparr>\<rparr>)"

definition inode0 :: inode where
  "inode0 = \<lparr>i_dev = 0, i_inum = 0, i_ref = 0, i_valid = 0, i_type = 0, i_major = 0, i_minor = 0, i_nlink = 0,
     i_size = 0, i_addrs = replicate (NDIRECT + 1) 0\<rparr>"

definition fs0 :: fs_state where
  "fs0 = log_state.extend log0 (fs_state.fields (\<lambda>_. inode0)
     \<lparr>sb_size = 1000, sb_nblocks = 941, sb_ninodes = 200, sb_nlog = 30, sb_logstart = 2, sb_inodestart = 32,
      sb_bmapstart = 58\<rparr>)"

definition cons0 :: cons_state where
  "cons0 = fs_state.extend fs0 (cons_state.fields 1 0 1 []
     \<lparr>crt = (\<lambda>_. 0), cursor = 0\<rparr> \<lparr>in_buf = replicate INPUT_BUF 0, in_r = 0, in_w = 0, in_e = 0\<rparr>
     (\<lambda>_. \<lparr>dv_read = None, dv_write = None\<rparr>))"

definition pipe0 :: pipe_state where
  "pipe0 = cons_state.extend cons0 (pipe_state.fields
     (\<lambda>_. \<lparr>pi_data = replicate PIPESIZE 0, pi_nread = 0, pi_nwrite = 0, pi_readopen = 1, pi_writeopen = 1\<rparr>))"

lemma calm_base:
  assumes "cpus s = cpus sched0" and "ncpu s = ncpu sched0" and "hw_if s = hw_if sched0" and "locks s = locks sched0"
    and "ptable s = ptable sched0"
  shows "calm 0 5 0 {} s"
proof -
  have "cpu_at 0 s = Some 0" using sched0_at(1) assms by (simp add: cpu_at_def)
  moreover have "pt_inv ptable3" using ptable3_inv by (auto simp: pt_inv_def)
  moreover have "p_state (procs ptable3 5) = RUNNING" by (simp add: ptable3_def ptable2_def)
  ultimately show ?thesis unfolding calm_def
    by (intro conjI exI[of _ 0]) (use assms in \<open>simp_all add: proc_at_def NPROC_def\<close>)
qed

lemmas state0_defs = sched_state.defs sl_state.defs bio_state.defs log_state.defs fs_state.defs cons_state.defs pipe_state.defs

lemma calm0 [simp]: "calm 0 5 0 {} sl0" "calm 0 5 0 {} bio0" "calm 0 5 0 {} log0" "calm 0 5 0 {} fs0" "calm 0 5 0 {} cons0"
  "calm 0 5 0 {} pipe0"
proof -
  show "calm 0 5 0 {} sl0" by (rule calm_base) (simp_all add: sl0_def state0_defs)
  show "calm 0 5 0 {} bio0" by (rule calm_base) (simp_all add: bio0_def sl0_def state0_defs)
  show "calm 0 5 0 {} log0" by (rule calm_base) (simp_all add: log0_def bio0_def sl0_def state0_defs)
  show "calm 0 5 0 {} fs0" by (rule calm_base) (simp_all add: fs0_def log0_def bio0_def sl0_def state0_defs)
  show "calm 0 5 0 {} cons0" by (rule calm_base) (simp_all add: cons0_def fs0_def log0_def bio0_def sl0_def state0_defs)
  show "calm 0 5 0 {} pipe0" by (rule calm_base) (simp_all add: pipe0_def cons0_def fs0_def log0_def bio0_def sl0_def state0_defs)
qed

end
