(* ===== verification/Ring.thy ===== *)
theory Ring
  imports Prelude
begin

section \<open>Ring buffers with free-running counters\<close>

text \<open>
  A ring of \<open>n\<close> cells, \<open>n\<close> a divisor of \<open>2 ^ 32\<close>, is read at counter \<open>r\<close> and written at
  counter \<open>w\<close>; the counters are reduced modulo \<open>n\<close> only to index the array and may wrap
  around.  \<open>ring_list\<close> is the queue such a ring stands for.  The locale is the contract of a
  byte queue with a capacity, proved once and used for pipes.
\<close>

subsection \<open>The list in a ring\<close>

definition ring_list :: "'b list \<Rightarrow> cuint \<Rightarrow> cuint \<Rightarrow> 'b list" where
  "ring_list d r w = map (\<lambda>i. d ! (unat (r + of_nat i) mod length d)) [0..<unat (w - r)]"

lemma length_ring_list [simp]: "length (ring_list d r w) = unat (w - r)"
  by (simp add: ring_list_def)

lemma ring_list_empty [simp]: "ring_list d r r = []"
  by (simp add: ring_list_def)

lemma ring_list_Nil_iff [simp]: "ring_list d r w = [] \<longleftrightarrow> r = w"
  by (auto simp: ring_list_def unat_eq_0)

text \<open>Two counters less than \<open>n\<close> apart have different cells.\<close>

lemma ring_index_neq:
  fixes r w :: cuint
  assumes "n dvd 2 ^ 32" and "i < k" and "k < n" and "unat (w - r) = k"
  shows "unat (r + of_nat i) mod n \<noteq> unat w mod n"
proof
  assume eq: "unat (r + of_nat i) mod n = unat w mod n"
  have "of_nat k = w - r" unfolding assms(4)[symmetric] by simp
  then have w: "w = r + of_nat k" by simp
  have m: "unat (r + of_nat j) mod n = (unat r + j) mod n" for j
  proof -
    have "unat (r + of_nat j) mod n = ((unat r + j mod 2 ^ 32) mod 2 ^ 32) mod n"
      by (simp add: unat_word_ariths unat_of_nat)
    also have "\<dots> = (unat r + j) mod 2 ^ 32 mod n" by (simp add: mod_add_right_eq)
    also have "\<dots> = (unat r + j) mod n" using assms(1) by (rule mod_mod_cancel)
    finally show ?thesis .
  qed
  have "(unat r + i) mod n = (unat r + k) mod n" using eq w m by simp
  then have "n dvd unat r + k - (unat r + i)"
    using mod_eq_dvd_iff_nat[of "unat r + i" "unat r + k" n] assms(2) by simp
  then have "n dvd k - i" by simp
  then show False using dvd_imp_le[of n "k - i"] assms(2,3) by simp
qed

lemma ring_put:
  assumes "length d dvd 2 ^ 32" and "length d < 2 ^ 32" and "unat (w - r) < length d"
  shows "ring_list (d[unat w mod length d := c]) r (w + 1) = ring_list d r w @ [c]"
proof -
  define k where "k = unat (w - r)"
  have "k + 1 < 2 ^ 32" using assms(2,3) unfolding k_def by linarith
  then have "unat ((w - r) + 1) = k + 1" using unat_add_lem[of "w - r" 1] unfolding k_def by simp
  moreover have "w + 1 - r = (w - r) + 1" by simp
  ultimately have k: "unat (w + 1 - r) = Suc k" by (simp only: Suc_eq_plus1)
  have w: "r + of_nat k = w" unfolding k_def by simp
  have d: "unat w mod length d < length d" using assms(3) by (cases d) auto
  have "d[unat w mod length d := c] ! (unat (r + of_nat i) mod length d) = d ! (unat (r + of_nat i) mod length d)"
    if i: "i < k" for i
  proof (rule nth_list_update_neq)
    show "unat w mod length d \<noteq> unat (r + of_nat i) mod length d"
      using ring_index_neq[OF assms(1) i _ k_def[symmetric]] assms(3) k_def by metis
  qed
  then have "map (\<lambda>i. d[unat w mod length d := c] ! (unat (r + of_nat i) mod length d)) [0..<k] =
    map (\<lambda>i. d ! (unat (r + of_nat i) mod length d)) [0..<k]" by (intro map_cong refl) simp
  then show ?thesis unfolding ring_list_def k length_list_update k_def[symmetric] using d w by simp
qed

lemma unat_dec: "(r :: cuint) \<noteq> w \<Longrightarrow> unat (w - r) = Suc (unat (w - r - 1))"
  using unat_minus_one[of "w - r"] unat_eq_0[of "w - r"] by (cases "unat (w - r)") auto

lemma ring_get:
  assumes "r \<noteq> w"
  shows "ring_list d r w = d ! (unat r mod length d) # ring_list d (r + 1) w"
proof -
  have k: "unat (w - r) = Suc (unat (w - (r + 1)))" using unat_dec[OF assms] by (simp add: diff_diff_eq)
  show ?thesis unfolding ring_list_def k map_upt_Suc by (simp add: add.assoc)
qed

text \<open>Taking back the last element, as line editing does.\<close>

lemma ring_unput:
  assumes "r \<noteq> w"
  shows "ring_list d r (w - 1) = butlast (ring_list d r w)"
proof -
  have "w - 1 - r = w - r - 1" by simp
  then have "unat (w - 1 - r) = unat (w - r) - 1" using unat_dec[OF assms] by (simp only: diff_Suc_1)
  moreover have "butlast [0..<n] = [0..<n - 1]" for n by (cases n) simp_all
  ultimately show ?thesis unfolding ring_list_def by (simp only: map_butlast[symmetric])
qed

subsection \<open>The contract of a bounded queue\<close>

locale bounded_queue =
  fixes ok :: "'s \<Rightarrow> bool" and content :: "'s \<Rightarrow> 'b list" and cap :: nat
    and full :: "'s \<Rightarrow> bool" and put :: "'b \<Rightarrow> 's \<Rightarrow> 's" and isempty :: "'s \<Rightarrow> bool" and get :: "'s \<Rightarrow> 'b \<times> 's"
  assumes full_law: "ok s \<Longrightarrow> full s \<longleftrightarrow> length (content s) = cap"
    and cap_law: "ok s \<Longrightarrow> length (content s) \<le> cap"
    and put_law: "ok s \<Longrightarrow> length (content s) < cap \<Longrightarrow> ok (put c s) \<and> content (put c s) = content s @ [c]"
    and empty_law: "ok s \<Longrightarrow> isempty s \<longleftrightarrow> content s = []"
    and get_law: "ok s \<Longrightarrow> content s \<noteq> [] \<Longrightarrow> ok (snd (get s)) \<and> content s = fst (get s) # content (snd (get s))"

text \<open>Putting in as many as fit, and taking out at most \<open>n\<close>.\<close>

fun fill :: "('s \<Rightarrow> bool) \<Rightarrow> ('b \<Rightarrow> 's \<Rightarrow> 's) \<Rightarrow> 'b list \<Rightarrow> 's \<Rightarrow> 'b list \<times> 's" where
  "fill full put [] s = ([], s)"
| "fill full put (c # cs) s = (if full s then (c # cs, s) else fill full put cs (put c s))"

fun drain :: "('s \<Rightarrow> bool) \<Rightarrow> ('s \<Rightarrow> 'b \<times> 's) \<Rightarrow> nat \<Rightarrow> 's \<Rightarrow> 'b list \<times> 's" where
  "drain isempty get 0 s = ([], s)"
| "drain isempty get (Suc n) s =
     (if isempty s then ([], s) else let (c, s1) = get s; (cs, s2) = drain isempty get n s1 in (c # cs, s2))"

context bounded_queue
begin

lemma fill_fits:
  assumes "ok s"
  shows "fill full put cs s = (drop (cap - length (content s)) cs, snd (fill full put cs s)) \<and>
    ok (snd (fill full put cs s)) \<and>
    content (snd (fill full put cs s)) = content s @ take (cap - length (content s)) cs"
  using assms
proof (induction cs arbitrary: s)
  case (Cons c cs)
  show ?case
  proof (cases "full s")
    case True
    with Cons.prems full_law show ?thesis by simp
  next
    case False
    with Cons.prems full_law cap_law[of s] have l: "length (content s) < cap" by fastforce
    note p = put_law[OF Cons.prems l, of c]
    have "cap - length (content s) = Suc (cap - length (content (put c s)))" using p l by simp
    with Cons.IH[of "put c s"] p False show ?thesis by simp
  qed
qed simp

lemma drain_takes:
  assumes "ok s"
  shows "ok (snd (drain isempty get n s)) \<and> fst (drain isempty get n s) = take n (content s) \<and>
    content (snd (drain isempty get n s)) = drop n (content s)"
  using assms
proof (induction n arbitrary: s)
  case (Suc n)
  show ?case
  proof (cases "content s = []")
    case True
    with Suc.prems empty_law show ?thesis by simp
  next
    case False
    note g = get_law[OF Suc.prems False]
    have e: "\<not> isempty s" using Suc.prems False empty_law by blast
    obtain c s1 where gs: "get s = (c, s1)" by (cases "get s")
    have "ok s1" "content s = c # content s1" using g gs by simp_all
    with Suc.IH[of s1] e gs show ?thesis by (simp add: case_prod_beta)
  qed
qed simp

end

end
