(* ===== verification/PipeInv.thy ===== *)
theory PipeInv
  imports State0 Ring
begin

section \<open>Pipes are queues (pipe.c)\<close>

text \<open>
  The ring in a pipe satisfies the contract of a bounded queue, so the bytes come out as they
  went in: for every interleaving of the loops of writers and readers, and for whole calls that
  nobody disturbs.
\<close>

subsection \<open>The queue in a pipe\<close>

definition pipe_ok :: "pipe \<Rightarrow> bool" where
  "pipe_ok P \<longleftrightarrow> length (pi_data P) = PIPESIZE \<and> unat (pi_nwrite P - pi_nread P) \<le> PIPESIZE"

definition pipe_content :: "pipe \<Rightarrow> cchar list" where
  "pipe_content P = ring_list (pi_data P) (pi_nread P) (pi_nwrite P)"

definition pipe_empty :: "pipe \<Rightarrow> bool" where
  "pipe_empty P \<longleftrightarrow> pi_nread P = pi_nwrite P"

lemma pipe_dvd: "PIPESIZE dvd 2 ^ 32" "PIPESIZE < 2 ^ 32"
  by (simp_all add: PIPESIZE_def)

interpretation pq: bounded_queue pipe_ok pipe_content PIPESIZE pipe_full pipe_put pipe_empty pipe_get
proof
  fix P :: pipe assume ok: "pipe_ok P"
  have "pi_nwrite P = pi_nread P + of_nat PIPESIZE \<longleftrightarrow> pi_nwrite P - pi_nread P = of_nat PIPESIZE"
    by (auto simp: diff_eq_eq add.commute)
  also have "\<dots> \<longleftrightarrow> unat (pi_nwrite P - pi_nread P) = PIPESIZE"
    using pipe_dvd(2) by (simp add: word_unat_eq_iff unat_of_nat32)
  finally show "pipe_full P \<longleftrightarrow> length (pipe_content P) = PIPESIZE" by (simp add: pipe_full_def pipe_content_def)
next
  fix P :: pipe assume "pipe_ok P"
  then show "length (pipe_content P) \<le> PIPESIZE" by (simp add: pipe_ok_def pipe_content_def)
next
  fix P :: pipe and c assume ok: "pipe_ok P" and l: "length (pipe_content P) < PIPESIZE"
  have "pipe_content (pipe_put c P) = pipe_content P @ [c]"
    using ring_put[of "pi_data P" "pi_nwrite P" "pi_nread P" c] ok l pipe_dvd
    by (simp add: pipe_content_def pipe_put_def pipe_ok_def)
  moreover from arg_cong[OF this, of length] have "pipe_ok (pipe_put c P)"
    using ok l by (simp add: pipe_ok_def pipe_content_def pipe_put_def)
  ultimately show "pipe_ok (pipe_put c P) \<and> pipe_content (pipe_put c P) = pipe_content P @ [c]" by blast
next
  fix P :: pipe assume "pipe_ok P"
  then show "pipe_empty P \<longleftrightarrow> pipe_content P = []" by (simp add: pipe_empty_def pipe_content_def)
next
  fix P :: pipe assume ok: "pipe_ok P" and ne: "pipe_content P \<noteq> []"
  have "pipe_content P = fst (pipe_get P) # pipe_content (snd (pipe_get P))"
    using ring_get[of "pi_nread P" "pi_nwrite P" "pi_data P"] ok ne
    by (simp add: pipe_content_def pipe_get_def pipe_ok_def)
  moreover from arg_cong[OF this, of length] have "pipe_ok (snd (pipe_get P))"
    using ok by (simp add: pipe_ok_def pipe_content_def pipe_get_def)
  ultimately show "pipe_ok (snd (pipe_get P)) \<and> pipe_content P = fst (pipe_get P) # pipe_content (snd (pipe_get P))" by blast
qed

subsection \<open>Frames\<close>

lemma wakeup_frame:
  assumes "wakeup a ch s = Inr s'"
  shows "sched_state.more s' = sched_state.more s"
proof -
  obtain s1 s2 where s: "acquire a L_ptable s = Inr s1" "wakeup1 ch s1 = Inr s2" "release a L_ptable s2 = Inr s'"
    using assms by (auto simp: wakeup_def bindR_eq_Inr)
  have "sched_state.more s2 = sched_state.more s1"
    using s(2) unfolding wakeup1_def
    by (rule foldR_inv_partial[where I = "\<lambda>s. sched_state.more s = sched_state.more s1"])
       (auto simp: try_pt_Inr upd_pt_more split: if_splits)
  then show ?thesis
    using sched_more_eq(12)[of s1 s] sched_more_eq(12)[of s' s2] acquire_Inr[OF s(1)] release_Inr[OF s(3)] by simp
qed

lemma curproc_frame: "curproc a s = Inr (q, s') \<Longrightarrow> machine.more s' = machine.more s"
  by (auto simp: curproc_def myproc_def bindR_eq_Inr Let_def dest!: pushcli_Inr popcli_Inr)

lemma pipes_more:
  assumes "sched_state.more s' = sched_state.more (s :: 'a pipe_state_scheme)"
  shows "pipes s' = pipes s"
  using assms by (cases s, cases s', simp)

lemma pi_upd_sel [simp]:
  "pipes (pi_upd p f s) = (pipes s)(p := f (pipes s p))" "ptable (pi_upd p f s) = ptable s"
  "calm a q n F (pi_upd p f s) = calm a q n F s" "proc_at (pi_upd p f s) x = proc_at s x"
  "low s0 (pi_upd p f s) = low s0 s" "low (pi_upd p f s) s0 = low s s0"
proof -
  show "calm a q n F (pi_upd p f s) = calm a q n F s" by (rule calm_cong) (simp_all add: pi_upd_def)
qed (simp_all add: pi_upd_def proc_at_def low_def)

lemma pi_upd_upd [simp]: "pi_upd p f (pi_upd p g s) = pi_upd p (\<lambda>P. f (g P)) s" "pi_upd p (\<lambda>P. P) s = s"
  by (simp_all add: pi_upd_def)

lemma pi_upd_const: "pi_upd p (\<lambda>_. pipes s p) s = s"
  by (simp add: pi_upd_def)

subsection \<open>The loops are the queue's\<close>

lemma piperead_loop_drain:
  "piperead_loop p n s =
    (fst (drain pipe_empty pipe_get n (pipes s p)), pi_upd p (\<lambda>_. snd (drain pipe_empty pipe_get n (pipes s p))) s)"
proof (induction n arbitrary: s)
  case (Suc n)
  then show ?case by (simp add: pipe_empty_def Let_def case_prod_unfold pi_upd_const)
qed (simp add: pi_upd_const)

text \<open>A writer fills the pipe; if not everything fits it gives up or goes to sleep with what is left.\<close>

lemma pipewrite_loop_fill:
  assumes "fill pipe_full pipe_put cs (pipes s p) = (left, P)"
  shows "pipewrite_loop a p cs s =
    (if left = [] then Inr (Finished, [], pi_upd p (\<lambda>_. P) s) else pipewrite_loop a p left (pi_upd p (\<lambda>_. P) s)) \<and>
    (left \<noteq> [] \<longrightarrow> pipe_full P)"
  using assms
proof (induction cs arbitrary: s)
  case Nil
  then show ?case by (auto simp: pi_upd_const)
next
  case (Cons c cs)
  show ?case
  proof (cases "pipe_full (pipes s p)")
    case True
    then show ?thesis using Cons.prems by (auto simp: pi_upd_const)
  next
    case False
    then show ?thesis using Cons.IH[of "pi_upd p (pipe_put c) s"] Cons.prems by simp
  qed
qed

lemma pipewrite_loop_full:
  assumes "pipewrite_loop a p left s = Inr (w, rest, s')" and "left \<noteq> []" and "pipe_full (pipes s p)"
  shows "rest = left \<and> w \<noteq> Finished \<and> pipes s' = pipes s"
proof -
  obtain c cs where l: "left = c # cs" using assms(2) by (cases left) auto
  obtain b s2 where s2: "(if pi_readopen (pipes s p) = 0 then Inr (True, s)
      else bindR (curproc a s) (\<lambda>(q, s1). Inr (p_killed (proc_at s1 q) \<noteq> 0, s1))) = Inr (b, s2)"
    and e: "(if b then Inr (Killed, c # cs, s2) else bindR (wakeup a (Ch_nread p) s2) (\<lambda>s3. Inr (Waits, c # cs, s3))) = Inr (w, rest, s')"
    using assms l by (auto simp: bindR_eq_Inr)
  have "pipes s2 = pipes s"
    using s2 by (auto simp: bindR_eq_Inr split: if_splits dest!: curproc_frame intro!: pipes_more sched_more_eq(12))
  moreover have "pipes s' = pipes s2"
    using e by (auto simp: bindR_eq_Inr split: if_splits dest!: wakeup_frame intro!: pipes_more)
  ultimately show ?thesis using e l by (auto simp: bindR_eq_Inr split: if_splits)
qed

subsection \<open>Runs\<close>

text \<open>
  What can happen to a pipe, with the bytes put in and taken out so far: a writer runs its loop
  up to where it is done or waits, a reader takes what there is, and anything else goes on in
  the kernel that leaves this pipe alone.
\<close>

inductive pipe_run :: "cuint \<Rightarrow> 'a pipe_state_scheme \<Rightarrow> cchar list \<Rightarrow> cchar list \<Rightarrow> 'a pipe_state_scheme \<Rightarrow> bool"
  for p s where
  start: "pipe_run p s [] [] s"
| writes: "pipe_run p s W R t \<Longrightarrow> pipewrite_loop a p bs t = Inr (w, left, t') \<Longrightarrow>
    pipe_run p s (W @ take (length bs - length left) bs) R t'"
| reads: "pipe_run p s W R t \<Longrightarrow> piperead_loop p n t = (cs, t') \<Longrightarrow> pipe_run p s W (R @ cs) t'"
| others: "pipe_run p s W R t \<Longrightarrow> pipes t' p = pipes t p \<Longrightarrow> pipe_run p s W R t'"

lemma pipewrite_loop_content:
  assumes "pipe_ok (pipes s p)" and "pipewrite_loop a p bs s = Inr (w, left, s')"
  shows "pipe_ok (pipes s' p) \<and>
    pipe_content (pipes s' p) = pipe_content (pipes s p) @ take (length bs - length left) bs \<and>
    left = drop (PIPESIZE - length (pipe_content (pipes s p))) bs \<and> (w = Finished \<longleftrightarrow> left = [])"
proof -
  let ?k = "PIPESIZE - length (pipe_content (pipes s p))"
  obtain P where f: "fill pipe_full pipe_put bs (pipes s p) = (drop ?k bs, P)"
    and P: "pipe_ok P" "pipe_content P = pipe_content (pipes s p) @ take ?k bs"
    using pq.fill_fits[OF assms(1), of bs] by (cases "fill pipe_full pipe_put bs (pipes s p)") auto
  note l = pipewrite_loop_fill[OF f, of a]
  show ?thesis
  proof (cases "drop ?k bs = []")
    case True
    then show ?thesis using l assms(2) P by auto
  next
    case False
    have e: "pipewrite_loop a p (drop ?k bs) (pi_upd p (\<lambda>_. P) s) = Inr (w, left, s')" and fu: "pipe_full P"
      using l assms(2) False by auto
    from pipewrite_loop_full[OF e False] fu have "left = drop ?k bs" "w \<noteq> Finished" "pipes s' p = P" by auto
    then show ?thesis using P False by auto
  qed
qed

text \<open>
  C33. A pipe is a first-in first-out queue of bytes with room for 512: under every interleaving
  of writers, readers and the rest of the kernel, also when the two counters wrap around, the
  bytes that were put in are exactly the bytes that were taken out, in order, followed by the
  at most 512 bytes still in the pipe.
\<close>

theorem pipe_fifo:
  assumes "pipe_run p s W R t" and "pipe_ok (pipes s p)" and "pipe_content (pipes s p) = []"
  shows "W = R @ pipe_content (pipes t p) \<and> length (pipe_content (pipes t p)) \<le> PIPESIZE"
proof -
  have "pipe_ok (pipes t p) \<and> W = R @ pipe_content (pipes t p)"
    using assms(1)
  proof induction
    case start
    then show ?case using assms(2,3) by simp
  next
    case (writes W R t a bs w left t')
    then show ?case using pipewrite_loop_content[of t p a bs w left t'] by simp
  next
    case (reads W R t n cs t')
    then have "cs = take n (pipe_content (pipes t p))" "pipe_ok (pipes t' p)"
      "pipe_content (pipes t' p) = drop n (pipe_content (pipes t p))"
      using pq.drain_takes[of "pipes t p" n] by (auto simp: piperead_loop_drain)
    then show ?case using reads by simp
  next
    case (others W R t t')
    then show ?case by simp
  qed
  then show ?thesis using pq.cap_law by blast
qed

lemma pipe0_pipes [simp]: "pipes pipe0 = (\<lambda>_. \<lparr>pi_data = replicate PIPESIZE 0, pi_nread = 0, pi_nwrite = 0, pi_readopen = 1, pi_writeopen = 1\<rparr>)"
  by (simp add: pipe0_def state0_defs)

theorem pipe_fifo_witness:
  "\<exists>t. pipe_run 0 pipe0 [7, 8] [7] t \<and> [7, 8] = [7] @ pipe_content (pipes t 0)"
proof -
  have nf: "\<not> pipe_full (pipes pipe0 0)" "\<not> pipe_full (pipe_put 7 (pipes pipe0 0))"
    by (simp_all add: pipe_full_def pipe_put_def PIPESIZE_def)
  let ?t = "pi_upd 0 (\<lambda>P. pipe_put 8 (pipe_put 7 P)) pipe0"
  let ?u = "pi_upd 0 (\<lambda>_. snd (pipe_get (pipes ?t 0))) ?t"
  have "pipewrite_loop 0 0 [7, 8] pipe0 = Inr (Finished, [], ?t)" using nf by simp
  from pipe_run.writes[OF pipe_run.start this] have w: "pipe_run 0 pipe0 [7, 8] [] ?t" by simp
  have "piperead_loop 0 1 ?t = ([7], ?u)"
    by (simp add: pipe_get_def pipe_put_def PIPESIZE_def case_prod_unfold)
  from pipe_run.reads[OF w this] have r: "pipe_run 0 pipe0 [7, 8] [7] ?u" by simp
  from pipe_fifo[OF this] show ?thesis
    using r by (auto simp: pipe_ok_def pipe_content_def)
qed

subsection \<open>Whole calls\<close>

lemma pipewrite_calm:
  assumes c: "calm a q n F s" and n: "n < 90" and F: "L_pipe p \<notin> F" "L_ptable \<notin> F" and ok: "pipe_ok (pipes s p)"
    and len: "sint len = int (length src)" and fits: "length (pipe_content (pipes s p)) + length src \<le> PIPESIZE"
  shows "\<exists>s'. pipewrite a p src len s = Inr (len, s') \<and> calm a q n F s' \<and> pipe_ok (pipes s' p) \<and>
    pipe_content (pipes s' p) = pipe_content (pipes s p) @ src"
proof -
  from acquire_calm[OF c _ F(1)] n obtain s1 where
    s1: "acquire a (L_pipe p) s = Inr s1" "calm a q (Suc n) (insert (L_pipe p) F) s1" "machine.more s1 = machine.more s" by auto
  have p1: "pipes s1 = pipes s" by (rule pipes_more[OF sched_more_eq(12)[OF s1(3)]])
  let ?P = "snd (fill pipe_full pipe_put src (pipes s p))"
  have f: "fill pipe_full pipe_put src (pipes s1 p) = ([], ?P)" and P: "pipe_ok ?P" "pipe_content ?P = pipe_content (pipes s p) @ src"
    using pq.fill_fits[OF ok, of src] fits unfolding p1 by auto
  let ?s2 = "pi_upd p (\<lambda>_. ?P) s1"
  have l: "pipewrite_loop a p src s1 = Inr (Finished, [], ?s2)" using pipewrite_loop_fill[OF f] by simp
  have c2: "calm a q (Suc n) (insert (L_pipe p) F) ?s2" using s1(2) by simp
  from wakeup_calm[OF c2, of "Ch_nread p"] n F(2) obtain s3 where
    s3: "wakeup a (Ch_nread p) ?s2 = Inr s3" "calm a q (Suc n) (insert (L_pipe p) F) s3"
      "sched_state.more s3 = sched_state.more ?s2" by auto
  from release_calm[OF s3(2), of "L_pipe p"] n obtain s4 where
    s4: "release a (L_pipe p) s3 = Inr s4" "calm a q n (insert (L_pipe p) F - {L_pipe p}) s4" "machine.more s4 = machine.more s3" by auto
  have "pipes s4 p = ?P"
    using pipes_more[OF sched_more_eq(12)[OF s4(3)]] pipes_more[OF s3(3)] by simp
  moreover have "pipewrite a p src len s = Inr (len, s4)" using s1(1) l s3(1) s4(1) len by (simp add: pipewrite_def)
  ultimately show ?thesis using P s4(2) F(1) by auto
qed

lemma piperead_calm:
  assumes c: "calm a q n F s" and n: "n < 90" and F: "L_pipe p \<notin> F" "L_ptable \<notin> F" and ok: "pipe_ok (pipes s p)"
    and ne: "pipe_content (pipes s p) \<noteq> [] \<or> pi_writeopen (pipes s p) = 0"
  shows "\<exists>s'. piperead a p m s = Inr (of_nat (min (nat (sint m)) (length (pipe_content (pipes s p)))), take (nat (sint m)) (pipe_content (pipes s p)), s') \<and>
    calm a q n F s' \<and> pipe_ok (pipes s' p) \<and> pipe_content (pipes s' p) = drop (nat (sint m)) (pipe_content (pipes s p))"
proof -
  from acquire_calm[OF c _ F(1)] n obtain s1 where
    s1: "acquire a (L_pipe p) s = Inr s1" "calm a q (Suc n) (insert (L_pipe p) F) s1" "machine.more s1 = machine.more s" by auto
  have p1: "pipes s1 = pipes s" by (rule pipes_more[OF sched_more_eq(12)[OF s1(3)]])
  let ?d = "drain pipe_empty pipe_get (nat (sint m)) (pipes s p)"
  note D = pq.drain_takes[OF ok, of "nat (sint m)"]
  let ?s2 = "pi_upd p (\<lambda>_. snd ?d) s1"
  have l: "piperead_loop p (nat (sint m)) s1 = (take (nat (sint m)) (pipe_content (pipes s p)), ?s2)"
    using D by (simp add: piperead_loop_drain p1)
  have c2: "calm a q (Suc n) (insert (L_pipe p) F) ?s2" using s1(2) by simp
  from wakeup_calm[OF c2, of "Ch_nwrite p"] n F(2) obtain s3 where
    s3: "wakeup a (Ch_nwrite p) ?s2 = Inr s3" "calm a q (Suc n) (insert (L_pipe p) F) s3"
      "sched_state.more s3 = sched_state.more ?s2" by auto
  from release_calm[OF s3(2), of "L_pipe p"] n obtain s4 where
    s4: "release a (L_pipe p) s3 = Inr s4" "calm a q n (insert (L_pipe p) F - {L_pipe p}) s4" "machine.more s4 = machine.more s3" by auto
  have e: "\<not> (pi_nread (pipes s p) = pi_nwrite (pipes s p) \<and> pi_writeopen (pipes s p) \<noteq> 0)"
    using ne pq.empty_law[OF ok] by (auto simp: pipe_empty_def)
  have "pipes s4 p = snd ?d"
    using pipes_more[OF sched_more_eq(12)[OF s4(3)]] pipes_more[OF s3(3)] by simp
  moreover have "piperead a p m s = Inr (of_nat (min (nat (sint m)) (length (pipe_content (pipes s p)))),
      take (nat (sint m)) (pipe_content (pipes s p)), s4)"
    using s1(1) l s3(1) s4(1) e by (auto simp: piperead_def p1 Let_def min.commute)
  ultimately show ?thesis using D s4(2) F(1) by auto
qed



end
