(* ===== verification/BioInv.thy ===== *)
theory BioInv
  imports State0
begin

section \<open>The buffer cache is transparent (bio.c, ide.c)\<close>

text \<open>
  What a disk request does, how the ring of buffers moves, the invariant of the cache, and what
  a client sees of it: blocks that hold what was last written to them.
\<close>

subsection \<open>One disk request\<close>

lemma bio_more_eq:
  assumes "sl_state.more s' = sl_state.more (s :: 'a bio_state_scheme)"
  shows "bufs s' = bufs s" "idequeue s' = idequeue s" "havedisk1 s' = havedisk1 s" "ide_drive s' = ide_drive s"
    "ide_lba s' = ide_lba s" "ide_error s' = ide_error s" "disk s' = disk s" "bio_state.more s' = bio_state.more s"
  using assms by (cases s, cases s', simp)+

text \<open>What an operation on the machine below leaves of the buffers.\<close>

lemma machine_bio:
  assumes "machine.more s' = machine.more (s :: 'a bio_state_scheme)"
  shows "slocks s' = slocks s" "bufs s' = bufs s" "idequeue s' = idequeue s" "havedisk1 s' = havedisk1 s"
    "ide_drive s' = ide_drive s" "ide_lba s' = ide_lba s" "ide_error s' = ide_error s" "disk s' = disk s"
    "bio_state.more s' = bio_state.more s" "low s s'" "proc_at s' x = proc_at s x"
  using sl_more_eq(1)[OF sched_more_eq(12)[OF assms]] bio_more_eq[OF sl_more_eq(2)[OF sched_more_eq(12)[OF assms]]]
    low_more[OF assms] sched_more_eq(13)[OF assms] by simp_all

lemma b_upd_sel [simp]:
  "bufs (b_upd b f s) = (bufs s)(b := f (bufs s b))" "idequeue (b_upd b f s) = idequeue s"
  "havedisk1 (b_upd b f s) = havedisk1 s" "ide_drive (b_upd b f s) = ide_drive s" "ide_lba (b_upd b f s) = ide_lba s"
  "ide_error (b_upd b f s) = ide_error s" "disk (b_upd b f s) = disk s" "slocks (b_upd b f s) = slocks s"
  "bio_state.more (b_upd b f s) = bio_state.more s" "ptable (b_upd b f s) = ptable s"
  "proc_at (b_upd b f s) q = proc_at s q" "low s0 (b_upd b f s) = low s0 s" "low (b_upd b f s) s0 = low s s0"
  "calm a p n F (b_upd b f s) = calm a p n F s"
proof -
  show "calm a p n F (b_upd b f s) = calm a p n F s" by (rule calm_cong) (simp_all add: b_upd_def)
qed (simp_all add: b_upd_def proc_at_def low_def)

text \<open>A sector below \<open>FSSIZE\<close> comes out of the four address registers as it went in.\<close>

lemma lba_eq:
  fixes sector :: cuint
  assumes "sector < FSSIZE"
  shows "(sector AND 0xFF) OR push_bit 8 (drop_bit 8 sector AND 0xFF) OR
     push_bit 16 (drop_bit 16 sector AND 0xFF) OR push_bit 24 (drop_bit 24 sector AND 0x0F) = sector"
proof -
  have "unat sector < 1000" using assms unat_mono[OF assms] by (simp add: FSSIZE_def)
  then have "take_bit 28 (unat sector) = unat sector" by (simp add: take_bit_nat_eq_self)
  then have t: "take_bit 28 sector = sector" by (simp add: word_unat_eq_iff unsigned_take_bit_eq)
  have b: "bit sector n \<Longrightarrow> n < 28" for n using arg_cong[OF t, of "\<lambda>w. bit w n"] by (simp add: bit_take_bit_iff)
  have m: "(0xFF :: cuint) = mask 8" "(0x0F :: cuint) = mask 4" by (simp_all add: mask_eq_exp_minus_1)
  show ?thesis unfolding m
  proof (rule bit_word_eqI)
    fix n assume "n < LENGTH(32)"
    then show "bit ((sector AND mask 8) OR push_bit 8 (drop_bit 8 sector AND mask 8) OR
      push_bit 16 (drop_bit 16 sector AND mask 8) OR push_bit 24 (drop_bit 24 sector AND mask 4)) n = bit sector n"
      using b[of n] by (cases "n < 8"; cases "n < 16"; cases "n < 24"; auto simp: bit_simps)
  qed
qed

text \<open>The completion of the only request.\<close>

lemma ideintr_calm:
  assumes c: "calm a p n F s" and n: "n < 80" and F: "L_ide \<notin> F" "L_ptable \<notin> F"
    and q: "idequeue s = Some b" "b_qnext (bufs s b) = None" and e: "\<not> ide_error s"
  shows "\<exists>s'. ideintr a s = Inr s' \<and> calm a p n F s' \<and> low s s' \<and> slocks s' = slocks s \<and>
    bufs s' = (bufs s)(b := (bufs s b)\<lparr>b_data := (if b_flags (bufs s b) AND B_DIRTY = 0 then disk s (ide_drive s) (ide_lba s) else b_data (bufs s b)),
      b_flags := (b_flags (bufs s b) OR B_VALID) AND NOT B_DIRTY\<rparr>) \<and>
    idequeue s' = None \<and> disk s' = disk s \<and> ide_error s' = ide_error s \<and> havedisk1 s' = havedisk1 s \<and>
    bio_state.more s' = bio_state.more s"
proof -
  from acquire_calm[OF c _ F(1)] n obtain s1 where
    s1: "acquire a L_ide s = Inr s1" "calm a p (Suc n) (insert L_ide F) s1" "machine.more s1 = machine.more s" by auto
  note m1 = machine_bio[OF s1(3)]
  let ?s2 = "s1\<lparr>idequeue := None\<rparr>"
  let ?s3 = "if b_flags (bufs s b) AND B_DIRTY = 0 then b_upd b (\<lambda>B. B\<lparr>b_data := disk s (ide_drive s) (ide_lba s)\<rparr>) ?s2 else ?s2"
  let ?s4 = "b_upd b (\<lambda>B. B\<lparr>b_flags := (b_flags B OR B_VALID) AND NOT B_DIRTY\<rparr>) ?s3"
  define s4 where "s4 = ?s4"
  have f4: "bufs s4 = (bufs s)(b := (bufs s b)\<lparr>b_data := (if b_flags (bufs s b) AND B_DIRTY = 0 then disk s (ide_drive s) (ide_lba s) else b_data (bufs s b)),
      b_flags := (b_flags (bufs s b) OR B_VALID) AND NOT B_DIRTY\<rparr>)"
    "idequeue s4 = None" "disk s4 = disk s" "ide_error s4 = ide_error s" "havedisk1 s4 = havedisk1 s"
    "bio_state.more s4 = bio_state.more s" "slocks s4 = slocks s"
    unfolding s4_def using m1(1-9) by (simp_all split: if_split)
  have k: "calm a p (Suc n) (insert L_ide F) ?s2" using s1(2) by (subst calm_cong) simp_all
  have c4: "calm a p (Suc n) (insert L_ide F) s4" using k by (simp add: s4_def)
  from wakeup_calm[OF c4, of "Ch_buf b"] n F(2) obtain s5 where
    s5: "wakeup a (Ch_buf b) s4 = Inr s5" "calm a p (Suc n) (insert L_ide F) s5" "low s4 s5"
      "sched_state.more s5 = sched_state.more s4" by auto
  note e5 = sl_more_eq[OF s5(4)] and b5 = bio_more_eq[OF sl_more_eq(2)[OF s5(4)]]
  from release_calm[OF s5(2), of L_ide] n obtain s6 where
    s6: "release a L_ide s5 = Inr s6" "calm a p n (insert L_ide F - {L_ide}) s6" "machine.more s6 = machine.more s5" by auto
  note m6 = machine_bio[OF s6(3)]
  have "ideintr a s = Inr s6"
    using s1(1) s5(1) s6(1) b5(2) f4(2) m1 q e unfolding s4_def by (simp add: ideintr_def Let_def idewait_def cong: if_cong)
  moreover have "low s ?s2" using m1(10) by (simp add: low_def proc_at_def)
  then have "low s s4" by (simp add: s4_def)
  then have "low s s6" using s5(3) m6(10) low_trans by blast
  ultimately show ?thesis using s6(2) F(1) m6 b5 f4 e5 by auto
qed

lemmas flag_defs = B_VALID_def B_DIRTY_def

lemma dirty_facts: "(0 :: cint) AND B_DIRTY = 0" "(6 :: cint) AND B_DIRTY = 4" "(6 :: cint) = 0 \<longleftrightarrow> False" "(4 :: cint) = 0 \<longleftrightarrow> False"
  by (simp_all add: flag_defs)

lemma idestart_req:
  assumes "b_dev (bufs s b) = 1" and "b_blockno (bufs s b) = bn" and "bn < FSSIZE"
  shows "idestart (Some b) s = Inr (if b_flags (bufs s b) AND B_DIRTY \<noteq> 0
    then s\<lparr>ide_drive := 1, ide_lba := bn, disk := (disk s)(1 := (disk s 1)(bn := b_data (bufs s b)))\<rparr>
    else s\<lparr>ide_drive := 1, ide_lba := bn\<rparr>)"
  unfolding idestart_def option.case Let_def assms lba_eq[OF assms(3)] and.idem if_not_P[OF iffD2[OF not_le assms(3)]] bio_state.simps by simp

text \<open>
  A request with the queue empty: a buffer without valid data gets the block's data from the
  disk, a dirty one is written to the disk, and the buffer is valid and clean.
\<close>

lemma iderw_calm:
  assumes c: "calm a p n F s" and n: "n < 70" and F: "L_ide \<notin> F" "L_ptable \<notin> F" "L_buf b \<notin> F"
    and l: "sl_locked (slocks s (L_buf b)) \<noteq> 0" "sl_pid (slocks s (L_buf b)) = p_pid (proc_at s p)"
    and q: "idequeue s = None" "\<not> ide_error s" "havedisk1 s \<noteq> 0"
    and d: "b_dev (bufs s b) = 1" "b_blockno (bufs s b) = bn" "bn < FSSIZE" and f: "b_flags (bufs s b) = 0 \<or> b_flags (bufs s b) = 6"
  shows "\<exists>s'. iderw a b s = Inr s' \<and> calm a p n F s' \<and> low s s' \<and> slocks s' = slocks s \<and>
    bufs s' = (bufs s)(b := (bufs s b)\<lparr>b_qnext := None,
      b_data := (if b_flags (bufs s b) = 0 then disk s 1 bn else b_data (bufs s b)), b_flags := 2\<rparr>) \<and>
    disk s' = (if b_flags (bufs s b) = 0 then disk s else (disk s)(1 := (disk s 1)(bn := b_data (bufs s b)))) \<and>
    idequeue s' = None \<and> ide_error s' = ide_error s \<and> havedisk1 s' = havedisk1 s \<and> bio_state.more s' = bio_state.more s"
proof -
  from holdingsleep_calm[OF c _ F(3)] n l obtain s1 where
    s1: "holdingsleep a (L_buf b) s = Inr (True, s1)" "calm a p n F s1" "machine.more s1 = machine.more s" by auto
  note m1 = machine_bio[OF s1(3)]
  from acquire_calm[OF s1(2) _ F(1)] n obtain s2 where
    s2: "acquire a L_ide s1 = Inr s2" "calm a p (Suc n) (insert L_ide F) s2" "machine.more s2 = machine.more s1" by auto
  note m2 = machine_bio[OF s2(3)]
  let ?s3 = "(b_upd b (\<lambda>B. B\<lparr>b_qnext := None\<rparr>) s2)\<lparr>idequeue := Some b\<rparr>"
  have a3: "ide_append b s2 = Inr ?s3" using q(1) m1 m2 by (simp add: ide_append_def Let_def)
  define s4 where "s4 = (let t = ?s3\<lparr>ide_drive := 1, ide_lba := bn\<rparr> in
    if b_flags (bufs s b) = 0 then t else t\<lparr>disk := (disk s)(1 := (disk s 1)(bn := b_data (bufs s b)))\<rparr>)"
  have a4: "idestart (Some b) ?s3 = Inr s4"
  proof -
    have v: "b_flags (bufs ?s3 b) = b_flags (bufs s b)" "b_data (bufs ?s3 b) = b_data (bufs s b)" "disk ?s3 = disk s"
      "b_dev (bufs ?s3 b) = 1" "b_blockno (bufs ?s3 b) = bn" using d m1(2,8) m2(2,8) by simp_all
    note st = idestart_req[of ?s3 b bn, OF v(4,5) d(3), unfolded v]
    from f show ?thesis
    proof
      assume z: "b_flags (bufs s b) = 0"
      show ?thesis unfolding st s4_def Let_def z by (simp only: dirty_facts if_True if_False simp_thms)
    next
      assume z: "b_flags (bufs s b) = 6"
      show ?thesis unfolding st s4_def Let_def z by (simp only: dirty_facts if_True if_False simp_thms)
    qed
  qed
  have e4: "bufs s4 = (bufs s)(b := (bufs s b)\<lparr>b_qnext := None\<rparr>)" "idequeue s4 = Some b" "ide_drive s4 = 1" "ide_lba s4 = bn"
    "disk s4 = (if b_flags (bufs s b) = 0 then disk s else (disk s)(1 := (disk s 1)(bn := b_data (bufs s b))))"
    "ide_error s4 = ide_error s" "havedisk1 s4 = havedisk1 s" "bio_state.more s4 = bio_state.more s" "slocks s4 = slocks s"
    using m1 m2 by (simp_all add: s4_def Let_def)
  have c4: "calm a p (Suc n) (insert L_ide F) s4" using s2(2) by (subst calm_cong[of s4 s2]) (simp_all add: s4_def Let_def b_upd_def)
  have l4: "low s s4"
  proof -
    have "low s2 s4" by (simp add: low_def s4_def Let_def proc_at_def b_upd_def)
    then show ?thesis using m1(10) m2(10) low_trans by blast
  qed
  from release_calm[OF c4, of L_ide] n F(1) obtain s5 where
    s5: "release a L_ide s4 = Inr s5" "calm a p n F s5" "machine.more s5 = machine.more s4" by auto
  note m5 = machine_bio[OF s5(3)]
  from ideintr_calm[OF s5(2) _ F(1,2), of b] n q(2) obtain s6 where
    s6: "ideintr a s5 = Inr s6" "calm a p n F s6" "low s5 s6" "slocks s6 = slocks s5"
      "bufs s6 = (bufs s5)(b := (bufs s5 b)\<lparr>b_data := (if b_flags (bufs s5 b) AND B_DIRTY = 0 then disk s5 (ide_drive s5) (ide_lba s5) else b_data (bufs s5 b)),
        b_flags := (b_flags (bufs s5 b) OR B_VALID) AND NOT B_DIRTY\<rparr>)"
      "idequeue s6 = None" "disk s6 = disk s5" "ide_error s6 = ide_error s5" "havedisk1 s6 = havedisk1 s5"
      "bio_state.more s6 = bio_state.more s5" by (auto simp: m5 e4)
  from acquire_calm[OF s6(2) _ F(1)] n obtain s7 where
    s7: "acquire a L_ide s6 = Inr s7" "calm a p (Suc n) (insert L_ide F) s7" "machine.more s7 = machine.more s6" by auto
  note m7 = machine_bio[OF s7(3)]
  from release_calm[OF s7(2), of L_ide] n F(1) obtain s8 where
    s8: "release a L_ide s7 = Inr s8" "calm a p n F s8" "machine.more s8 = machine.more s7" by auto
  note m8 = machine_bio[OF s8(3)]
  have b6: "bufs s6 = (bufs s)(b := (bufs s b)\<lparr>b_qnext := None,
      b_data := (if b_flags (bufs s b) = 0 then disk s 1 bn else b_data (bufs s b)), b_flags := 2\<rparr>)"
    using f unfolding s6(5) m5 e4 by (auto simp: flag_defs)
  have w0: "iderw_wait NBUF a b s7 = Inr s7" by (subst iderw_wait.simps) (simp add: m7 b6 flag_defs)
  have w: "iderw_wait (Suc NBUF) a b s4 = Inr s7"
    using f s5(1) s6(1) s7(1) w0 by (subst iderw_wait.simps) (auto simp: e4 flag_defs)
  have "iderw a b s = Inr s8"
    using s1(1) s2(1) a3 a4 w s8(1) f d q by (auto simp: iderw_def m1 flag_defs)
  moreover have "low s s8" using l4 m5(10) s6(3) m7(10) m8(10) low_trans by meson
  ultimately show ?thesis using s8(2) m8 m7 s6 m5 e4 b6 by auto
qed

subsection \<open>The ring of buffers\<close>

text \<open>The links of a list of buffers, in both directions.\<close>

fun path :: "(nat \<Rightarrow> nat) \<Rightarrow> (nat \<Rightarrow> nat) \<Rightarrow> nat list \<Rightarrow> bool" where
  "path nx pv (x # y # zs) \<longleftrightarrow> nx x = y \<and> pv y = x \<and> path nx pv (y # zs)"
| "path nx pv _ \<longleftrightarrow> True"

lemma path_append: "path nx pv (us @ x # vs) \<longleftrightarrow> path nx pv (us @ [x]) \<and> path nx pv (x # vs)"
  by (induction us rule: induct_list012) auto

lemma path_upd:
  "x \<notin> set (butlast l) \<Longrightarrow> path (nx(x := y)) pv l = path nx pv l"
  "x \<notin> set (tl l) \<Longrightarrow> path nx (pv(x := y)) l = path nx pv l"
  by (induction l rule: induct_list012) auto

lemma path_unlink:
  assumes "path nx pv (us @ x # b # y # vs)" and "distinct (us @ x # b # butlast (y # vs))" and "distinct (tl (us @ [x]) @ b # y # vs)"
  shows "path (nx(x := y)) (pv(y := x)) (us @ x # y # vs)"
proof -
  have p: "path nx pv (us @ [x])" "path nx pv (y # vs)"
    using assms(1) path_append[of nx pv us x "b # y # vs"] by auto
  have "path (nx(x := y)) (pv(y := x)) (us @ [x])"
    using p(1) assms(2,3) by (simp add: path_upd butlast_append)
  moreover have "path (nx(x := y)) (pv(y := x)) (y # vs)"
    using p(2) assms(2,3) by (simp add: path_upd)
  ultimately show ?thesis using path_append[of _ _ us x "y # vs"] by simp
qed

lemma path_insert:
  assumes "path nx pv (h # y # vs)" and "h \<notin> set (butlast (y # vs))" and "b \<notin> set (y # vs)" and "b \<noteq> h" and "y \<notin> set vs"
  shows "path (nx(b := y, h := b)) (pv(b := h, y := b)) (h # b # y # vs)"
proof -
  have "b \<notin> set (butlast (y # vs))" using assms(3) in_set_butlastD by metis
  then have "path (nx(b := y, h := b)) (pv(b := h, y := b)) (y # vs)" using assms by (simp add: path_upd)
  then show ?thesis using assms by auto
qed

definition ring :: "(nat \<Rightarrow> buf) \<Rightarrow> nat list \<Rightarrow> bool" where
  "ring bs xs \<longleftrightarrow> path (\<lambda>b. b_next (bs b)) (\<lambda>b. b_prev (bs b)) (NBUF # xs @ [NBUF]) \<and> distinct xs \<and> set xs = {..<NBUF}"

lemma buf_scan_next:
  assumes "path (\<lambda>b. b_next (bs b)) pv (xs @ [NBUF])" and "NBUF \<notin> set xs" and "length xs \<le> n"
  shows "buf_scan n b_next P bs (hd (xs @ [NBUF])) = Inr (find (\<lambda>b. P (bs b)) xs)"
  using assms
proof (induction xs arbitrary: n)
  case Nil
  then show ?case by (subst buf_scan.simps) simp
next
  case (Cons x xs)
  then obtain m where m: "n = Suc m" "length xs \<le> m" by (cases n) auto
  have p: "path (\<lambda>b. b_next (bs b)) pv (xs @ [NBUF])" "b_next (bs x) = hd (xs @ [NBUF])"
    using Cons.prems(1) by (cases xs; simp)+
  show ?case using Cons.IH[OF p(1) _ m(2)] Cons.prems(2) p(2) m(1) by (subst buf_scan.simps) simp
qed

lemma buf_scan_prev:
  assumes "path nx (\<lambda>b. b_prev (bs b)) (NBUF # xs)" and "NBUF \<notin> set xs" and "length xs \<le> n"
  shows "buf_scan n b_prev P bs (last (NBUF # xs)) = Inr (find (\<lambda>b. P (bs b)) (rev xs))"
  using assms
proof (induction xs arbitrary: n rule: rev_induct)
  case Nil
  then show ?case by (subst buf_scan.simps) simp
next
  case (snoc x xs)
  then obtain m where m: "n = Suc m" "length xs \<le> m" by (cases n) auto
  have p: "path nx (\<lambda>b. b_prev (bs b)) (NBUF # xs)" "b_prev (bs x) = last (NBUF # xs)"
  proof -
    obtain us l where ul: "NBUF # xs = us @ [l]" by (metis append_butlast_last_id list.distinct(1))
    then have "path nx (\<lambda>b. b_prev (bs b)) (us @ l # [x])" using snoc.prems(1) by (metis append_Cons append.assoc append_Nil)
    then show "path nx (\<lambda>b. b_prev (bs b)) (NBUF # xs)" "b_prev (bs x) = last (NBUF # xs)"
      using path_append[of nx _ us l "[x]"] ul by auto
  qed
  show ?case using snoc.IH[OF p(1) _ m(2)] snoc.prems(2) p(2) m(1) by (subst buf_scan.simps) simp
qed

lemma ring_scan:
  assumes "ring bs xs"
  shows "buf_scan NBUF b_next P bs (b_next (bs NBUF)) = Inr (find (\<lambda>b. P (bs b)) xs)"
    "buf_scan NBUF b_prev P bs (b_prev (bs NBUF)) = Inr (find (\<lambda>b. P (bs b)) (rev xs))"
proof -
  note r = assms[unfolded ring_def]
  have l: "length xs = NBUF" using distinct_card[of xs] r by simp
  have n: "NBUF \<notin> set xs" using r by simp
  have h: "path (\<lambda>b. b_next (bs b)) (\<lambda>b. b_prev (bs b)) (xs @ [NBUF])" "b_next (bs NBUF) = hd (xs @ [NBUF])"
    using r by (cases xs; simp)+
  have t: "path (\<lambda>b. b_next (bs b)) (\<lambda>b. b_prev (bs b)) (NBUF # xs)" "b_prev (bs NBUF) = last (NBUF # xs)"
  proof -
    obtain us x where ul: "NBUF # xs = us @ [x]" by (metis append_butlast_last_id list.distinct(1))
    then have "path (\<lambda>b. b_next (bs b)) (\<lambda>b. b_prev (bs b)) (us @ x # [NBUF])" using r by (metis append_Cons append.assoc append_Nil)
    then show "path (\<lambda>b. b_next (bs b)) (\<lambda>b. b_prev (bs b)) (NBUF # xs)" "b_prev (bs NBUF) = last (NBUF # xs)"
      using path_append[of _ _ us x "[NBUF]"] ul by auto
  qed
  show "buf_scan NBUF b_next P bs (b_next (bs NBUF)) = Inr (find (\<lambda>b. P (bs b)) xs)"
    using buf_scan_next[OF h(1) n] l h(2) by simp
  show "buf_scan NBUF b_prev P bs (b_prev (bs NBUF)) = Inr (find (\<lambda>b. P (bs b)) (rev xs))"
    using buf_scan_prev[OF t(1) n] l t(2) by simp
qed

text \<open>Moving a buffer to the front.\<close>

lemma link_upd:
  "b_next (bufs (b_upd d (\<lambda>B. B\<lparr>b_next := v\<rparr>) s) c) = ((\<lambda>c. b_next (bufs s c))(d := v)) c"
  "b_prev (bufs (b_upd d (\<lambda>B. B\<lparr>b_next := v\<rparr>) s) c) = b_prev (bufs s c)"
  "b_next (bufs (b_upd d (\<lambda>B. B\<lparr>b_prev := v\<rparr>) s) c) = b_next (bufs s c)"
  "b_prev (bufs (b_upd d (\<lambda>B. B\<lparr>b_prev := v\<rparr>) s) c) = ((\<lambda>c. b_prev (bufs s c))(d := v)) c"
  by (simp_all add: b_upd_def)

lemma to_front_links:
  assumes "b_next (bufs s b) = y" and "b_prev (bufs s b) = x" and "x \<noteq> b" and "y \<noteq> b" and "b \<noteq> NBUF"
    and "((\<lambda>c. b_next (bufs s c))(x := y)) NBUF = z" and "z \<noteq> b"
  shows "(\<lambda>c. b_next (bufs (to_front b s) c)) = (\<lambda>c. b_next (bufs s c))(x := y, b := z, NBUF := b)"
    "(\<lambda>c. b_prev (bufs (to_front b s) c)) = (\<lambda>c. b_prev (bufs s c))(y := x, b := NBUF, z := b)"
  using assms unfolding to_front_def Let_def link_upd fun_eq_iff by (auto split: if_splits)

lemma to_front_ring:
  assumes "ring (bufs s) xs" and "b < NBUF"
  shows "ring (bufs (to_front b s)) (b # remove1 b xs)"
proof -
  let ?nx = "\<lambda>c. b_next (bufs s c)" and ?pv = "\<lambda>c. b_prev (bufs s c)"
  note r = assms(1)[unfolded ring_def]
  from assms(2) r obtain ys zs where xs: "xs = ys @ b # zs" by (metis lessThan_iff split_list)
  obtain us x where ux: "NBUF # ys = us @ [x]" by (metis append_butlast_last_id list.distinct(1))
  obtain y vs where yv: "zs @ [NBUF] = y # vs" by (cases zs) auto
  have l: "NBUF # xs @ [NBUF] = us @ x # b # y # vs" using xs ux yv by (metis append.assoc append_Cons append_Nil)
  have d1: "distinct (NBUF # xs)" "distinct (xs @ [NBUF])" using r by auto
  have d2: "distinct (us @ x # b # butlast (y # vs))" "distinct (tl (us @ [x]) @ b # y # vs)"
  proof -
    have "us @ x # b # butlast (y # vs) = butlast (NBUF # xs @ [NBUF])" unfolding l by (simp add: butlast_append)
    then show "distinct (us @ x # b # butlast (y # vs))" using d1(1) by (simp del: butlast.simps add: butlast_snoc[of "NBUF # xs", simplified])
    have "tl (us @ [x]) @ b # y # vs = tl (NBUF # xs @ [NBUF])" unfolding l by (cases us) auto
    then show "distinct (tl (us @ [x]) @ b # y # vs)" using d1(2) by simp
  qed
  have p: "path ?nx ?pv (us @ x # b # y # vs)" using r l by simp
  then have nb: "?nx b = y" "?pv b = x" using path_append[of ?nx ?pv us x "b # y # vs"] by auto
  let ?nx1 = "?nx(x := y)" and ?pv1 = "?pv(y := x)"
  have q: "path ?nx1 ?pv1 (us @ x # y # vs)" by (rule path_unlink[OF p d2])
  have l1: "us @ x # y # vs = NBUF # (ys @ zs) @ [NBUF]" using ux yv by (metis append.assoc append_Cons append_Nil)
  obtain z ws where zw: "(ys @ zs) @ [NBUF] = z # ws" by (cases "ys @ zs") auto
  have dz: "distinct (ys @ zs)" "NBUF \<notin> set (ys @ zs)" "b \<notin> set (ys @ zs)" "b \<noteq> NBUF" using d1 xs assms(2) by auto
  have e: "NBUF \<notin> set (butlast (z # ws))" "b \<notin> set (z # ws)" "z \<notin> set ws"
  proof -
    show "NBUF \<notin> set (butlast (z # ws))" unfolding zw[symmetric] butlast_snoc using dz by simp
    show "b \<notin> set (z # ws)" unfolding zw[symmetric] using dz by auto
    have "distinct (z # ws)" unfolding zw[symmetric] using dz by auto
    then show "z \<notin> set ws" by simp
  qed
  have nz: "?nx1 NBUF = z" using q unfolding l1 zw by simp
  have "path (?nx1(b := z, NBUF := b)) (?pv1(b := NBUF, z := b)) (NBUF # b # z # ws)"
    using path_insert[of ?nx1 ?pv1 NBUF z ws b] q e dz(4) unfolding l1 zw by simp
  moreover have "(\<lambda>c. b_next (bufs (to_front b s) c)) = ?nx1(b := z, NBUF := b)"
    "(\<lambda>c. b_prev (bufs (to_front b s) c)) = ?pv1(b := NBUF, z := b)"
    using to_front_links[OF nb _ _ dz(4) nz] d2 e(2) by simp_all
  moreover have "remove1 b xs = ys @ zs" using xs r by (simp add: remove1_append)
  moreover have "NBUF # (b # ys @ zs) @ [NBUF] = NBUF # b # z # ws" using zw by simp
  ultimately show ?thesis using dz xs r assms(2) unfolding ring_def by (auto simp: )
qed

lemma find_SomeD: "find P xs = Some x \<Longrightarrow> x \<in> set xs \<and> P x"
  by (induction xs) (auto split: if_splits)

lemma link_keeps:
  "b_flags (bufs (b_upd d (\<lambda>B. B\<lparr>b_next := v\<rparr>) s) c) = b_flags (bufs s c)" "b_flags (bufs (b_upd d (\<lambda>B. B\<lparr>b_prev := v\<rparr>) s) c) = b_flags (bufs s c)"
  "b_dev (bufs (b_upd d (\<lambda>B. B\<lparr>b_next := v\<rparr>) s) c) = b_dev (bufs s c)" "b_dev (bufs (b_upd d (\<lambda>B. B\<lparr>b_prev := v\<rparr>) s) c) = b_dev (bufs s c)"
  "b_blockno (bufs (b_upd d (\<lambda>B. B\<lparr>b_next := v\<rparr>) s) c) = b_blockno (bufs s c)" "b_blockno (bufs (b_upd d (\<lambda>B. B\<lparr>b_prev := v\<rparr>) s) c) = b_blockno (bufs s c)"
  "b_refcnt (bufs (b_upd d (\<lambda>B. B\<lparr>b_next := v\<rparr>) s) c) = b_refcnt (bufs s c)" "b_refcnt (bufs (b_upd d (\<lambda>B. B\<lparr>b_prev := v\<rparr>) s) c) = b_refcnt (bufs s c)"
  "b_data (bufs (b_upd d (\<lambda>B. B\<lparr>b_next := v\<rparr>) s) c) = b_data (bufs s c)" "b_data (bufs (b_upd d (\<lambda>B. B\<lparr>b_prev := v\<rparr>) s) c) = b_data (bufs s c)"
  by simp_all

lemma to_front_sel [simp]:
  "b_flags (bufs (to_front b s) c) = b_flags (bufs s c)" "b_dev (bufs (to_front b s) c) = b_dev (bufs s c)"
  "b_blockno (bufs (to_front b s) c) = b_blockno (bufs s c)" "b_refcnt (bufs (to_front b s) c) = b_refcnt (bufs s c)"
  "b_data (bufs (to_front b s) c) = b_data (bufs s c)" "idequeue (to_front b s) = idequeue s"
  "havedisk1 (to_front b s) = havedisk1 s" "ide_error (to_front b s) = ide_error s" "disk (to_front b s) = disk s"
  "slocks (to_front b s) = slocks s" "bio_state.more (to_front b s) = bio_state.more s"
  "low s0 (to_front b s) = low s0 s" "low (to_front b s) s0 = low s s0" "calm a p n F (to_front b s) = calm a p n F s" "proc_at (to_front b s) q = proc_at s q"
  unfolding to_front_def Let_def link_keeps by (simp_all only: b_upd_sel)

subsection \<open>The invariant of the cache\<close>

text \<open>
  A buffer that is not locked is unreferenced, and if it is valid and clean it agrees with the
  disk.  A locked buffer holds valid data, which its owner may be changing.
\<close>

definition unlocked :: "nat \<Rightarrow> 'a bio_state_scheme \<Rightarrow> bool" where
  "unlocked b s \<longleftrightarrow> sl_locked (slocks s (L_buf b)) = 0"

definition for_block :: "cuint \<Rightarrow> buf \<Rightarrow> bool" where
  "for_block bn B \<longleftrightarrow> b_dev B = 1 \<and> b_blockno B = bn"

definition buf_ok :: "'a bio_state_scheme \<Rightarrow> nat \<Rightarrow> bool" where
  "buf_ok s b \<longleftrightarrow>
     (b_flags (bufs s b) = 0 \<or> b_flags (bufs s b) = 2 \<or> b_flags (bufs s b) = 6) \<and>
     b_refcnt (bufs s b) = (if unlocked b s then 0 else 1) \<and>
     (\<not> unlocked b s \<longrightarrow> b_flags (bufs s b) \<noteq> 0 \<and> b_dev (bufs s b) = 1) \<and>
     (b_flags (bufs s b) = 6 \<longrightarrow> b_dev (bufs s b) = 1) \<and>
     (unlocked b s \<and> b_dev (bufs s b) = 1 \<and> b_flags (bufs s b) = 2 \<longrightarrow> b_data (bufs s b) = disk s 1 (b_blockno (bufs s b))) \<and>
     (b_dev (bufs s b) = 1 \<longrightarrow> b_blockno (bufs s b) < FSSIZE)"

definition bc_inv :: "'a bio_state_scheme \<Rightarrow> bool" where
  "bc_inv s \<longleftrightarrow> (\<exists>xs. ring (bufs s) xs) \<and> idequeue s = None \<and> \<not> ide_error s \<and> havedisk1 s \<noteq> 0 \<and>
     (\<forall>b<NBUF. \<forall>c<NBUF. \<forall>bn. for_block bn (bufs s b) \<and> for_block bn (bufs s c) \<longrightarrow> b = c) \<and>
     (\<forall>b<NBUF. buf_ok s b)"

text \<open>The contents of a block as the file system sees them: the valid buffer of the block, or else the disk.\<close>

definition view :: "'a bio_state_scheme \<Rightarrow> cuint \<Rightarrow> block" where
  "view s bn = (case find (\<lambda>b. for_block bn (bufs s b) \<and> b_flags (bufs s b) \<noteq> 0) [0..<NBUF] of
     Some b \<Rightarrow> b_data (bufs s b) | None \<Rightarrow> disk s 1 bn)"

lemma ring_cong:
  assumes "\<And>b. b_next (bs' b) = b_next (bs b)" and "\<And>b. b_prev (bs' b) = b_prev (bs b)"
  shows "ring bs' xs = ring bs xs"
  unfolding ring_def assms ..

lemma bc_invD:
  assumes "bc_inv s"
  obtains xs where "ring (bufs s) xs" "idequeue s = None" "\<not> ide_error s" "havedisk1 s \<noteq> 0"
    "\<And>b c bn. b < NBUF \<Longrightarrow> c < NBUF \<Longrightarrow> for_block bn (bufs s b) \<Longrightarrow> for_block bn (bufs s c) \<Longrightarrow> b = c"
    "\<And>b. b < NBUF \<Longrightarrow> buf_ok s b"
  using assms unfolding bc_inv_def by blast

lemma view_cached:
  assumes "bc_inv s" and "b < NBUF" and "for_block bn (bufs s b)" and "b_flags (bufs s b) \<noteq> 0"
  shows "view s bn = b_data (bufs s b)"
proof -
  obtain c where c: "find (\<lambda>b. for_block bn (bufs s b) \<and> b_flags (bufs s b) \<noteq> 0) [0..<NBUF] = Some c"
    using assms(2-4) by (cases "find (\<lambda>b. for_block bn (bufs s b) \<and> b_flags (bufs s b) \<noteq> 0) [0..<NBUF]") (auto simp: find_None_iff)
  then have "c < NBUF" "for_block bn (bufs s c)" by (auto simp: find_Some_iff)
  then have "c = b" using assms(1-3) unfolding bc_inv_def by blast
  then show ?thesis using c by (simp add: view_def)
qed

lemma view_disk:
  assumes "\<And>b. b < NBUF \<Longrightarrow> for_block bn (bufs s b) \<Longrightarrow> b_flags (bufs s b) = 0"
  shows "view s bn = disk s 1 bn"
proof -
  have "find (\<lambda>b. for_block bn (bufs s b) \<and> b_flags (bufs s b) \<noteq> 0) [0..<NBUF] = None"
    using assms by (auto simp: find_None_iff)
  then show ?thesis by (simp add: view_def)
qed

lemma view_clean:
  assumes "bc_inv s" and "\<And>b. b < NBUF \<Longrightarrow> for_block bn (bufs s b) \<Longrightarrow> unlocked b s \<and> b_flags (bufs s b) \<noteq> 6"
  shows "view s bn = disk s 1 bn"
proof (cases "\<exists>b<NBUF. for_block bn (bufs s b) \<and> b_flags (bufs s b) \<noteq> 0")
  case True
  then obtain b where b: "b < NBUF" "for_block bn (bufs s b)" "b_flags (bufs s b) \<noteq> 0" by blast
  then have "buf_ok s b" using assms(1) by (simp add: bc_inv_def)
  then show ?thesis using view_cached[OF assms(1) b] assms(2)[OF b(1,2)] b by (auto simp: buf_ok_def for_block_def)
next
  case False
  then show ?thesis using view_disk[of bn s] by blast
qed

text \<open>The view of a block depends on its buffer, or on the disk if it has none.\<close>

lemma view_cong:
  assumes "\<And>b. b < NBUF \<Longrightarrow> for_block bn (bufs s' b) \<and> b_flags (bufs s' b) \<noteq> 0 \<longleftrightarrow> for_block bn (bufs s b) \<and> b_flags (bufs s b) \<noteq> 0"
    and "\<And>b. b < NBUF \<Longrightarrow> for_block bn (bufs s b) \<Longrightarrow> b_flags (bufs s b) \<noteq> 0 \<Longrightarrow> b_data (bufs s' b) = b_data (bufs s b)"
    and "disk s' 1 bn = disk s 1 bn"
  shows "view s' bn = view s bn"
proof -
  have f: "find (\<lambda>b. for_block bn (bufs s' b) \<and> b_flags (bufs s' b) \<noteq> 0) [0..<NBUF] =
    find (\<lambda>b. for_block bn (bufs s b) \<and> b_flags (bufs s b) \<noteq> 0) [0..<NBUF]"
    using assms(1) by (intro find_cong) auto
  show ?thesis unfolding view_def f using assms(2,3)
    by (cases "find (\<lambda>b. for_block bn (bufs s b) \<and> b_flags (bufs s b) \<noteq> 0) [0..<NBUF]") (auto dest!: find_SomeD)
qed

subsection \<open>The operations\<close>

text \<open>The spin locks the cache takes are free.\<close>

definition bc_free :: "lockid set \<Rightarrow> bool" where
  "bc_free F \<longleftrightarrow> L_ide \<notin> F \<and> L_ptable \<notin> F \<and> L_bcache \<notin> F \<and> (\<forall>b. L_buf b \<notin> F)"

text \<open>The sleep lock of a buffer after it was taken.\<close>

abbreviation lock_buf :: "nat \<Rightarrow> cint \<Rightarrow> 'a bio_state_scheme \<Rightarrow> lockid \<Rightarrow> sleeplock" where
  "lock_buf b pid s \<equiv> (slocks s)(L_buf b := (slocks s (L_buf b))\<lparr>sl_locked := 1, sl_pid := pid\<rparr>)"

lemma bget_calm:
  assumes c: "calm a p n F s" "n < 70" "bc_free F" and i: "bc_inv s"
    and h: "\<And>b. b < NBUF \<Longrightarrow> for_block bn (bufs s b) \<Longrightarrow> unlocked b s"
    and r: "\<exists>b<NBUF. for_block bn (bufs s b) \<or> unlocked b s \<and> b_flags (bufs s b) \<noteq> 6"
  shows "\<exists>b s'. bget a 1 bn s = Inr (b, s') \<and> calm a p n F s' \<and> low s s' \<and> b < NBUF \<and> unlocked b s \<and>
    slocks s' = lock_buf b (p_pid (proc_at s p)) s \<and>
    bufs s' = (bufs s)(b := (if for_block bn (bufs s b) then (bufs s b)\<lparr>b_refcnt := 1\<rparr>
      else (bufs s b)\<lparr>b_dev := 1, b_blockno := bn, b_flags := 0, b_refcnt := 1\<rparr>)) \<and>
    (for_block bn (bufs s b) \<or> b_flags (bufs s b) \<noteq> 6 \<and> (\<forall>c<NBUF. \<not> for_block bn (bufs s c))) \<and>
    disk s' = disk s \<and> idequeue s' = None \<and> \<not> ide_error s' \<and> havedisk1 s' = havedisk1 s \<and> bio_state.more s' = bio_state.more s"
proof -
  from i obtain xs where x: "ring (bufs s) xs" and q: "idequeue s = None" "\<not> ide_error s" and ok: "\<And>b. b < NBUF \<Longrightarrow> buf_ok s b"
    by (rule bc_invD) blast
  have xset: "b \<in> set xs \<longleftrightarrow> b < NBUF" for b using x by (auto simp: ring_def)
  from acquire_calm[OF c(1), of L_bcache] c(2,3) obtain s1 where
    s1: "acquire a L_bcache s = Inr s1" "calm a p (Suc n) (insert L_bcache F) s1" "machine.more s1 = machine.more s"
    by (auto simp: bc_free_def)
  note m1 = machine_bio[OF s1(3)]
  have x1: "ring (bufs s1) xs" using x m1 by simp
  let ?hit = "\<lambda>B. b_dev B = 1 \<and> b_blockno B = bn" and ?spare = "\<lambda>B. b_refcnt B = 0 \<and> b_flags B AND B_DIRTY = 0"
  have rest: "\<exists>s'. bindR (release a L_bcache (b_upd b f s1)) (\<lambda>s2. bindR (acquiresleep a (L_buf b) s2) (\<lambda>s3. Inr (b, s3))) = Inr (b, s') \<and>
    calm a p n F s' \<and> low s s' \<and> slocks s' = lock_buf b (p_pid (proc_at s p)) s \<and> bufs s' = (bufs s)(b := f (bufs s b)) \<and>
    disk s' = disk s \<and> idequeue s' = None \<and> \<not> ide_error s' \<and> havedisk1 s' = havedisk1 s \<and> bio_state.more s' = bio_state.more s"
    if u: "unlocked b s" for b f
  proof -
    have c2: "calm a p (Suc n) (insert L_bcache F) (b_upd b f s1)" using s1(2) by simp
    have fin: "insert L_bcache F - {L_bcache} = F" using c(3) by (auto simp: bc_free_def)
    from release_calm[OF c2, of L_bcache] c(2) obtain s2 where
      s2: "release a L_bcache (b_upd b f s1) = Inr s2" "calm a p n F s2" "machine.more s2 = machine.more (b_upd b f s1)" by (auto simp: fin)
    note m2 = machine_bio[OF s2(3)]
    have u2: "sl_locked (slocks s2 (L_buf b)) = 0" using u m1 m2 by (simp add: unlocked_def)
    from acquiresleep_calm[OF s2(2) _ _ u2] c(2,3) obtain s3 where
      s3: "acquiresleep a (L_buf b) s2 = Inr s3" "calm a p n F s3" "low s2 s3" "slocks s3 = lock_buf b (p_pid (proc_at s2 p)) s2"
        "sl_state.more s3 = sl_state.more s2" by (auto simp: bc_free_def)
    note b3 = bio_more_eq[OF s3(5)]
    have "low s1 s2" using m2(10) by simp
    then have "low s s3" using m1(10) s3(3) low_trans by blast
    then show ?thesis using s2(1) s3 b3 m2 m1 q by (intro exI[of _ s3]) simp
  qed
  show ?thesis
  proof (cases "find (\<lambda>b. ?hit (bufs s1 b)) xs")
    case (Some b)
    then have b: "b < NBUF" "for_block bn (bufs s b)" using xset m1(2) find_SomeD[OF Some] by (auto simp: for_block_def)
    have u: "unlocked b s" using h[OF b] .
    have rc: "b_refcnt (bufs s b) = 0" using ok[OF b(1)] u by (simp add: buf_ok_def)
    from rest[OF u, of "\<lambda>B. B\<lparr>b_refcnt := b_refcnt B + 1\<rparr>"] show ?thesis
      using b u rc Some s1(1) ring_scan(1)[OF x1, of ?hit] by (intro exI[of _ b]) (auto simp: bget_def)
  next
    case None
    then have no: "\<not> for_block bn (bufs s c)" if "c < NBUF" for c
      using that xset m1 by (auto simp: find_None_iff for_block_def)
    then obtain b0 where "b0 < NBUF" "unlocked b0 s" "b_flags (bufs s b0) \<noteq> 6" using r by blast
    then have "b0 \<in> set (rev xs)" "?spare (bufs s1 b0)" using xset m1 ok[of b0] by (auto simp: buf_ok_def flag_defs)
    then obtain b where f: "find (\<lambda>b. ?spare (bufs s1 b)) (rev xs) = Some b"
      by (cases "find (\<lambda>b. ?spare (bufs s1 b)) (rev xs)") (auto simp: find_None_iff)
    then have b: "b \<in> set (rev xs)" "?spare (bufs s b)"
      using m1(2) find_SomeD[OF f] by auto
    have bn: "b < NBUF" using b(1) xset by simp
    have u: "unlocked b s" "b_flags (bufs s b) \<noteq> 6"
      using b(2) ok[OF bn] by (auto simp: buf_ok_def flag_defs split: if_splits)
    from rest[OF u(1), of "\<lambda>B. B\<lparr>b_dev := 1, b_blockno := bn, b_flags := 0, b_refcnt := 1\<rparr>"] show ?thesis
      using bn u no[OF bn] no f None s1(1) ring_scan(1)[OF x1, of ?hit] ring_scan(2)[OF x1, of ?spare]
      by (intro exI[of _ b]) (auto simp: bget_def)
  qed
qed

text \<open>
  After a read of a block the buffer is locked, has the contents of the block, and no block's
  contents have changed, on the disk or as seen through the cache.
\<close>

definition holds_buf :: "nat \<Rightarrow> nat \<Rightarrow> cuint \<Rightarrow> 'a bio_state_scheme \<Rightarrow> bool" where
  "holds_buf p b bn s \<longleftrightarrow> b < NBUF \<and> sl_locked (slocks s (L_buf b)) \<noteq> 0 \<and> sl_pid (slocks s (L_buf b)) = p_pid (proc_at s p) \<and>
     for_block bn (bufs s b)"

text \<open>A change to the buffer of one block, and to that block on the disk.\<close>

lemma bc_inv_one:
  assumes "bc_inv s" and "b < NBUF" and "for_block bn (bufs s' b)"
    and oth: "\<And>c. c \<noteq> b \<Longrightarrow> bufs s' c = bufs s c" "\<And>c. c \<noteq> b \<Longrightarrow> slocks s' (L_buf c) = slocks s (L_buf c)"
    and no: "\<And>c. c < NBUF \<Longrightarrow> c \<noteq> b \<Longrightarrow> \<not> for_block bn (bufs s c)"
    and lk: "b_next (bufs s' b) = b_next (bufs s b)" "b_prev (bufs s' b) = b_prev (bufs s b)"
    and dk: "\<And>x. x \<noteq> bn \<Longrightarrow> disk s' 1 x = disk s 1 x" and ok: "buf_ok s' b"
    and fr: "idequeue s' = None" "\<not> ide_error s'" "havedisk1 s' \<noteq> 0"
  shows "bc_inv s'" and "x \<noteq> bn \<Longrightarrow> \<not> (for_block x (bufs s b) \<and> b_flags (bufs s b) = 6) \<Longrightarrow> unlocked b s \<or> for_block bn (bufs s b) \<Longrightarrow> view s' x = view s x"
proof -
  have lks: "b_next (bufs s' c) = b_next (bufs s c)" "b_prev (bufs s' c) = b_prev (bufs s c)" for c
    using lk oth by (cases "c = b"; simp)+
  have okc: "buf_ok s' c" if "c < NBUF" for c
  proof (cases "c = b")
    case False
    then have "buf_ok s c" "\<not> for_block bn (bufs s c)" using assms(1) that no by (auto simp: bc_inv_def)
    then show ?thesis using oth[OF False] dk by (auto simp: buf_ok_def unlocked_def for_block_def)
  qed (use ok in simp)
  have un: "c = d" if "c < NBUF" "d < NBUF" "for_block x (bufs s' c)" "for_block x (bufs s' d)" for c d x
  proof (cases "c = b \<or> d = b")
    case True
    then have "x = bn" using that assms(3) by (auto simp: for_block_def)
    then show ?thesis using True that no oth by metis
  next
    case False
    then show ?thesis using that oth assms(1) unfolding bc_inv_def by metis
  qed
  show inv: "bc_inv s'" unfolding bc_inv_def
    using assms(1) fr un okc ring_cong[of "bufs s'" "bufs s", OF lks] by (auto simp: bc_inv_def)
  assume x: "x \<noteq> bn" "\<not> (for_block x (bufs s b) \<and> b_flags (bufs s b) = 6)" "unlocked b s \<or> for_block bn (bufs s b)"
  show "view s' x = view s x"
  proof (cases "for_block x (bufs s b) \<and> b_flags (bufs s b) \<noteq> 0")
    case True
    then have "b_data (bufs s b) = disk s 1 x"
      using x assms(1,2) by (auto simp: bc_inv_def buf_ok_def for_block_def)
    moreover have "view s x = b_data (bufs s b)" using view_cached[OF assms(1,2)] True by blast
    moreover have "view s' x = disk s' 1 x"
    proof (rule view_disk)
      fix c assume "c < NBUF" "for_block x (bufs s' c)"
      then show "b_flags (bufs s' c) = 0" using True x(1) oth assms(1-3) unfolding bc_inv_def for_block_def by metis
    qed
    ultimately show ?thesis using dk[OF x(1)] by simp
  next
    case False
    show ?thesis
    proof (rule view_cong)
      fix c assume "c < NBUF"
      show "for_block x (bufs s' c) \<and> b_flags (bufs s' c) \<noteq> 0 \<longleftrightarrow> for_block x (bufs s c) \<and> b_flags (bufs s c) \<noteq> 0"
        using False oth assms(3) x(1) by (cases "c = b") (auto simp: for_block_def)
      show "for_block x (bufs s c) \<Longrightarrow> b_flags (bufs s c) \<noteq> 0 \<Longrightarrow> b_data (bufs s' c) = b_data (bufs s c)"
        using False oth by (cases "c = b") auto
    qed (use dk x(1) in simp)
  qed
qed

lemma bread_effect:
  assumes c: "calm a p n F s" "n < 70" "bc_free F" and i: "bc_inv s" and bn: "bn < FSSIZE"
    and h: "\<And>b. b < NBUF \<Longrightarrow> for_block bn (bufs s b) \<Longrightarrow> unlocked b s"
    and r: "\<exists>b<NBUF. for_block bn (bufs s b) \<or> unlocked b s \<and> b_flags (bufs s b) \<noteq> 6"
  shows "\<exists>b s'. let hit = for_block bn (bufs s b) \<and> b_flags (bufs s b) \<noteq> 0 in
    bread a 1 bn s = Inr (b, s') \<and> calm a p n F s' \<and> low s s' \<and> b < NBUF \<and> unlocked b s \<and>
    slocks s' = lock_buf b (p_pid (proc_at s p)) s \<and> (\<forall>c. c \<noteq> b \<longrightarrow> bufs s' c = bufs s c) \<and>
    b_next (bufs s' b) = b_next (bufs s b) \<and> b_prev (bufs s' b) = b_prev (bufs s b) \<and> b_refcnt (bufs s' b) = 1 \<and>
    for_block bn (bufs s' b) \<and> b_flags (bufs s' b) = (if hit then b_flags (bufs s b) else 2) \<and>
    b_data (bufs s' b) = (if hit then b_data (bufs s b) else disk s 1 bn) \<and>
    (for_block bn (bufs s b) \<or> b_flags (bufs s b) \<noteq> 6 \<and> (\<forall>c<NBUF. \<not> for_block bn (bufs s c))) \<and>
    disk s' = disk s \<and> idequeue s' = None \<and> \<not> ide_error s' \<and> havedisk1 s' \<noteq> 0 \<and> bio_state.more s' = bio_state.more s"
proof -
  from bget_calm[OF c i h r] obtain b s1 where
    s1: "bget a 1 bn s = Inr (b, s1)" "calm a p n F s1" "low s s1" "b < NBUF" "unlocked b s"
      "slocks s1 = lock_buf b (p_pid (proc_at s p)) s"
      "bufs s1 = (bufs s)(b := (if for_block bn (bufs s b) then (bufs s b)\<lparr>b_refcnt := 1\<rparr>
        else (bufs s b)\<lparr>b_dev := 1, b_blockno := bn, b_flags := 0, b_refcnt := 1\<rparr>))"
      "for_block bn (bufs s b) \<or> b_flags (bufs s b) \<noteq> 6 \<and> (\<forall>c<NBUF. \<not> for_block bn (bufs s c))"
      "disk s1 = disk s" "idequeue s1 = None" "\<not> ide_error s1" "havedisk1 s1 = havedisk1 s" "bio_state.more s1 = bio_state.more s"
    by blast
  have hd: "havedisk1 s \<noteq> 0" and ok: "buf_ok s b" using i s1(4) by (simp_all add: bc_inv_def)
  have fb: "for_block bn (bufs s1 b)" using s1(7) by (simp add: for_block_def)
  let ?hit = "for_block bn (bufs s b) \<and> b_flags (bufs s b) \<noteq> 0"
  have f1: "b_flags (bufs s1 b) = (if for_block bn (bufs s b) then b_flags (bufs s b) else 0)" using s1(7) by simp
  have fl: "b_flags (bufs s1 b) AND B_VALID = 0 \<longleftrightarrow> \<not> ?hit"
    using f1 ok by (auto simp: buf_ok_def flag_defs)
  show ?thesis
  proof (cases ?hit)
    case True
    then show ?thesis using fl s1 fb hd by (intro exI[of _ b] exI[of _ s1]) (auto simp: bread_def Let_def)
  next
    case False
    have l: "sl_locked (slocks s1 (L_buf b)) \<noteq> 0" "sl_pid (slocks s1 (L_buf b)) = p_pid (proc_at s1 p)"
      using s1(6) low_pid[OF s1(3)] by simp_all
    have z: "b_flags (bufs s1 b) = 0" using f1 False by auto
    have F: "L_ide \<notin> F" "L_ptable \<notin> F" "L_buf b \<notin> F" using c(3) by (simp_all add: bc_free_def)
    have d: "b_dev (bufs s1 b) = 1" "b_blockno (bufs s1 b) = bn" "havedisk1 s1 \<noteq> 0" using fb hd s1(12) by (simp_all add: for_block_def)
    from iderw_calm[OF s1(2) c(2) F l s1(10,11) d(3,1,2) bn] z obtain s2 where
      s2: "iderw a b s1 = Inr s2" "calm a p n F s2" "low s1 s2" "slocks s2 = slocks s1"
      "bufs s2 = (bufs s1)(b := (bufs s1 b)\<lparr>b_qnext := None, b_data := disk s1 1 bn, b_flags := 2\<rparr>)"
      "disk s2 = disk s1" "idequeue s2 = None" "ide_error s2 = ide_error s1" "havedisk1 s2 = havedisk1 s1"
      "bio_state.more s2 = bio_state.more s1" by auto
    have "bread a 1 bn s = Inr (b, s2)" using s1(1) s2(1) fl False by (simp add: bread_def)
    then show ?thesis using False s2 s1(4-13) low_trans[OF s1(3) s2(3)] fb hd
      by (intro exI[of _ b] exI[of _ s2]) (auto simp: for_block_def Let_def)
  qed
qed

lemma bread_calm:
  assumes c: "calm a p n F s" "n < 70" "bc_free F" and i: "bc_inv s" and bn: "bn < FSSIZE"
    and h: "\<And>b. b < NBUF \<Longrightarrow> for_block bn (bufs s b) \<Longrightarrow> unlocked b s"
    and r: "\<exists>b<NBUF. for_block bn (bufs s b) \<or> unlocked b s \<and> b_flags (bufs s b) \<noteq> 6"
  shows "\<exists>b s'. bread a 1 bn s = Inr (b, s') \<and> calm a p n F s' \<and> low s s' \<and> bc_inv s' \<and> holds_buf p b bn s' \<and>
    unlocked b s \<and> slocks s' = lock_buf b (p_pid (proc_at s p)) s \<and>
    b_data (bufs s' b) = view s bn \<and> view s' = view s \<and> disk s' = disk s \<and> (\<forall>c. c \<noteq> b \<longrightarrow> bufs s' c = bufs s c) \<and>
    (if for_block bn (bufs s b) \<and> b_flags (bufs s b) \<noteq> 0 then b_flags (bufs s' b) = b_flags (bufs s b)
     else b_flags (bufs s' b) = 2 \<and> b_flags (bufs s b) \<noteq> 6) \<and>
    bio_state.more s' = bio_state.more s"
proof -
  from bread_effect[OF c i bn h r, unfolded Let_def] obtain b s2 where
    s2: "bread a 1 bn s = Inr (b, s2)" "calm a p n F s2" "low s s2" "b < NBUF" "unlocked b s" "slocks s2 = lock_buf b (p_pid (proc_at s p)) s"
    and oth: "\<And>c. c \<noteq> b \<Longrightarrow> bufs s2 c = bufs s c" and bb: "b_next (bufs s2 b) = b_next (bufs s b)"
    "b_prev (bufs s2 b) = b_prev (bufs s b)" "b_refcnt (bufs s2 b) = 1" "for_block bn (bufs s2 b)"
    "b_flags (bufs s2 b) = (if for_block bn (bufs s b) \<and> b_flags (bufs s b) \<noteq> 0 then b_flags (bufs s b) else 2)"
    "b_data (bufs s2 b) = (if for_block bn (bufs s b) \<and> b_flags (bufs s b) \<noteq> 0 then b_data (bufs s b) else disk s 1 bn)"
    and or: "for_block bn (bufs s b) \<or> b_flags (bufs s b) \<noteq> 6 \<and> (\<forall>c<NBUF. \<not> for_block bn (bufs s c))"
    and fr: "disk s2 = disk s" "idequeue s2 = None" "\<not> ide_error s2" "havedisk1 s2 \<noteq> 0" "bio_state.more s2 = bio_state.more s" by blast
  have ok: "buf_ok s b" using i s2(4) by (simp add: bc_inv_def)
  let ?hit = "for_block bn (bufs s b) \<and> b_flags (bufs s b) \<noteq> 0"
  have no: "\<not> for_block bn (bufs s c)" if "c < NBUF" "c \<noteq> b" for c using or that i s2(4) unfolding bc_inv_def by blast
  have nl: "\<not> unlocked b s2" using s2(6) by (simp add: unlocked_def)
  have ok2: "buf_ok s2 b" using nl bb ok bn by (auto simp: buf_ok_def for_block_def)
  note one = bc_inv_one[OF i s2(4) bb(4) oth _ no bb(1,2) _ ok2 fr(2-4)]
  have inv: "bc_inv s2" by (rule one) (use s2(6) fr(1) in simp_all)
  have vx: "view s2 x = view s x" if "x \<noteq> bn" for x
    by (rule one) (use s2(5,6) or fr(1) that in \<open>auto simp: for_block_def\<close>)
  have v2: "view s2 bn = b_data (bufs s2 b)" using view_cached[OF inv s2(4) bb(4)] bb(5) by auto
  have v: "view s bn = b_data (bufs s2 b)"
  proof (cases ?hit)
    case True
    then show ?thesis using view_cached[OF i s2(4)] bb(6) by simp
  next
    case False
    then show ?thesis using view_disk[of bn s] no bb(6) by (metis)
  qed
  have "view s2 = view s" using v v2 vx by (metis ext)
  moreover have "holds_buf p b bn s2"
    using s2(4,6) bb(4) low_pid[OF s2(3)] by (simp add: holds_buf_def)
  ultimately show ?thesis using s2(1-3,5,6) inv v oth fr(1,5) bb(5) or by (intro exI[of _ b] exI[of _ s2]) auto
qed

text \<open>
  What a client has to know of the cache: which blocks are locked, and which are dirty, that is
  changed in the cache and pinned there until they are written.
\<close>

definition locked_blocks :: "'a bio_state_scheme \<Rightarrow> cuint set" where
  "locked_blocks s = {bn. \<exists>b<NBUF. for_block bn (bufs s b) \<and> \<not> unlocked b s}"

definition dirty :: "'a bio_state_scheme \<Rightarrow> cuint set" where
  "dirty s = {bn. \<exists>b<NBUF. for_block bn (bufs s b) \<and> b_flags (bufs s b) = 6}"

lemma locked_blocks_iff: "bc_inv s \<Longrightarrow> b < NBUF \<Longrightarrow> for_block bn (bufs s b) \<Longrightarrow> bn \<in> locked_blocks s \<longleftrightarrow> \<not> unlocked b s"
  unfolding locked_blocks_def bc_inv_def by blast

lemma dirty_iff: "bc_inv s \<Longrightarrow> b < NBUF \<Longrightarrow> for_block bn (bufs s b) \<Longrightarrow> bn \<in> dirty s \<longleftrightarrow> b_flags (bufs s b) = 6"
  unfolding dirty_def bc_inv_def by blast

lemma spare_buf:
  assumes "bc_inv s" and "card (locked_blocks s \<union> dirty s) < NBUF"
  shows "\<exists>b<NBUF. unlocked b s \<and> b_flags (bufs s b) \<noteq> 6"
proof (rule ccontr)
  assume "\<not> ?thesis"
  then have pin: "\<not> unlocked b s \<or> b_flags (bufs s b) = 6" if "b < NBUF" for b using that by blast
  let ?f = "\<lambda>b. b_blockno (bufs s b)"
  have fb: "for_block (?f b) (bufs s b)" if "b < NBUF" for b
    using pin[OF that] assms(1) that by (auto simp: bc_inv_def buf_ok_def for_block_def)
  have inj: "inj_on ?f {..<NBUF}" using fb assms(1) unfolding bc_inv_def inj_on_def by (metis lessThan_iff)
  have sub: "?f ` {..<NBUF} \<subseteq> locked_blocks s \<union> dirty s" using fb pin unfolding locked_blocks_def dirty_def by blast
  have "finite (locked_blocks s \<union> dirty s)" by (rule finite_subset[of _ UNIV]) simp_all
  from card_mono[OF this sub] show False using card_image[OF inj] assms(2) by simp
qed

lemma holds_view:
  assumes "bc_inv s" and "holds_buf p b bn s"
  shows "b_data (bufs s b) = view s bn" and "bn \<in> locked_blocks s" and "bn < FSSIZE"
proof -
  have b: "b < NBUF" "for_block bn (bufs s b)" "\<not> unlocked b s" "buf_ok s b"
    using assms by (auto simp: holds_buf_def unlocked_def bc_inv_def)
  show "b_data (bufs s b) = view s bn" using view_cached[OF assms(1) b(1,2)] b(3,4) by (simp add: buf_ok_def)
  show "bn \<in> locked_blocks s" using locked_blocks_iff[OF assms(1) b(1,2)] b(3) by simp
  show "bn < FSSIZE" using b(2,4) by (simp add: buf_ok_def for_block_def)
qed

lemma bread_spec:
  assumes c: "calm a p n F s" "n < 70" "bc_free F" and i: "bc_inv s" and bn: "bn < FSSIZE" "bn \<notin> locked_blocks s"
    and r: "card (locked_blocks s \<union> dirty s) < NBUF \<or> bn \<in> dirty s"
  shows "\<exists>b s'. bread a 1 bn s = Inr (b, s') \<and> calm a p n F s' \<and> low s s' \<and> bc_inv s' \<and> holds_buf p b bn s' \<and>
    (\<forall>c x. holds_buf p c x s \<longrightarrow> holds_buf p c x s') \<and> view s' = view s \<and> disk s' = disk s \<and>
    locked_blocks s' = insert bn (locked_blocks s) \<and> dirty s' = dirty s \<and> bio_state.more s' = bio_state.more s"
proof -
  have h: "unlocked b s" if "b < NBUF" "for_block bn (bufs s b)" for b using locked_blocks_iff[OF i that] bn(2) by simp
  have r': "\<exists>b<NBUF. for_block bn (bufs s b) \<or> unlocked b s \<and> b_flags (bufs s b) \<noteq> 6"
    using r spare_buf[OF i] unfolding dirty_def by blast
  from bread_calm[OF c i bn(1) h r'] obtain b s' where
    s': "bread a 1 bn s = Inr (b, s')" "calm a p n F s'" "low s s'" "bc_inv s'" "holds_buf p b bn s'" "unlocked b s"
      "slocks s' = lock_buf b (p_pid (proc_at s p)) s" "view s' = view s" "disk s' = disk s" "\<And>c. c \<noteq> b \<Longrightarrow> bufs s' c = bufs s c"
      "if for_block bn (bufs s b) \<and> b_flags (bufs s b) \<noteq> 0 then b_flags (bufs s' b) = b_flags (bufs s b)
       else b_flags (bufs s' b) = 2 \<and> b_flags (bufs s b) \<noteq> 6"
      "bio_state.more s' = bio_state.more s" by blast
  have b: "b < NBUF" "for_block bn (bufs s' b)" using s'(5) by (simp_all add: holds_buf_def)
  have u: "unlocked c s' \<longleftrightarrow> c \<noteq> b \<and> unlocked c s" for c using s'(7) by (auto simp: unlocked_def)
  have "locked_blocks s' = insert bn (locked_blocks s)"
  proof -
    have "x \<in> locked_blocks s' \<longleftrightarrow> x = bn \<or> x \<in> locked_blocks s" for x
      using b s'(6,10) unfolding locked_blocks_def u by (auto simp: for_block_def) (metis+)
    then show ?thesis by auto
  qed
  moreover have "dirty s' = dirty s"
  proof -
    have "for_block x (bufs s' c) \<and> b_flags (bufs s' c) = 6 \<longleftrightarrow> for_block x (bufs s c) \<and> b_flags (bufs s c) = 6" for x c
      using b(2) s'(10,11) by (cases "c = b") (auto simp: for_block_def split: if_splits)
    then show ?thesis by (simp add: dirty_def)
  qed
  moreover have "holds_buf p c x s'" if "holds_buf p c x s" for c x
  proof -
    have "c \<noteq> b" using that s'(6) by (auto simp: holds_buf_def unlocked_def)
    then show ?thesis using that s'(7,10) low_pid[OF s'(3)] by (simp add: holds_buf_def)
  qed
  ultimately show ?thesis using s' by (intro exI[of _ b] exI[of _ s']) blast
qed

text \<open>The owner of a buffer changes its contents.\<close>

definition put_data :: "nat \<Rightarrow> block \<Rightarrow> 'a bio_state_scheme \<Rightarrow> 'a bio_state_scheme" where
  "put_data b d = b_upd b (\<lambda>B. B\<lparr>b_data := d\<rparr>)"

lemma change_spec:
  assumes i: "bc_inv s" and h: "holds_buf p b bn s"
    and s': "bufs s' = (bufs s)(b := B)" "slocks s' = slocks s" "idequeue s' = None" "\<not> ide_error s'" "havedisk1 s' = havedisk1 s"
      "\<And>x. p_pid (proc_at s' x) = p_pid (proc_at s x)"
    and B: "b_dev B = b_dev (bufs s b)" "b_blockno B = b_blockno (bufs s b)" "b_next B = b_next (bufs s b)" "b_prev B = b_prev (bufs s b)"
      "b_refcnt B = b_refcnt (bufs s b)" "b_flags B = 2 \<or> b_flags B = 6"
    and d: "\<And>x. x \<noteq> bn \<Longrightarrow> disk s' 1 x = disk s 1 x"
  shows "bc_inv s' \<and> (\<forall>c x. holds_buf p c x s \<longrightarrow> holds_buf p c x s') \<and> view s' = (view s)(bn := b_data B) \<and> locked_blocks s' = locked_blocks s \<and>
    dirty s' = (if b_flags B = 6 then insert bn (dirty s) else dirty s - {bn})"
proof -
  have b: "b < NBUF" "for_block bn (bufs s b)" "\<not> unlocked b s" "buf_ok s b"
    using i h by (auto simp: holds_buf_def unlocked_def bc_inv_def)
  have fb: "for_block x (bufs s' c) \<longleftrightarrow> for_block x (bufs s c)" for x c
    using s'(1) B(1,2) by (auto simp: for_block_def)
  have u: "unlocked c s' = unlocked c s" for c using s'(2) by (simp add: unlocked_def)
  have no: "\<not> for_block bn (bufs s c)" if "c < NBUF" "c \<noteq> b" for c using that b i unfolding bc_inv_def by blast
  have ok: "buf_ok s' b" using b(2-4) B s'(1) by (auto simp: buf_ok_def u for_block_def)
  have hd: "havedisk1 s' \<noteq> 0" using i s'(5) by (simp add: bc_inv_def)
  have fB: "for_block bn (bufs s' b)" using fb b(2) by blast
  have e: "\<And>c. c \<noteq> b \<Longrightarrow> bufs s' c = bufs s c" "\<And>c. c \<noteq> b \<Longrightarrow> slocks s' (L_buf c) = slocks s (L_buf c)"
    "b_next (bufs s' b) = b_next (bufs s b)" "b_prev (bufs s' b) = b_prev (bufs s b)" using s'(1,2) B(3,4) by simp_all
  note one = bc_inv_one[OF i b(1) fB e(1,2) no e(3,4) d ok s'(3,4) hd]
  have inv: "bc_inv s'" by (rule one)
  have vx: "view s' x = view s x" if "x \<noteq> bn" for x by (rule one) (use b(2) that in \<open>auto simp: for_block_def\<close>)
  have "view s' bn = b_data B" using view_cached[OF inv b(1) fB] B(6) s'(1) by auto
  then have "view s' = (view s)(bn := b_data B)" using vx by (simp add: fun_eq_iff)
  moreover have "locked_blocks s' = locked_blocks s" by (simp add: locked_blocks_def fb u)
  moreover have "dirty s' = (if b_flags B = 6 then insert bn (dirty s) else dirty s - {bn})"
  proof -
    have dx: "x \<in> dirty s' \<longleftrightarrow> (if x = bn then b_flags B = 6 else x \<in> dirty s)" for x
    proof (cases "x = bn")
      case True
      then show ?thesis using dirty_iff[OF inv b(1) fB] s'(1) by simp
    next
      case False
      have "for_block x (bufs s c) \<Longrightarrow> bufs s' c = bufs s c" for c using False s'(1) b(2) by (auto simp: for_block_def)
      then show ?thesis using False unfolding dirty_def fb by auto
    qed
    show ?thesis by (rule set_eqI) (simp add: dx)
  qed
  moreover have "holds_buf p c x s'" if "holds_buf p c x s" for c x
    using that s'(2,6) fb by (simp add: holds_buf_def)
  ultimately show ?thesis using inv by blast
qed

lemma put_data_spec:
  assumes i: "bc_inv s" and h: "holds_buf p b bn s"
  shows "bc_inv (put_data b d s) \<and> (\<forall>c x. holds_buf p c x s \<longrightarrow> holds_buf p c x (put_data b d s)) \<and>
    view (put_data b d s) = (view s)(bn := d) \<and> locked_blocks (put_data b d s) = locked_blocks s \<and> dirty (put_data b d s) = dirty s"
proof -
  have b: "b < NBUF" "for_block bn (bufs s b)" "\<not> unlocked b s" "buf_ok s b"
    using i h by (auto simp: holds_buf_def unlocked_def bc_inv_def)
  let ?B = "(bufs s b)\<lparr>b_data := d\<rparr>"
  have f: "b_flags (bufs s b) = 2 \<or> b_flags (bufs s b) = 6" using b(3,4) by (auto simp: buf_ok_def)
  have "(if b_flags ?B = 6 then insert bn (dirty s) else dirty s - {bn}) = dirty s"
    using dirty_iff[OF i b(1,2)] f by auto
  moreover have q: "idequeue s = None" "\<not> ide_error s" using i by (simp_all add: bc_inv_def)
  then have "bc_inv (put_data b d s) \<and> (\<forall>c x. holds_buf p c x s \<longrightarrow> holds_buf p c x (put_data b d s)) \<and>
    view (put_data b d s) = (view s)(bn := b_data ?B) \<and> locked_blocks (put_data b d s) = locked_blocks s \<and>
    dirty (put_data b d s) = (if b_flags ?B = 6 then insert bn (dirty s) else dirty s - {bn})"
    by (intro change_spec[OF i h]) (use f in \<open>simp_all add: put_data_def\<close>)
  ultimately show ?thesis by simp
qed

lemma bwrite_spec:
  assumes c: "calm a p n F s" "n < 70" "bc_free F" and i: "bc_inv s" and h: "holds_buf p b bn s"
  shows "\<exists>s'. bwrite a b s = Inr s' \<and> calm a p n F s' \<and> low s s' \<and> bc_inv s' \<and>
    (\<forall>c x. holds_buf p c x s \<longrightarrow> holds_buf p c x s') \<and> view s' = view s \<and> disk s' = (disk s)(1 := (disk s 1)(bn := view s bn)) \<and>
    locked_blocks s' = locked_blocks s \<and> dirty s' = dirty s - {bn} \<and> bio_state.more s' = bio_state.more s"
proof -
  have b: "b < NBUF" "for_block bn (bufs s b)" "buf_ok s b" and l: "sl_locked (slocks s (L_buf b)) \<noteq> 0" "sl_pid (slocks s (L_buf b)) = p_pid (proc_at s p)"
    using i h by (auto simp: holds_buf_def bc_inv_def)
  have F: "L_ide \<notin> F" "L_ptable \<notin> F" "L_buf b \<notin> F" using c(3) by (simp_all add: bc_free_def)
  have q: "idequeue s = None" "\<not> ide_error s" "havedisk1 s \<noteq> 0" using i by (simp_all add: bc_inv_def)
  from holdingsleep_calm[OF c(1) _ F(3)] c(2) l obtain s1 where
    s1: "holdingsleep a (L_buf b) s = Inr (True, s1)" "calm a p n F s1" "machine.more s1 = machine.more s" by auto
  note m1 = machine_bio[OF s1(3)]
  let ?s2 = "b_upd b (\<lambda>B. B\<lparr>b_flags := b_flags B OR B_DIRTY\<rparr>) s1"
  have f: "b_flags (bufs s b) OR B_DIRTY = 6" using b(3) l(1) by (auto simp: buf_ok_def unlocked_def flag_defs)
  have c2: "calm a p n F ?s2" using s1(2) by simp
  have pre: "sl_locked (slocks ?s2 (L_buf b)) \<noteq> 0" "sl_pid (slocks ?s2 (L_buf b)) = p_pid (proc_at ?s2 p)"
    "idequeue ?s2 = None" "\<not> ide_error ?s2" "havedisk1 ?s2 \<noteq> 0" "b_dev (bufs ?s2 b) = 1" "b_blockno (bufs ?s2 b) = bn"
    "b_flags (bufs ?s2 b) = 0 \<or> b_flags (bufs ?s2 b) = 6"
    using l m1 q b f by (simp_all add: for_block_def)
  from iderw_calm[OF c2 c(2) F pre(1-7) holds_view(3)[OF i h] pre(8)] obtain s' where
    s': "iderw a b ?s2 = Inr s'" "calm a p n F s'" "low ?s2 s'" "slocks s' = slocks s"
    "bufs s' = (bufs s)(b := (bufs s b)\<lparr>b_flags := 6, b_qnext := None, b_data := b_data (bufs s b), b_flags := 2\<rparr>)"
    "disk s' = (disk s)(1 := (disk s 1)(bn := b_data (bufs s b)))"
    "idequeue s' = None" "ide_error s' = ide_error s" "havedisk1 s' = havedisk1 s" "bio_state.more s' = bio_state.more s"
    using f m1 by auto
  have low: "low s s'" using s'(3) m1(10) low_trans[of s s1] by simp
  have "bc_inv s' \<and> (\<forall>c x. holds_buf p c x s \<longrightarrow> holds_buf p c x s') \<and> view s' = (view s)(bn := b_data (bufs s b)) \<and> locked_blocks s' = locked_blocks s \<and>
    dirty s' = dirty s - {bn}"
    using change_spec[OF i h s'(5,4,7)] s'(6,8,9) q low_pid[OF low] by simp
  then show ?thesis using s' s1(1) low holds_view(1)[OF i h] by (intro exI[of _ s']) (simp add: bwrite_def)
qed

lemma to_front_bufs:
  assumes "bufs s = bufs t"
  shows "bufs (to_front b s) = bufs (to_front b t)"
  using assms by (simp add: to_front_def Let_def)

lemma brelse_effect:
  assumes c: "calm a p n F s" "n < 70" "bc_free F" and i: "bc_inv s" and h: "holds_buf p b bn s"
  shows "\<exists>s'. brelse a b s = Inr s' \<and> calm a p n F s' \<and> low s s' \<and>
    slocks s' = (slocks s)(L_buf b := (slocks s (L_buf b))\<lparr>sl_locked := 0, sl_pid := 0\<rparr>) \<and>
    bufs s' = bufs (to_front b (b_upd b (\<lambda>B. B\<lparr>b_refcnt := 0\<rparr>) s)) \<and> disk s' = disk s \<and> idequeue s' = idequeue s \<and>
    ide_error s' = ide_error s \<and> havedisk1 s' = havedisk1 s \<and> bio_state.more s' = bio_state.more s"
proof -
  have b: "b < NBUF" "buf_ok s b" and l: "sl_locked (slocks s (L_buf b)) \<noteq> 0" "sl_pid (slocks s (L_buf b)) = p_pid (proc_at s p)"
    using i h by (auto simp: holds_buf_def bc_inv_def)
  have F: "L_bcache \<notin> F" "L_ptable \<notin> F" "L_buf b \<notin> F" using c(3) by (simp_all add: bc_free_def)
  from holdingsleep_calm[OF c(1) _ F(3)] c(2) l obtain s1 where
    s1: "holdingsleep a (L_buf b) s = Inr (True, s1)" "calm a p n F s1" "machine.more s1 = machine.more s" by auto
  note m1 = machine_bio[OF s1(3)]
  from releasesleep_calm[OF s1(2) _ F(3) _ F(2)] c(2) obtain s2 where
    s2: "releasesleep a (L_buf b) s1 = Inr s2" "calm a p n F s2" "low s1 s2"
      "slocks s2 = (slocks s1)(L_buf b := (slocks s1 (L_buf b))\<lparr>sl_locked := 0, sl_pid := 0\<rparr>)" "sl_state.more s2 = sl_state.more s1" by auto
  note b2 = bio_more_eq[OF s2(5)]
  from acquire_calm[OF s2(2) _ F(1)] c(2) obtain s3 where
    s3: "acquire a L_bcache s2 = Inr s3" "calm a p (Suc n) (insert L_bcache F) s3" "machine.more s3 = machine.more s2" by auto
  note m3 = machine_bio[OF s3(3)]
  let ?s4 = "to_front b (b_upd b (\<lambda>B. B\<lparr>b_refcnt := b_refcnt B - 1\<rparr>) s3)"
  have c4: "calm a p (Suc n) (insert L_bcache F) ?s4" using s3(2) by simp
  have fin: "insert L_bcache F - {L_bcache} = F" using F(1) by auto
  from release_calm[OF c4, of L_bcache] c(2) fin obtain s5 where
    s5: "release a L_bcache ?s4 = Inr s5" "calm a p n F s5" "machine.more s5 = machine.more ?s4" by auto
  note m5 = machine_bio[OF s5(3)]
  have rc: "b_refcnt (bufs s b) = 1" using b(2) l(1) by (simp add: buf_ok_def unlocked_def)
  have bs: "bufs ?s4 = bufs (to_front b (b_upd b (\<lambda>B. B\<lparr>b_refcnt := 0\<rparr>) s))"
  proof (rule to_front_bufs)
    show "bufs (b_upd b (\<lambda>B. B\<lparr>b_refcnt := b_refcnt B - 1\<rparr>) s3) = bufs (b_upd b (\<lambda>B. B\<lparr>b_refcnt := 0\<rparr>) s)"
      using rc m1(2) b2(1) m3(2) by simp
  qed
  have "brelse a b s = Inr s5"
    using s1(1) s2(1) s3(1) s5(1) rc m1(2) b2(1) m3(2) by (simp add: brelse_def Let_def)
  moreover have "low s s5"
  proof -
    have "low s2 s5" using m5(10) m3(10) low_trans[of s2 s3 s5] by simp
    then show ?thesis using m1(10) s2(3) low_trans by blast
  qed
  ultimately show ?thesis using s5(2) s2(4) m1 b2 m3 m5 bs by (intro exI[of _ s5]) simp
qed

lemma brelse_spec:
  assumes c: "calm a p n F s" "n < 70" "bc_free F" and i: "bc_inv s" and h: "holds_buf p b bn s"
    and w: "bn \<in> dirty s \<or> view s bn = disk s 1 bn"
  shows "\<exists>s'. brelse a b s = Inr s' \<and> calm a p n F s' \<and> low s s' \<and> bc_inv s' \<and>
    (\<forall>c x. c \<noteq> b \<longrightarrow> holds_buf p c x s \<longrightarrow> holds_buf p c x s') \<and> view s' = view s \<and> disk s' = disk s \<and>
    locked_blocks s' = locked_blocks s - {bn} \<and> dirty s' = dirty s \<and> bio_state.more s' = bio_state.more s"
proof -
  from brelse_effect[OF c i h] obtain s' where
    s': "brelse a b s = Inr s'" "calm a p n F s'" "low s s'"
      "slocks s' = (slocks s)(L_buf b := (slocks s (L_buf b))\<lparr>sl_locked := 0, sl_pid := 0\<rparr>)"
      "bufs s' = bufs (to_front b (b_upd b (\<lambda>B. B\<lparr>b_refcnt := 0\<rparr>) s))" "disk s' = disk s" "idequeue s' = idequeue s"
      "ide_error s' = ide_error s" "havedisk1 s' = havedisk1 s" "bio_state.more s' = bio_state.more s" by blast
  have b: "b < NBUF" "for_block bn (bufs s b)" "\<not> unlocked b s" "buf_ok s b"
    using i h by (auto simp: holds_buf_def unlocked_def bc_inv_def)
  have core: "b_flags (bufs s' c) = b_flags (bufs s c)" "b_dev (bufs s' c) = b_dev (bufs s c)"
    "b_blockno (bufs s' c) = b_blockno (bufs s c)" "b_data (bufs s' c) = b_data (bufs s c)"
    "b_refcnt (bufs s' c) = (if c = b then 0 else b_refcnt (bufs s c))" for c by (simp_all add: s'(5))
  have fb: "for_block x (bufs s' c) = for_block x (bufs s c)" for x c by (simp add: for_block_def core)
  have u: "unlocked c s' \<longleftrightarrow> c = b \<or> unlocked c s" for c by (auto simp: unlocked_def s'(4))
  have ok: "buf_ok s' c" if "c < NBUF" for c
  proof (cases "c = b")
    case True
    have "b_flags (bufs s b) = 2 \<longrightarrow> b_data (bufs s b) = disk s 1 bn"
      using w dirty_iff[OF i b(1,2)] holds_view(1)[OF i h] by auto
    then show ?thesis using True b(2-4) by (auto simp: buf_ok_def core u s'(6) for_block_def)
  next
    case False
    then show ?thesis using i that by (auto simp: bc_inv_def buf_ok_def core u s'(6))
  qed
  obtain xs where "ring (bufs s) xs" using i by (auto simp: bc_inv_def)
  then have "ring (bufs (b_upd b (\<lambda>B. B\<lparr>b_refcnt := 0\<rparr>) s)) xs" by (subst ring_cong[of _ "bufs s"]) simp_all
  from to_front_ring[OF this b(1)] have "bc_inv s'"
    using i ok unfolding bc_inv_def fb s'(5)[symmetric] s'(7-9) by blast
  moreover have "view s' = view s" by (rule ext, rule view_cong) (simp_all add: fb core s'(6))
  moreover have "locked_blocks s' = locked_blocks s - {bn}" using i b(1,2) unfolding locked_blocks_def fb u bc_inv_def by (auto simp: for_block_def)
  moreover have "dirty s' = dirty s" by (simp add: dirty_def fb core)
  moreover have "holds_buf p c x s'" if "c \<noteq> b" "holds_buf p c x s" for c x
    using that low_pid[OF s'(3)] by (simp add: holds_buf_def fb s'(4))
  ultimately show ?thesis using s'(1-3,6,10) by (intro exI[of _ s']) blast
qed

subsection \<open>A block store\<close>

text \<open>
  The contract: a store of blocks with a reading and a writing operation that behave as a plain
  array.  It is proved once what sequences of operations then do.
\<close>

datatype bop = Rd cuint | Wr cuint block

fun bop_block :: "bop \<Rightarrow> cuint" where
  "bop_block (Rd bn) = bn"
| "bop_block (Wr bn d) = bn"

fun run_bops :: "(cuint \<Rightarrow> 's \<Rightarrow> (block \<times> 's) res) \<Rightarrow> (cuint \<Rightarrow> block \<Rightarrow> 's \<Rightarrow> 's res) \<Rightarrow> bop list \<Rightarrow> 's \<Rightarrow> (block list \<times> 's) res" where
  "run_bops rd wr [] s = Inr ([], s)"
| "run_bops rd wr (Rd bn # ops) s = bindR (rd bn s) (\<lambda>(d, s1). bindR (run_bops rd wr ops s1) (\<lambda>(ds, s2). Inr (d # ds, s2)))"
| "run_bops rd wr (Wr bn d # ops) s = bindR (wr bn d s) (run_bops rd wr ops)"

fun plain_bops :: "bop list \<Rightarrow> (cuint \<Rightarrow> block) \<Rightarrow> block list \<times> (cuint \<Rightarrow> block)" where
  "plain_bops [] f = ([], f)"
| "plain_bops (Rd bn # ops) f = (let (ds, g) = plain_bops ops f in (f bn # ds, g))"
| "plain_bops (Wr bn d # ops) f = plain_bops ops (f(bn := d))"

locale block_store =
  fixes ok :: "'s \<Rightarrow> bool" and blocks :: "'s \<Rightarrow> cuint \<Rightarrow> block" and valid :: "cuint \<Rightarrow> bool"
    and rd :: "cuint \<Rightarrow> 's \<Rightarrow> (block \<times> 's) res" and wr :: "cuint \<Rightarrow> block \<Rightarrow> 's \<Rightarrow> 's res"
  assumes rd_law: "ok s \<Longrightarrow> valid bn \<Longrightarrow> \<exists>s'. rd bn s = Inr (blocks s bn, s') \<and> ok s' \<and> blocks s' = blocks s"
    and wr_law: "ok s \<Longrightarrow> valid bn \<Longrightarrow> \<exists>s'. wr bn d s = Inr s' \<and> ok s' \<and> blocks s' = (blocks s)(bn := d)"
begin

lemma run_plain:
  assumes "ok s" and "\<forall>x\<in>set ops. valid (bop_block x)"
  shows "\<exists>s'. run_bops rd wr ops s = Inr (fst (plain_bops ops (blocks s)), s') \<and> ok s' \<and> blocks s' = snd (plain_bops ops (blocks s))"
  using assms
proof (induction ops arbitrary: s)
  case (Cons x ops)
  show ?case
  proof (cases x)
    case (Rd bn)
    then obtain s1 where s1: "rd bn s = Inr (blocks s bn, s1)" "ok s1" "blocks s1 = blocks s" using rd_law[OF Cons.prems(1)] Cons.prems(2) by auto
    from Cons.IH[OF s1(2)] Cons.prems(2) s1(1,3) show ?thesis by (auto simp: Rd split: prod.split)
  next
    case (Wr bn d)
    then obtain s1 where s1: "wr bn d s = Inr s1" "ok s1" "blocks s1 = (blocks s)(bn := d)" using wr_law[OF Cons.prems(1), of bn d] Cons.prems(2) by auto
    obtain s2 where "run_bops rd wr ops s1 = Inr (fst (plain_bops ops ((blocks s)(bn := d))), s2)" "ok s2"
      "blocks s2 = snd (plain_bops ops ((blocks s)(bn := d)))" using Cons.IH[OF s1(2)] Cons.prems(2) s1(3) by (metis list.set_intros(2))
    then show ?thesis using s1(1) by (simp add: Wr)
  qed
qed simp

end

text \<open>Reading a block, and replacing its contents, the way the clients of the cache do.\<close>

definition cache_read :: "8 word \<Rightarrow> cuint \<Rightarrow> 'a bio_state_scheme \<Rightarrow> (block \<times> 'a bio_state_scheme) res" where
  "cache_read a bn s = bindR (bread a 1 bn s) (\<lambda>(b, s1). bindR (brelse a b s1) (\<lambda>s2. Inr (b_data (bufs s1 b), s2)))"

definition cache_write :: "8 word \<Rightarrow> cuint \<Rightarrow> block \<Rightarrow> 'a bio_state_scheme \<Rightarrow> 'a bio_state_scheme res" where
  "cache_write a bn d s = bindR (bread a 1 bn s) (\<lambda>(b, s1). bindR (bwrite a b (put_data b d s1)) (brelse a b))"

definition cache_ok :: "8 word \<Rightarrow> nat \<Rightarrow> nat \<Rightarrow> lockid set \<Rightarrow> 'a bio_state_scheme \<Rightarrow> bool" where
  "cache_ok a p n F s \<longleftrightarrow> calm a p n F s \<and> n < 70 \<and> bc_free F \<and> bc_inv s \<and> locked_blocks s = {} \<and> dirty s = {}"

lemma view_eq_disk: "bc_inv s \<Longrightarrow> bn \<notin> locked_blocks s \<Longrightarrow> bn \<notin> dirty s \<Longrightarrow> view s bn = disk s 1 bn"
  by (rule view_clean) (auto simp: locked_blocks_def dirty_def)

lemma put_data_sel [simp]: "calm a p n F (put_data b d s) = calm a p n F s" "disk (put_data b d s) = disk s"
  "low s0 (put_data b d s) = low s0 s" "low (put_data b d s) s0 = low s s0" "bio_state.more (put_data b d s) = bio_state.more s"
  by (simp_all add: put_data_def)

interpretation bc: block_store "cache_ok a p n F" "\<lambda>s. disk s 1" "\<lambda>bn. bn < FSSIZE" "cache_read a" "cache_write a"
  for a p n F
proof
  fix s :: "'a bio_state_scheme" and bn assume s: "cache_ok a p n F s" "bn < FSSIZE"
  then have k: "calm a p n F s" "n < 70" "bc_free F" "bc_inv s" "locked_blocks s = {}" "dirty s = {}" by (simp_all add: cache_ok_def)
  from bread_spec[OF k(1-4) s(2)] obtain b s1 where
    s1: "bread a 1 bn s = Inr (b, s1)" "calm a p n F s1" "bc_inv s1" "holds_buf p b bn s1" "view s1 = view s" "disk s1 = disk s"
      "locked_blocks s1 = insert bn (locked_blocks s)" "dirty s1 = dirty s" using k by (auto simp: NBUF_def)
  have v: "view s bn = disk s 1 bn" using view_eq_disk[OF k(4)] k(5,6) by simp
  from brelse_spec[OF s1(2) k(2,3) s1(3,4)] s1(5,6) v obtain s2 where
    s2: "brelse a b s1 = Inr s2" "calm a p n F s2" "bc_inv s2" "disk s2 = disk s1" "locked_blocks s2 = locked_blocks s1 - {bn}" "dirty s2 = dirty s1" by auto
  show "\<exists>s'. cache_read a bn s = Inr (disk s 1 bn, s') \<and> cache_ok a p n F s' \<and> disk s' 1 = disk s 1"
    using s1 s2 k v holds_view(1)[OF s1(3,4)] by (intro exI[of _ s2]) (simp add: cache_read_def cache_ok_def)
  fix d
  let ?t = "put_data b d s1"
  have t: "bc_inv ?t" "holds_buf p b bn ?t" "view ?t = (view s1)(bn := d)" "locked_blocks ?t = locked_blocks s1" "dirty ?t = dirty s1"
    using put_data_spec[OF s1(3,4), of d] s1(4) by blast+
  have ct: "calm a p n F ?t" using s1(2) by simp
  from bwrite_spec[OF ct k(2,3) t(1,2)] obtain s3 where
    s3: "bwrite a b ?t = Inr s3" "calm a p n F s3" "bc_inv s3" "holds_buf p b bn s3" "view s3 = view ?t"
      "disk s3 = (disk s)(1 := (disk s 1)(bn := d))" "locked_blocks s3 = locked_blocks s1" "dirty s3 = {}" using t k(6) s1(6,8) by auto
  from brelse_spec[OF s3(2) k(2,3) s3(3,4)] s3(5,6) t(3) obtain s4 where
    s4: "brelse a b s3 = Inr s4" "calm a p n F s4" "bc_inv s4" "disk s4 = disk s3" "locked_blocks s4 = locked_blocks s3 - {bn}" "dirty s4 = dirty s3" by auto
  show "\<exists>s'. cache_write a bn d s = Inr s' \<and> cache_ok a p n F s' \<and> disk s' 1 = (disk s 1)(bn := d)"
    using s1(1,7) s3 s4 k by (intro exI[of _ s4]) (simp add: cache_write_def cache_ok_def)
qed


lemma bio0_sel: "bufs bio0 = buf0" "idequeue bio0 = None" "\<not> ide_error bio0" "havedisk1 bio0 = 1" "disk bio0 = (\<lambda>_ _. replicate BSIZE 0)"
  "sl_locked (slocks bio0 L) = 0"
  by (simp_all add: bio0_def sl0_def state0_defs)

lemma ring0: "ring buf0 (rev [0..<NBUF])"
proof -
  have "path (\<lambda>b. b_next (buf0 b)) (\<lambda>b. b_prev (buf0 b)) (NBUF # rev [0..<NBUF] @ [NBUF])"
    by (simp add: NBUF_def buf0_def upt_conv_Cons)
  then show ?thesis by (auto simp: ring_def)
qed

lemma cache_ok0: "cache_ok 0 5 0 {} bio0"
proof -
  have "bc_inv bio0"
    unfolding bc_inv_def using ring0 by (auto simp: bio0_sel for_block_def buf_ok_def unlocked_def buf0_def)
  moreover have "locked_blocks bio0 = {}" "dirty bio0 = {}" by (auto simp: locked_blocks_def dirty_def bio0_sel unlocked_def buf0_def)
  ultimately show ?thesis by (simp add: cache_ok_def bc_free_def)
qed


end
