(* ===== verification/LogInv.thy ===== *)
theory LogInv
  imports BioInv
begin

section \<open>The log makes transactions atomic (log.c)\<close>

text \<open>
  What the steps of a commit write to the disk, and what recovery makes of the disk after a
  crash between any two of them: the state before the transaction, or the state after it.
\<close>

subsection \<open>Copying a block\<close>

text \<open>The cache works and its locks are free.\<close>

definition bc_at :: "8 word \<Rightarrow> nat \<Rightarrow> nat \<Rightarrow> lockid set \<Rightarrow> 'a bio_state_scheme \<Rightarrow> bool" where
  "bc_at a p n F s \<longleftrightarrow> calm a p n F s \<and> n < 70 \<and> bc_free F \<and> bc_inv s"

lemma two_reads:
  assumes s: "bc_at a p n F s" "locked_blocks s = {}" and xy: "x \<noteq> y" "x < FSSIZE" "y < FSSIZE"
    and d: "card (dirty s) < NBUF" "y \<in> dirty s \<or> card (dirty s) + 1 < NBUF"
  shows "\<exists>b s1 c s2. bread a 1 x s = Inr (b, s1) \<and> bio_state.more s1 = bio_state.more s \<and> bread a 1 y s1 = Inr (c, s2) \<and> bc_at a p n F s2 \<and>
    holds_buf p b x s2 \<and> holds_buf p c y s2 \<and> b \<noteq> c \<and> view s2 = view s \<and> disk s2 = disk s \<and> locked_blocks s2 = {x, y} \<and>
    dirty s2 = dirty s \<and> low s s2 \<and> bio_state.more s2 = bio_state.more s"
proof -
  from s have k: "calm a p n F s" "n < 70" "bc_free F" "bc_inv s" by (simp_all add: bc_at_def)
  from bread_spec[OF k xy(2)] s(2) d(1) obtain b s1 where
    s1: "bread a 1 x s = Inr (b, s1)" "calm a p n F s1" "low s s1" "bc_inv s1" "holds_buf p b x s1" "view s1 = view s" "disk s1 = disk s"
      "locked_blocks s1 = {x}" "dirty s1 = dirty s" "bio_state.more s1 = bio_state.more s" by auto
  have "card (locked_blocks s1 \<union> dirty s1) < NBUF \<or> y \<in> dirty s1"
    using d(2) s1(8,9) card_insert_le_m1[of "card (dirty s) + 1" "dirty s" x] by (auto simp: card_insert_if)
  from bread_spec[OF s1(2) k(2,3) s1(4) xy(3) _ this] s1(8) xy(1) obtain c s2 where
    s2: "bread a 1 y s1 = Inr (c, s2)" "calm a p n F s2" "low s1 s2" "bc_inv s2" "holds_buf p c y s2" "holds_buf p b x s2"
      "view s2 = view s1" "disk s2 = disk s1" "locked_blocks s2 = insert y {x}" "dirty s2 = dirty s1" "bio_state.more s2 = bio_state.more s1"
    using s1(5) by auto
  have "b \<noteq> c" using s2(5,6) xy(1) by (auto simp: holds_buf_def for_block_def)
  then show ?thesis using s1 s2 k low_trans[OF s1(3) s2(3)] by (intro exI[of _ b] exI[of _ s1] exI[of _ c] exI[of _ s2]) (auto simp: bc_at_def)
qed

text \<open>The change of a locked buffer is written, then both buffers are released, in either order.\<close>

lemma write_release:
  assumes s: "bc_at a p n F s" "holds_buf p w z s" "holds_buf p u x s" "holds_buf p v y s" "u \<noteq> v" "x \<noteq> y" "w = u \<or> w = v"
    and cl: "x = z \<or> x \<in> dirty s \<or> view s x = disk s 1 x" "y = z \<or> y \<in> dirty s \<or> view s y = disk s 1 y"
  shows "\<exists>s1 s2 s3. bwrite a w (put_data w d s) = Inr s1 \<and> brelse a u s1 = Inr s2 \<and> brelse a v s2 = Inr s3 \<and> bc_at a p n F s3 \<and>
    view s3 = (view s)(z := d) \<and> disk s3 = (disk s)(1 := (disk s 1)(z := d)) \<and> locked_blocks s3 = locked_blocks s - {x, y} \<and> dirty s3 = dirty s - {z} \<and>
    low s s3 \<and> bio_state.more s3 = bio_state.more s"
proof -
  from s(1) have k: "calm a p n F s" "n < 70" "bc_free F" "bc_inv s" by (simp_all add: bc_at_def)
  let ?t = "put_data w d s"
  have t: "bc_inv ?t" "holds_buf p w z ?t" "holds_buf p u x ?t" "holds_buf p v y ?t" "view ?t = (view s)(z := d)" "locked_blocks ?t = locked_blocks s" "dirty ?t = dirty s"
    using put_data_spec[OF k(4) s(2), of d] s(2-4) by blast+
  have ct: "calm a p n F ?t" using k(1) by simp
  from bwrite_spec[OF ct k(2,3) t(1,2)] obtain s1 where
    w: "bwrite a w ?t = Inr s1" "calm a p n F s1" "low ?t s1" "bc_inv s1" "\<forall>c x. holds_buf p c x ?t \<longrightarrow> holds_buf p c x s1" "view s1 = view ?t"
      "disk s1 = (disk ?t)(1 := (disk ?t 1)(z := view ?t z))" "locked_blocks s1 = locked_blocks ?t" "dirty s1 = dirty ?t - {z}"
      "bio_state.more s1 = bio_state.more ?t" by blast
  then have s1: "bwrite a w ?t = Inr s1" "calm a p n F s1" "low s s1" "bc_inv s1" "holds_buf p u x s1" "holds_buf p v y s1" "view s1 = (view s)(z := d)"
      "disk s1 = (disk s)(1 := (disk s 1)(z := d))" "locked_blocks s1 = locked_blocks s" "dirty s1 = dirty s - {z}" "bio_state.more s1 = bio_state.more s"
    using t by simp_all
  have "x \<in> dirty s1 \<or> view s1 x = disk s1 1 x" using cl(1) s1(7,8,10) by auto
  from brelse_spec[OF s1(2) k(2,3) s1(4,5) this] s(5) s1(6) obtain s2 where
    s2: "brelse a u s1 = Inr s2" "calm a p n F s2" "low s1 s2" "bc_inv s2" "holds_buf p v y s2" "view s2 = view s1" "disk s2 = disk s1"
      "locked_blocks s2 = locked_blocks s1 - {x}" "dirty s2 = dirty s1" "bio_state.more s2 = bio_state.more s1" by auto
  have "y \<in> dirty s2 \<or> view s2 y = disk s2 1 y" using cl(2) s1(7,8,10) s2(6,7,9) by auto
  from brelse_spec[OF s2(2) k(2,3) s2(4,5) this] obtain s3 where
    s3: "brelse a v s2 = Inr s3" "calm a p n F s3" "low s2 s3" "bc_inv s3" "view s3 = view s2" "disk s3 = disk s2"
      "locked_blocks s3 = locked_blocks s2 - {y}" "dirty s3 = dirty s2" "bio_state.more s3 = bio_state.more s2" by auto
  have "bc_at a p n F s3" using s3 k by (simp add: bc_at_def)
  moreover have "view s3 = (view s)(z := d)" "disk s3 = (disk s)(1 := (disk s 1)(z := d))" "dirty s3 = dirty s - {z}"
    "bio_state.more s3 = bio_state.more s" using s1(7,8,10,11) s2(6-10) s3(5-9) by simp_all
  moreover have "locked_blocks s3 = locked_blocks s - {x, y}" using s1(9) s2(8) s3(7) by auto
  ultimately show ?thesis using s1(1) s2(1) s3(1) low_trans[OF low_trans[OF s1(3) s2(3)] s3(3)] by blast
qed

subsection \<open>The blocks of the log\<close>

definition lblk :: "cuint \<Rightarrow> nat \<Rightarrow> cuint" where
  "lblk st i = st + of_nat i + 1"

definition log_area :: "cuint \<Rightarrow> cuint set" where
  "log_area st = insert st (lblk st ` {..<LOGSIZE})"

definition log_fits :: "cuint \<Rightarrow> bool" where
  "log_fits st \<longleftrightarrow> unat st + LOGSIZE < unat FSSIZE"

lemma unat_lblk:
  assumes "log_fits st" and "i < LOGSIZE"
  shows "unat (lblk st i) = unat st + i + 1"
proof -
  have "unat st + i + 1 < 2 ^ 32" using assms by (simp add: log_fits_def FSSIZE_def)
  moreover have "lblk st i = of_nat (unat st + i + 1)" by (simp add: lblk_def)
  ultimately show ?thesis using unat_of_nat32 by metis
qed

lemma lblk_facts:
  assumes "log_fits st"
  shows "st < FSSIZE" "i < LOGSIZE \<Longrightarrow> lblk st i < FSSIZE" "i < LOGSIZE \<Longrightarrow> lblk st i \<noteq> st"
    "i < LOGSIZE \<Longrightarrow> j < LOGSIZE \<Longrightarrow> lblk st i = lblk st j \<longleftrightarrow> i = j"
    "i < LOGSIZE \<Longrightarrow> lblk st i \<in> log_area st" "st \<in> log_area st"
proof -
  have u: "unat st + LOGSIZE < unat FSSIZE" using assms unfolding log_fits_def .
  show "st < FSSIZE" unfolding word_less_nat_alt using u by linarith
  show "lblk st i < FSSIZE" if "i < LOGSIZE" unfolding word_less_nat_alt unat_lblk[OF assms that] using u that by linarith
  show "lblk st i \<noteq> st" if "i < LOGSIZE" using unat_lblk[OF assms that] by (metis add.assoc less_add_one less_irrefl_nat less_add_Suc1 Suc_eq_plus1)
  show "lblk st i = lblk st j \<longleftrightarrow> i = j" if "i < LOGSIZE" "j < LOGSIZE"
    using unat_lblk[OF assms that(1)] unat_lblk[OF assms that(2)] by (metis add_left_cancel add_right_cancel)
qed (simp_all add: log_area_def)

text \<open>The header in memory lists \<open>hs\<close>, the home locations of the changed blocks.\<close>

definition log_lists :: "cuint list \<Rightarrow> 'a log_state_scheme \<Rightarrow> bool" where
  "log_lists hs s \<longleftrightarrow> log_dev (log s) = 1 \<and> log_fits (log_start (log s)) \<and> lhn s = of_nat (length hs) \<and> length hs < LOGSIZE \<and>
     length (lhb s) = LOGSIZE \<and> take (length hs) (lhb s) = hs \<and> distinct hs \<and>
     (\<forall>h\<in>set hs. h < FSSIZE \<and> h \<notin> log_area (log_start (log s)))"

lemma log_listsD:
  assumes "log_lists hs s" and "i < length hs"
  shows "log_dev (log s) = 1" "log_fits (log_start (log s))" "i < LOGSIZE" "block_at (lhb s) i = Inr (hs ! i)"
    "hs ! i < FSSIZE" "hs ! i \<notin> log_area (log_start (log s))" "lhb s ! i = hs ! i"
proof -
  have "take (length hs) (lhb s) ! i = lhb s ! i" using assms(2) by simp
  then show "lhb s ! i = hs ! i" using assms(1) by (simp add: log_lists_def)
  then show "block_at (lhb s) i = Inr (hs ! i)" using assms by (simp add: log_lists_def block_at_def)
qed (use assms nth_mem[OF assms(2)] in \<open>auto simp: log_lists_def\<close>)

lemma log_more_eq:
  assumes "bio_state.more s' = bio_state.more (s :: 'a log_state_scheme)"
  shows "log s' = log s" "log_state.more s' = log_state.more s"
  using assms by (cases s, cases s', simp)+

subsection \<open>The steps of a commit\<close>

lemma write_block_spec:
  assumes s: "bc_at a p n F s" "locked_blocks s = {}" "log_lists hs s" "dirty s = set hs" "i < length hs"
  defines "x \<equiv> lblk (log_start (log s)) i"
  shows "\<exists>s'. write_block a i s = Inr s' \<and> bc_at a p n F s' \<and> locked_blocks s' = {} \<and> dirty s' = dirty s \<and>
    view s' = (view s)(x := view s (hs ! i)) \<and> disk s' = (disk s)(1 := (disk s 1)(x := view s (hs ! i))) \<and>
    low s s' \<and> bio_state.more s' = bio_state.more s"
proof -
  note d = log_listsD[OF s(3,5)] and f = lblk_facts[OF log_listsD(2)[OF s(3,5)]]
  have x: "x \<in> log_area (log_start (log s))" "x < FSSIZE" "log_start (log s) + of_nat i + 1 = x"
    unfolding x_def using f(5)[OF d(3)] f(2)[OF d(3)] by (simp_all only: lblk_def)
  have xd: "x \<notin> dirty s" using x(1) s(3,4) by (auto simp: log_lists_def)
  have y: "hs ! i \<in> dirty s" "x \<noteq> hs ! i" using s(4,5) x(1) d(6) by auto
  have "card (dirty s) \<le> length hs" using s(4) card_length by metis
  then have cd: "card (dirty s) < NBUF" using s(3) by (simp add: log_lists_def LOGSIZE_def MAXOPBLOCKS_def NBUF_def)
  from two_reads[OF s(1,2) y(2) x(2) d(5) cd] y(1) obtain b s1 c s2 where
    r: "bread a 1 x s = Inr (b, s1)" "bio_state.more s1 = bio_state.more s" "bread a 1 (hs ! i) s1 = Inr (c, s2)" "bc_at a p n F s2"
      "holds_buf p b x s2" "holds_buf p c (hs ! i) s2" "b \<noteq> c" "view s2 = view s" "disk s2 = disk s" "locked_blocks s2 = {x, hs ! i}"
      "dirty s2 = dirty s" "low s s2" "bio_state.more s2 = bio_state.more s" by blast
  have dat: "b_data (bufs s2 c) = view s (hs ! i)" using holds_view(1)[of s2 p c "hs ! i"] r(4,6,8) by (simp add: bc_at_def)
  from write_release[OF r(4,5,6,5) not_sym[OF r(7)] not_sym[OF y(2)], of "view s (hs ! i)"] y(1) r(11) obtain s3 s4 s5 where
    w: "bwrite a b (put_data b (view s (hs ! i)) s2) = Inr s3" "brelse a c s3 = Inr s4" "brelse a b s4 = Inr s5" "bc_at a p n F s5"
      "view s5 = (view s2)(x := view s (hs ! i))" "disk s5 = (disk s2)(1 := (disk s2 1)(x := view s (hs ! i)))"
      "locked_blocks s5 = locked_blocks s2 - {hs ! i, x}" "dirty s5 = dirty s2 - {x}" "low s2 s5" "bio_state.more s5 = bio_state.more s2" by auto
  have "write_block a i s = Inr s5"
    unfolding write_block_def d(1) x(3) using r(1,3) w(1-3) d(4) log_more_eq(1)[OF r(2)] d(1)
    by (simp add: Let_def put_data_def[symmetric] dat)
  then show ?thesis using w r xd low_trans[OF r(12) w(9)] by (intro exI[of _ s5]) auto
qed

lemma install_block_spec:
  assumes s: "bc_at a p n F s" "locked_blocks s = {}" "log_lists hs s" "dirty s \<subseteq> set hs" "i < length hs" "hs ! i \<in> dirty s \<or> dirty s = {}"
  defines "x \<equiv> lblk (log_start (log s)) i"
  shows "\<exists>s'. install_block a i s = Inr s' \<and> bc_at a p n F s' \<and> locked_blocks s' = {} \<and> dirty s' = dirty s - {hs ! i} \<and>
    view s' = (view s)(hs ! i := disk s 1 x) \<and> disk s' = (disk s)(1 := (disk s 1)(hs ! i := disk s 1 x)) \<and>
    low s s' \<and> bio_state.more s' = bio_state.more s"
proof -
  note d = log_listsD[OF s(3,5)] and f = lblk_facts[OF log_listsD(2)[OF s(3,5)]]
  have x: "x \<in> log_area (log_start (log s))" "x < FSSIZE" "log_start (log s) + of_nat i + 1 = x"
    unfolding x_def using f(5)[OF d(3)] f(2)[OF d(3)] by (simp_all only: lblk_def)
  have xd: "x \<notin> dirty s" using x(1) s(3,4) by (auto simp: log_lists_def)
  have y: "x \<noteq> hs ! i" using x(1) d(6) by auto
  have "card (dirty s) \<le> length hs" using card_mono[OF _ s(4)] card_length[of hs] by (meson le_trans List.finite_set)
  then have cd: "card (dirty s) < NBUF" using s(3) by (simp add: log_lists_def LOGSIZE_def MAXOPBLOCKS_def NBUF_def)
  have cd2: "hs ! i \<in> dirty s \<or> card (dirty s) + 1 < NBUF" using s(6) by (auto simp: NBUF_def)
  from two_reads[OF s(1,2) y x(2) d(5) cd cd2] obtain b s1 c s2 where
    r: "bread a 1 x s = Inr (b, s1)" "bio_state.more s1 = bio_state.more s" "bread a 1 (hs ! i) s1 = Inr (c, s2)" "bc_at a p n F s2"
      "holds_buf p b x s2" "holds_buf p c (hs ! i) s2" "b \<noteq> c" "view s2 = view s" "disk s2 = disk s" "locked_blocks s2 = {x, hs ! i}"
      "dirty s2 = dirty s" "low s s2" "bio_state.more s2 = bio_state.more s" by blast
  have vx: "view s x = disk s 1 x" using view_eq_disk[of s x] s(1,2) xd by (simp add: bc_at_def)
  have dat: "b_data (bufs s2 b) = disk s 1 x" using holds_view(1)[of s2 p b x] r(4,5,8) vx by (simp add: bc_at_def)
  from write_release[OF r(4,6,5,6) r(7) y, of "disk s 1 x"] vx r(8,9) obtain s3 s4 s5 where
    w: "bwrite a c (put_data c (disk s 1 x) s2) = Inr s3" "brelse a b s3 = Inr s4" "brelse a c s4 = Inr s5" "bc_at a p n F s5"
      "view s5 = (view s2)(hs ! i := disk s 1 x)" "disk s5 = (disk s2)(1 := (disk s2 1)(hs ! i := disk s 1 x))"
      "locked_blocks s5 = locked_blocks s2 - {x, hs ! i}" "dirty s5 = dirty s2 - {hs ! i}" "low s2 s5" "bio_state.more s5 = bio_state.more s2" by auto
  have "install_block a i s = Inr s5"
    unfolding install_block_def d(1) x(3) using r(1,3) w(1-3) d(4) log_more_eq(1)[OF r(2)] d(1)
    by (simp add: Let_def put_data_def[symmetric] dat)
  then show ?thesis using w r low_trans[OF r(12) w(9)] by (intro exI[of _ s5]) auto
qed

lemma put_data_b_upd: "b_upd b (\<lambda>B. B\<lparr>b_data := f (b_data B)\<rparr>) s = put_data b (f (b_data (bufs s b))) s"
  by (simp add: put_data_def b_upd_def)

lemma write_head_spec:
  assumes s: "bc_at a p n F s" "locked_blocks s = {}" "log_start (log s) \<notin> dirty s" "card (dirty s) < NBUF" "log_dev (log s) = 1"
    "log_start (log s) < FSSIZE" "sint (lhn s) \<le> int LOGSIZE"
  defines "st \<equiv> log_start (log s)"
  shows "\<exists>s'. write_head a s = Inr s' \<and> bc_at a p n F s' \<and> locked_blocks s' = {} \<and> dirty s' = dirty s \<and>
    view s' = (view s)(st := put_header (log_lh (log s)) (disk s 1 st)) \<and>
    disk s' = (disk s)(1 := (disk s 1)(st := put_header (log_lh (log s)) (disk s 1 st))) \<and> low s s' \<and> bio_state.more s' = bio_state.more s"
proof -
  from s(1) have k: "calm a p n F s" "n < 70" "bc_free F" "bc_inv s" by (simp_all add: bc_at_def)
  have vst: "view s st = disk s 1 st" using view_eq_disk[OF k(4)] s(2,3) by (simp add: st_def)
  have st: "st < FSSIZE" "st \<notin> locked_blocks s" "card (locked_blocks s \<union> dirty s) < NBUF \<or> st \<in> dirty s" using s(2,4,6) by (simp_all add: st_def)
  from bread_spec[OF k st] obtain b s1 where
    s1: "bread a 1 st s = Inr (b, s1)" "calm a p n F s1" "low s s1" "bc_inv s1" "holds_buf p b st s1" "view s1 = view s" "disk s1 = disk s"
      "locked_blocks s1 = insert st (locked_blocks s)" "dirty s1 = dirty s" "bio_state.more s1 = bio_state.more s" by blast
  let ?d = "put_header (log_lh (log s)) (disk s 1 st)"
  have dat: "b_data (bufs s1 b) = disk s 1 st" using holds_view(1)[OF s1(4,5)] s1(6) vst by simp
  let ?t = "put_data b ?d s1"
  have t: "bc_inv ?t" "holds_buf p b st ?t" "view ?t = (view s1)(st := ?d)" "locked_blocks ?t = locked_blocks s1" "dirty ?t = dirty s1"
    using put_data_spec[OF s1(4,5), of ?d] s1(5) by blast+
  have ct: "calm a p n F ?t" using s1(2) by simp
  from bwrite_spec[OF ct k(2,3) t(1,2)] obtain s2 where
    s2: "bwrite a b ?t = Inr s2" "calm a p n F s2" "low ?t s2" "bc_inv s2" "\<forall>c x. holds_buf p c x ?t \<longrightarrow> holds_buf p c x s2" "view s2 = view ?t"
      "disk s2 = (disk ?t)(1 := (disk ?t 1)(st := view ?t st))" "locked_blocks s2 = locked_blocks ?t" "dirty s2 = dirty ?t - {st}"
      "bio_state.more s2 = bio_state.more ?t" by blast
  have h2: "holds_buf p b st s2" and v2: "st \<in> dirty s2 \<or> view s2 st = disk s2 1 st" using s2(5-7) t(2,3) by simp_all
  from brelse_spec[OF s2(2) k(2,3) s2(4) h2 v2] obtain s3 where
    s3: "brelse a b s2 = Inr s3" "calm a p n F s3" "low s2 s3" "bc_inv s3" "view s3 = view s2" "disk s3 = disk s2"
      "locked_blocks s3 = locked_blocks s2 - {st}" "dirty s3 = dirty s2" "bio_state.more s3 = bio_state.more s2" by blast
  have "write_head a s = Inr s3"
    using s1(1) s2(1) s3(1) s(5,7) log_more_eq(1)[OF s1(10)] dat by (simp add: write_head_def put_data_b_upd st_def not_less)
  moreover have "bc_at a p n F s3" using s3 k by (simp add: bc_at_def)
  moreover have "view s3 = (view s)(st := ?d)" "disk s3 = (disk s)(1 := (disk s 1)(st := ?d))" "bio_state.more s3 = bio_state.more s"
    using s3(5,6,9) s2(6,7,10) t(3) s1(6,7,10) by simp_all
  moreover have "locked_blocks s3 = {}" "dirty s3 = dirty s" using s3(7,8) s2(8,9) t(4,5) s1(8,9) s(2,3) by (auto simp: st_def)
  moreover have "low s s3"
  proof -
    have "low s1 s2" using s2(3) by simp
    then show ?thesis using low_trans[OF low_trans[OF s1(3)] s3(3)] by blast
  qed
  ultimately show ?thesis by blast
qed

text \<open>The first \<open>k\<close> steps of \<open>write_log\<close> and \<open>install_trans\<close>.\<close>

lemma write_blocks_spec:
  assumes s: "bc_at a p n F s" "locked_blocks s = {}" "log_lists hs s" "dirty s = set hs" and k: "k \<le> length hs"
  defines "st \<equiv> log_start (log s)"
  shows "\<exists>s'. foldR (write_block a) [0..<k] s = Inr s' \<and> bc_at a p n F s' \<and> locked_blocks s' = {} \<and> dirty s' = dirty s \<and>
    (\<forall>i<k. disk s' 1 (lblk st i) = view s (hs ! i)) \<and> (\<forall>x. x \<notin> lblk st ` {..<k} \<longrightarrow> disk s' 1 x = disk s 1 x) \<and>
    (\<forall>x. x \<notin> lblk st ` {..<k} \<longrightarrow> view s' x = view s x) \<and> low s s' \<and> bio_state.more s' = bio_state.more s"
  using k
proof (induction k)
  case 0
  then show ?case using s by simp
next
  case (Suc k)
  then obtain s1 where s1: "foldR (write_block a) [0..<k] s = Inr s1" "bc_at a p n F s1" "locked_blocks s1 = {}" "dirty s1 = dirty s"
    "\<forall>i<k. disk s1 1 (lblk st i) = view s (hs ! i)" "\<forall>x. x \<notin> lblk st ` {..<k} \<longrightarrow> disk s1 1 x = disk s 1 x"
    "\<forall>x. x \<notin> lblk st ` {..<k} \<longrightarrow> view s1 x = view s x" "low s s1" "bio_state.more s1 = bio_state.more s" by auto
  note lg = log_more_eq(1)[OF s1(9)]
  have kl: "k < length hs" using Suc.prems by simp
  have l1: "log_lists hs s1" "dirty s1 = set hs" using s(3,4) s1(4) lg by (simp_all add: log_lists_def)
  note d = log_listsD[OF s(3) kl] and f = lblk_facts[OF log_listsD(2)[OF s(3) kl]]
  have nk: "hs ! k \<notin> lblk st ` {..<k}" using d(6) d(3) f(5) by (auto simp: st_def)
  have ik: "lblk st i \<noteq> lblk st k" if "i < k" for i using f(4)[of i k] that d(3) by (simp add: st_def)
  from write_block_spec[OF s1(2,3) l1 kl] obtain s2 where
    s2: "write_block a k s1 = Inr s2" "bc_at a p n F s2" "locked_blocks s2 = {}" "dirty s2 = dirty s1"
      "view s2 = (view s1)(lblk st k := view s (hs ! k))" "disk s2 = (disk s1)(1 := (disk s1 1)(lblk st k := view s (hs ! k)))"
      "low s1 s2" "bio_state.more s2 = bio_state.more s1" using lg s1(7) nk by (auto simp: st_def)
  have "\<forall>i<Suc k. disk s2 1 (lblk st i) = view s (hs ! i)" using s2(6) s1(5) ik by (auto simp: less_Suc_eq)
  moreover have "x \<notin> lblk st ` {..<Suc k} \<Longrightarrow> disk s2 1 x = disk s 1 x" "x \<notin> lblk st ` {..<Suc k} \<Longrightarrow> view s2 x = view s x" for x
    using s2(5,6) s1(6,7) by (auto simp: lessThan_Suc)
  ultimately show ?case using s1 s2(1-4,7,8) low_trans[OF s1(8) s2(7)] by (intro exI[of _ s2]) (simp add: foldR_append)
qed

lemma install_blocks_spec:
  assumes s: "bc_at a p n F s" "locked_blocks s = {}" "log_lists hs s" "dirty s = set hs \<or> dirty s = {}" and k: "k \<le> length hs"
  defines "st \<equiv> log_start (log s)"
  shows "\<exists>s'. foldR (install_block a) [0..<k] s = Inr s' \<and> bc_at a p n F s' \<and> locked_blocks s' = {} \<and> dirty s' = dirty s - set (take k hs) \<and>
    (\<forall>i<k. disk s' 1 (hs ! i) = disk s 1 (lblk st i) \<and> view s' (hs ! i) = disk s 1 (lblk st i)) \<and>
    (\<forall>x. x \<notin> set (take k hs) \<longrightarrow> disk s' 1 x = disk s 1 x \<and> view s' x = view s x) \<and> low s s' \<and> bio_state.more s' = bio_state.more s"
  using k
proof (induction k)
  case 0
  then show ?case using s by simp
next
  case (Suc k)
  then obtain s1 where s1: "foldR (install_block a) [0..<k] s = Inr s1" "bc_at a p n F s1" "locked_blocks s1 = {}" "dirty s1 = dirty s - set (take k hs)"
    "\<forall>i<k. disk s1 1 (hs ! i) = disk s 1 (lblk st i) \<and> view s1 (hs ! i) = disk s 1 (lblk st i)"
    "\<forall>x. x \<notin> set (take k hs) \<longrightarrow> disk s1 1 x = disk s 1 x \<and> view s1 x = view s x" "low s s1" "bio_state.more s1 = bio_state.more s" by auto
  note lg = log_more_eq(1)[OF s1(8)]
  have kl: "k < length hs" using Suc.prems by simp
  have dk: "distinct hs" using s(3) by (simp add: log_lists_def)
  have tk: "set (take (Suc k) hs) = insert (hs ! k) (set (take k hs))" using kl by (simp add: take_Suc_conv_app_nth)
  have hk: "hs ! i \<noteq> hs ! k" if "i < k" for i using nth_eq_iff_index_eq[OF dk _ kl, of i] that kl by simp
  have "hs ! k \<notin> set (take k hs)" using hk kl by (auto simp: in_set_conv_nth)
  then have l1: "log_lists hs s1" "dirty s1 \<subseteq> set hs" "hs ! k \<in> dirty s1 \<or> dirty s1 = {}"
    using s(3,4) s1(4) lg kl by (auto simp: log_lists_def)
  note d = log_listsD[OF s(3) kl] and f = lblk_facts[OF log_listsD(2)[OF s(3) kl]]
  have "lblk st k \<notin> set (take k hs)"
    using f(5)[OF d(3)] s(3) set_take_subset[of k hs] by (auto simp: st_def log_lists_def)
  then have lk: "disk s1 1 (lblk st k) = disk s 1 (lblk st k)" using s1(6) by blast
  from install_block_spec[OF s1(2,3) l1(1,2) kl l1(3)] obtain s2 where
    s2: "install_block a k s1 = Inr s2" "bc_at a p n F s2" "locked_blocks s2 = {}" "dirty s2 = dirty s1 - {hs ! k}"
      "view s2 = (view s1)(hs ! k := disk s 1 (lblk st k))" "disk s2 = (disk s1)(1 := (disk s1 1)(hs ! k := disk s 1 (lblk st k)))"
      "low s1 s2" "bio_state.more s2 = bio_state.more s1" using lg lk by (auto simp: st_def)
  have "\<forall>i<Suc k. disk s2 1 (hs ! i) = disk s 1 (lblk st i) \<and> view s2 (hs ! i) = disk s 1 (lblk st i)"
    using s2(5,6) s1(5) hk by (auto simp: less_Suc_eq)
  moreover have "\<forall>x. x \<notin> set (take (Suc k) hs) \<longrightarrow> disk s2 1 x = disk s 1 x \<and> view s2 x = view s x"
    using s2(5,6) s1(6) tk by auto
  moreover have "dirty s2 = dirty s - set (take (Suc k) hs)" using s2(4) s1(4) tk by auto
  ultimately show ?case using s1 s2(1-3,8) low_trans[OF s1(7) s2(7)] by (intro exI[of _ s2]) (simp add: foldR_append)
qed

subsection \<open>The header block\<close>

definition on_disk :: "cuint list \<Rightarrow> block \<Rightarrow> bool" where
  "on_disk hs d \<longleftrightarrow> length d = BSIZE \<and> get32 0 d = of_nat (length hs) \<and> (\<forall>i<length hs. get32 (4 + 4 * i) d = hs ! i)"

lemma put_entries:
  assumes "length d = BSIZE" and "n \<le> LOGSIZE"
  shows "let e = fold (\<lambda>i d. put32 (4 + 4 * i) (g i) d) [0..<n] d in
    length e = BSIZE \<and> get32 0 e = get32 0 d \<and> (\<forall>i<n. get32 (4 + 4 * i) e = g i)"
  unfolding Let_def using assms(2)
proof (induction n)
  case 0
  then show ?case using assms(1) by simp
next
  case (Suc n)
  have "n < 30" using Suc.prems by (simp add: LOGSIZE_def MAXOPBLOCKS_def)
  with Suc show ?case by (auto simp: BSIZE_def less_Suc_eq)
qed

lemma put_header_on_disk:
  assumes "log_lists hs s" and "length d = BSIZE"
  shows "on_disk hs (put_header (log_lh (log s)) d)"
proof -
  have l: "length hs < LOGSIZE" "lhn s = of_nat (length hs)" using assms(1) by (simp_all add: log_lists_def)
  then have n: "nat (sint (lhn s)) = length hs" by (simp add: sint_of_nat32 LOGSIZE_def MAXOPBLOCKS_def)
  have z: "length (put32 0 (lhn s) d) = BSIZE" "get32 0 (put32 0 (lhn s) d) = lhn s" using assms(2) by (simp_all add: BSIZE_def)
  show ?thesis unfolding put_header_def n
    using put_entries[OF z(1), of "length hs" "\<lambda>i. lhb s ! i"] l z(2) log_listsD(7)[OF assms(1)]
    by (simp add: on_disk_def Let_def)
qed

lemma put_header_empty: "length d = BSIZE \<Longrightarrow> on_disk [] (put_header (lh\<lparr>lh_n := 0\<rparr>) d)"
  by (simp add: put_header_def on_disk_def BSIZE_def)

lemma header_of_disk:
  assumes "on_disk hs d" and "length hs \<le> LOGSIZE" and "length bs = LOGSIZE"
  shows "lh_n (header_of d bs) = of_nat (length hs)" "length (lh_block (header_of d bs)) = LOGSIZE"
    "take (length hs) (lh_block (header_of d bs)) = hs"
proof -
  have n: "nat (sint (get32 0 d)) = length hs" using assms by (simp add: on_disk_def sint_of_nat32 LOGSIZE_def MAXOPBLOCKS_def)
  have m: "map (\<lambda>i. get32 (4 + 4 * i) d) [0..<length hs] = hs" using assms(1) by (intro nth_equalityI) (simp_all add: on_disk_def)
  show "lh_n (header_of d bs) = of_nat (length hs)" using assms(1) by (simp add: header_of_def Let_def on_disk_def)
  show "length (lh_block (header_of d bs)) = LOGSIZE" "take (length hs) (lh_block (header_of d bs)) = hs"
    using n m assms(2,3) by (simp_all add: header_of_def Let_def)
qed

subsection \<open>Recovery\<close>

lemma bc_cong:
  assumes "bufs s' = bufs s" and "slocks s' = slocks s" and "disk s' = disk s" and "idequeue s' = idequeue s"
    and "ide_error s' = ide_error s" and "havedisk1 s' = havedisk1 s"
  shows "bc_inv s' = bc_inv s" "locked_blocks s' = locked_blocks s" "dirty s' = dirty s" "view s' = view s"
proof -
  have u: "unlocked b s' = unlocked b s" for b by (simp add: unlocked_def assms)
  have o: "buf_ok s' b = buf_ok s b" for b by (simp add: buf_ok_def u assms)
  show "bc_inv s' = bc_inv s" by (simp add: bc_inv_def o assms)
  show "locked_blocks s' = locked_blocks s" by (simp add: locked_blocks_def u assms)
  show "dirty s' = dirty s" by (simp add: dirty_def assms)
  show "view s' = view s" by (rule ext) (simp only: view_def assms)
qed

lemma upd_log_bio [simp]: "bufs (upd_log f s) = bufs s" "slocks (upd_log f s) = slocks s" "disk (upd_log f s) = disk s"
  "idequeue (upd_log f s) = idequeue s" "ide_error (upd_log f s) = ide_error s" "havedisk1 (upd_log f s) = havedisk1 s"
  "proc_at (upd_log f s) q = proc_at s q" "log (upd_log f s) = f (log s)"
  "calm a p n F (upd_log f s) = calm a p n F s" "low s0 (upd_log f s) = low s0 s"
proof -
  show "calm a p n F (upd_log f s) = calm a p n F s" by (rule calm_cong) (simp_all add: upd_log_def)
qed (simp_all add: upd_log_def proc_at_def low_def)

lemma upd_log_sel [simp]: "bc_inv (upd_log f s) = bc_inv s" "locked_blocks (upd_log f s) = locked_blocks s" "dirty (upd_log f s) = dirty s"
  "view (upd_log f s) = view s" "bc_at a p n F (upd_log f s) = bc_at a p n F s" "holds_buf p b bn (upd_log f s) = holds_buf p b bn s"
proof -
  show c: "bc_inv (upd_log f s) = bc_inv s" "locked_blocks (upd_log f s) = locked_blocks s" "dirty (upd_log f s) = dirty s" "view (upd_log f s) = view s"
    by (rule bc_cong; simp)+
  show "bc_at a p n F (upd_log f s) = bc_at a p n F s" by (simp add: bc_at_def c(1))
  show "holds_buf p b bn (upd_log f s) = holds_buf p b bn s" by (simp add: holds_buf_def)
qed

lemma set_lh_sel [simp]: "bufs (set_lh f s) = bufs s" "slocks (set_lh f s) = slocks s" "disk (set_lh f s) = disk s"
  "idequeue (set_lh f s) = idequeue s" "ide_error (set_lh f s) = ide_error s" "havedisk1 (set_lh f s) = havedisk1 s"
  "proc_at (set_lh f s) q = proc_at s q" "log (set_lh f s) = (log s)\<lparr>log_lh := f (log_lh (log s))\<rparr>"
  "calm a p n F (set_lh f s) = calm a p n F s" "low s0 (set_lh f s) = low s0 s"
  "bc_inv (set_lh f s) = bc_inv s" "locked_blocks (set_lh f s) = locked_blocks s" "dirty (set_lh f s) = dirty s"
  "view (set_lh f s) = view s" "bc_at a p n F (set_lh f s) = bc_at a p n F s" "holds_buf p b bn (set_lh f s) = holds_buf p b bn s"
  by (simp_all add: set_lh_def)

text \<open>A machine that has just booted: an idle cache, and the place of the log known.\<close>

definition booted :: "8 word \<Rightarrow> nat \<Rightarrow> nat \<Rightarrow> lockid set \<Rightarrow> cuint \<Rightarrow> 'a log_state_scheme \<Rightarrow> bool" where
  "booted a p n F st t \<longleftrightarrow> bc_at a p n F t \<and> locked_blocks t = {} \<and> dirty t = {} \<and> log_dev (log t) = 1 \<and> log_start (log t) = st \<and>
     length (lhb t) = LOGSIZE"

lemma read_head_spec:
  assumes t: "booted a p n F st t" and st: "st < FSSIZE" "sint (get32 0 (disk t 1 st)) \<le> int LOGSIZE"
  shows "\<exists>t'. read_head a t = Inr t' \<and> bc_at a p n F t' \<and> locked_blocks t' = {} \<and> dirty t' = {} \<and> disk t' = disk t \<and>
    log t' = (log t)\<lparr>log_lh := header_of (disk t 1 st) (lhb t)\<rparr>"
proof -
  from t have k: "calm a p n F t" "n < 70" "bc_free F" "bc_inv t" and b: "locked_blocks t = {}" "dirty t = {}" "log_dev (log t) = 1" "log_start (log t) = st"
    by (simp_all add: booted_def bc_at_def)
  have v: "view t st = disk t 1 st" using view_eq_disk[OF k(4)] b by simp
  from bread_spec[OF k st(1)] b(1,2) obtain c s1 where
    s1: "bread a 1 st t = Inr (c, s1)" "calm a p n F s1" "bc_inv s1" "holds_buf p c st s1" "view s1 = view t" "disk s1 = disk t"
      "locked_blocks s1 = {st}" "dirty s1 = {}" "bio_state.more s1 = bio_state.more t" by (auto simp: NBUF_def)
  have dat: "b_data (bufs s1 c) = disk t 1 st" using holds_view(1)[OF s1(3,4)] s1(5) v by simp
  let ?u = "set_lh (\<lambda>lh. header_of (disk t 1 st) (lh_block lh)) s1"
  have u: "calm a p n F ?u" "bc_inv ?u" "holds_buf p c st ?u" "st \<in> dirty ?u \<or> view ?u st = disk ?u 1 st" using s1(2-6) v by simp_all
  from brelse_spec[OF u(1) k(2,3) u(2-4)] obtain s2 where
    s2: "brelse a c ?u = Inr s2" "calm a p n F s2" "bc_inv s2" "disk s2 = disk ?u" "locked_blocks s2 = locked_blocks ?u - {st}" "dirty s2 = dirty ?u"
      "bio_state.more s2 = bio_state.more ?u" by blast
  have "read_head a t = Inr s2" using s1(1) s2(1) dat st(2) b by (simp add: read_head_def Let_def not_less)
  then show ?thesis using s2 s1(6-8) log_more_eq(1)[OF s2(7)] log_more_eq(1)[OF s1(9)] k by (intro exI[of _ s2]) (simp add: bc_at_def)
qed

lemma recover_spec:
  assumes t: "booted a p n F st t" and st: "log_fits st" and hs: "on_disk hs (disk t 1 st)" "length hs < LOGSIZE" "distinct hs"
    "\<forall>h\<in>set hs. h < FSSIZE \<and> h \<notin> log_area st"
  shows "\<exists>t'. recover_from_log a t = Inr t' \<and> bc_at a p n F t' \<and> locked_blocks t' = {} \<and> dirty t' = {} \<and> lhn t' = 0 \<and>
    (\<forall>i<length hs. disk t' 1 (hs ! i) = disk t 1 (lblk st i)) \<and> (\<forall>x. x \<notin> set hs \<longrightarrow> x \<noteq> st \<longrightarrow> disk t' 1 x = disk t 1 x) \<and>
    on_disk [] (disk t' 1 st)"
proof -
  note f = lblk_facts[OF st]
  have n: "get32 0 (disk t 1 st) = of_nat (length hs)" "nat (sint (get32 0 (disk t 1 st))) = length hs" "sint (get32 0 (disk t 1 st)) \<le> int LOGSIZE"
    "length (disk t 1 st) = BSIZE"
    using hs(1,2) by (simp_all add: on_disk_def sint_of_nat32 LOGSIZE_def MAXOPBLOCKS_def)
  from read_head_spec[OF t f(1) n(3)] obtain t1 where
    t1: "read_head a t = Inr t1" "bc_at a p n F t1" "locked_blocks t1 = {}" "dirty t1 = {}" "disk t1 = disk t"
      "log t1 = (log t)\<lparr>log_lh := header_of (disk t 1 st) (lhb t)\<rparr>" by blast
  have l: "log_dev (log t) = 1" "log_start (log t) = st" "length (lhb t) = LOGSIZE" using t by (simp_all add: booted_def)
  note h = header_of_disk[OF hs(1) less_imp_le[OF hs(2)] l(3)]
  have ll: "log_lists hs t1" using h l st hs(2-4) by (simp add: log_lists_def t1(6))
  from install_blocks_spec[OF t1(2,3) ll disjI2[OF t1(4)] order_refl] obtain t2 where
    t2: "foldR (install_block a) [0..<length hs] t1 = Inr t2" "bc_at a p n F t2" "locked_blocks t2 = {}" "dirty t2 = {}"
      "\<forall>i<length hs. disk t2 1 (hs ! i) = disk t 1 (lblk st i)" "\<forall>x. x \<notin> set hs \<longrightarrow> disk t2 1 x = disk t 1 x"
      "bio_state.more t2 = bio_state.more t1"
    using t1(4,5) by (auto simp: t1(6) l(2))
  have lhn: "nat (sint (lhn t1)) = length hs" using n(1,2) by (simp add: t1(6) header_of_def Let_def)
  let ?u = "set_lh (\<lambda>lh. lh\<lparr>lh_n := 0\<rparr>) t2"
  have u: "bc_at a p n F ?u" "locked_blocks ?u = {}" "log_start (log ?u) \<notin> dirty ?u" "card (dirty ?u) < NBUF" "log_dev (log ?u) = 1"
    "log_start (log ?u) < FSSIZE" "sint (lhn ?u) \<le> int LOGSIZE" "log_start (log ?u) = st"
    using t2(2-4) f(1) l log_more_eq(1)[OF t2(7)] by (simp_all add: t1(6) NBUF_def)
  from write_head_spec[OF u(1-7)] obtain t3 where
    t3: "write_head a ?u = Inr t3" "bc_at a p n F t3" "locked_blocks t3 = {}" "dirty t3 = {}"
      "disk t3 = (disk t2)(1 := (disk t2 1)(st := put_header ((log_lh (log t2))\<lparr>lh_n := 0\<rparr>) (disk t2 1 st)))"
      "bio_state.more t3 = bio_state.more ?u" using t2(4) u(8) by auto
  have "recover_from_log a t = Inr t3" using t1(1) t2(1) t3(1) lhn by (simp add: recover_from_log_def install_trans_def)
  moreover have nst: "st \<notin> set hs" using hs(4) f(6) by auto
  have "length (disk t2 1 st) = BSIZE" using t2(6) nst n(4) by simp
  then have "on_disk [] (disk t3 1 st)" using t3(5) put_header_empty by simp
  moreover have "hs ! i \<noteq> st" if "i < length hs" for i using nst that nth_mem by metis
  ultimately show ?thesis using t3 t2(5,6) log_more_eq(1)[OF t3(6)] by (intro exI[of _ t3]) simp
qed

subsection \<open>Crashes during a commit\<close>

text \<open>
  A commit that stops after \<open>k\<close> steps.  Each step -- a log block, the header, a home block, the
  header again -- writes one block of the disk, so these are all the states of the disk during
  the commit of \<open>n\<close> blocks; after \<open>2 * n + 2\<close> steps it is complete.
\<close>

definition commit_upto :: "8 word \<Rightarrow> nat \<Rightarrow> 'a log_state_scheme \<Rightarrow> 'a log_state_scheme res" where
  "commit_upto a k s =
     (let n = nat (sint (lhn s)) in
      bindR (foldR (write_block a) [0..<min k n] s) (\<lambda>s1.
      if k \<le> n then Inr s1
      else
        bindR (write_head a s1) (\<lambda>s2.
        bindR (foldR (install_block a) [0..<min (k - n - 1) n] s2) (\<lambda>s3.
        if k \<le> 2 * n + 1 then Inr s3
        else write_head a (set_lh (\<lambda>lh. lh\<lparr>lh_n := 0\<rparr>) s3)))))"

text \<open>A transaction ready to commit: its blocks are dirty in the cache, and the log on the disk is empty.\<close>

definition ready :: "8 word \<Rightarrow> nat \<Rightarrow> nat \<Rightarrow> lockid set \<Rightarrow> cuint list \<Rightarrow> 'a log_state_scheme \<Rightarrow> bool" where
  "ready a p n F hs s \<longleftrightarrow> bc_at a p n F s \<and> locked_blocks s = {} \<and> log_lists hs s \<and> hs \<noteq> [] \<and> dirty s = set hs \<and>
     on_disk [] (disk s 1 (log_start (log s)))"

lemma readyD:
  assumes "ready a p n F hs s"
  defines "st \<equiv> log_start (log s)"
  shows "bc_at a p n F s" "locked_blocks s = {}" "log_lists hs s" "dirty s = set hs" "log_fits st" "nat (sint (lhn s)) = length hs" "st \<notin> set hs"
    "card (dirty s) < NBUF" "sint (lhn s) \<le> int LOGSIZE" "log_dev (log s) = 1" "length (disk s 1 st) = BSIZE" "on_disk [] (disk s 1 st)"
    "x \<notin> set hs \<Longrightarrow> view s x = disk s 1 x"
proof -
  show k: "bc_at a p n F s" "locked_blocks s = {}" "log_lists hs s" "dirty s = set hs" "on_disk [] (disk s 1 st)" using assms(1) by (simp_all add: ready_def st_def)
  have l: "length hs < LOGSIZE" "lhn s = of_nat (length hs)" using k(3) by (simp_all add: log_lists_def)
  show "nat (sint (lhn s)) = length hs" "sint (lhn s) \<le> int LOGSIZE" using l by (simp_all add: sint_of_nat32 LOGSIZE_def MAXOPBLOCKS_def)
  show f: "log_fits st" using k(3) by (simp add: log_lists_def st_def)
  show "st \<notin> set hs" using k(3) lblk_facts(6)[OF f] by (auto simp: log_lists_def st_def)
  show "card (dirty s) < NBUF" using k(4) card_length[of hs] l(1) by (simp add: LOGSIZE_def MAXOPBLOCKS_def NBUF_def)
  show "log_dev (log s) = 1" using k(3) by (simp add: log_lists_def)
  show "length (disk s 1 st) = BSIZE" using k(5) by (simp add: on_disk_def)
  show "x \<notin> set hs \<Longrightarrow> view s x = disk s 1 x" using view_eq_disk[of s x] k(1,2,4) by (simp add: bc_at_def)
qed

text \<open>The log is written, then the header: from here on the transaction counts.\<close>

lemma log_written:
  assumes "ready a p n F hs s"
  defines "st \<equiv> log_start (log s)"
  shows "\<exists>s1 s2. foldR (write_block a) [0..<length hs] s = Inr s1 \<and> write_head a s1 = Inr s2 \<and> bc_at a p n F s2 \<and> locked_blocks s2 = {} \<and>
    log_lists hs s2 \<and> dirty s2 = set hs \<and> on_disk hs (disk s2 1 st) \<and> (\<forall>i<length hs. disk s2 1 (lblk st i) = view s (hs ! i)) \<and>
    (\<forall>x. x \<notin> log_area st \<longrightarrow> disk s2 1 x = disk s 1 x \<and> view s2 x = view s x) \<and> log s1 = log s \<and> log s2 = log s"
proof -
  note r = readyD[OF assms(1)] and f = lblk_facts[OF readyD(5)[OF assms(1)]]
  have hl: "i < LOGSIZE" if "i < length hs" for i using that r(3) by (simp add: log_lists_def)
  from write_blocks_spec[OF r(1-4) order_refl] obtain s1 where
    s1: "foldR (write_block a) [0..<length hs] s = Inr s1" "bc_at a p n F s1" "locked_blocks s1 = {}" "dirty s1 = dirty s"
      "\<forall>i<length hs. disk s1 1 (lblk st i) = view s (hs ! i)" "\<forall>x. x \<notin> lblk st ` {..<length hs} \<longrightarrow> disk s1 1 x = disk s 1 x"
      "\<forall>x. x \<notin> lblk st ` {..<length hs} \<longrightarrow> view s1 x = view s x" "bio_state.more s1 = bio_state.more s" unfolding st_def by blast
  note lg = log_more_eq(1)[OF s1(8)]
  have out: "x \<notin> lblk st ` {..<length hs}" if "x \<notin> log_area st \<or> x = st" for x using that f(3,5) hl by (fastforce simp: st_def)
  have d1: "length (disk s1 1 st) = BSIZE" using s1(6) out r(11) by (simp add: st_def)
  have pre: "log_start (log s1) \<notin> dirty s1" "card (dirty s1) < NBUF" "log_dev (log s1) = 1" "log_start (log s1) < FSSIZE" "sint (lhn s1) \<le> int LOGSIZE"
    using lg r(4,7-10) s1(4) f(1) by (simp_all add: st_def)
  from write_head_spec[OF s1(2,3) pre] obtain s2 where
    s2: "write_head a s1 = Inr s2" "bc_at a p n F s2" "locked_blocks s2 = {}" "dirty s2 = dirty s1" "view s2 = (view s1)(st := put_header (log_lh (log s)) (disk s1 1 st))"
      "disk s2 = (disk s1)(1 := (disk s1 1)(st := put_header (log_lh (log s)) (disk s1 1 st)))" "bio_state.more s2 = bio_state.more s1"
    unfolding lg st_def by blast
  note lg2 = log_more_eq(1)[OF s2(7)]
  have ll: "log_lists hs s2" using r(3) lg lg2 by (simp add: log_lists_def)
  have od: "on_disk hs (disk s2 1 st)" using put_header_on_disk[OF r(3) d1] s2(6) by simp
  have ls: "\<forall>i<length hs. disk s2 1 (lblk st i) = view s (hs ! i)" using s1(5) s2(6) f(3) hl by (simp add: st_def)
  have ot: "\<forall>x. x \<notin> log_area st \<longrightarrow> disk s2 1 x = disk s 1 x \<and> view s2 x = view s x"
  proof (intro allI impI)
    fix x assume x: "x \<notin> log_area st"
    then have "x \<noteq> st" using f(6) by (auto simp: st_def)
    then show "disk s2 1 x = disk s 1 x \<and> view s2 x = view s x" using x out[of x] s1(6,7) s2(5,6) by simp
  qed
  show ?thesis using s1(1,4) s2(1-4) ll od ls ot r(4) lg lg2 by (intro exI[of _ s1] exI[of _ s2]) simp
qed

lemma commit_before:
  assumes "ready a p n F hs s" and k: "k \<le> length hs"
  defines "st \<equiv> log_start (log s)"
  shows "\<exists>s1. commit_upto a k s = Inr s1 \<and> on_disk [] (disk s1 1 st) \<and> (\<forall>x. x \<notin> log_area st \<longrightarrow> disk s1 1 x = disk s 1 x)"
proof -
  note r = readyD[OF assms(1)] and f = lblk_facts[OF readyD(5)[OF assms(1)]]
  from write_blocks_spec[OF r(1-4) k] obtain s1 where
    s1: "foldR (write_block a) [0..<k] s = Inr s1" "\<forall>x. x \<notin> lblk st ` {..<k} \<longrightarrow> disk s1 1 x = disk s 1 x" unfolding st_def by blast
  have kl: "k \<le> LOGSIZE" using k r(3) by (simp add: log_lists_def)
  have "st \<notin> lblk st ` {..<k}" unfolding st_def using f(3) kl by (metis imageE lessThan_iff order_less_le_trans)
  moreover have "x \<notin> lblk st ` {..<k}" if "x \<notin> log_area st" for x using f(5) kl that unfolding st_def by (metis imageE lessThan_iff order_less_le_trans)
  ultimately show ?thesis using s1 r(6,12) k by (intro exI[of _ s1]) (simp add: commit_upto_def st_def Let_def min_def)
qed

lemma install_part:
  assumes "ready a p n F hs s" and k: "k \<le> length hs"
  defines "st \<equiv> log_start (log s)"
  shows "\<exists>s1 s2 s3. foldR (write_block a) [0..<length hs] s = Inr s1 \<and> write_head a s1 = Inr s2 \<and> log s1 = log s \<and> log s2 = log s \<and>
    foldR (install_block a) [0..<k] s2 = Inr s3 \<and> bc_at a p n F s3 \<and> locked_blocks s3 = {} \<and> dirty s3 = set hs - set (take k hs) \<and> log s3 = log s \<and>
    on_disk hs (disk s3 1 st) \<and> (\<forall>i<length hs. disk s3 1 (lblk st i) = view s (hs ! i)) \<and>
    (\<forall>i<k. disk s3 1 (hs ! i) = view s (hs ! i)) \<and> (\<forall>x. x \<notin> log_area st \<longrightarrow> x \<notin> set hs \<longrightarrow> disk s3 1 x = disk s 1 x) \<and>
    (\<forall>x. x \<notin> log_area st \<longrightarrow> view s3 x = view s x)"
proof -
  note r = readyD[OF assms(1)] and f = lblk_facts[OF readyD(5)[OF assms(1)]]
  from log_written[OF assms(1)] obtain s1 s2 where
    s2: "foldR (write_block a) [0..<length hs] s = Inr s1" "write_head a s1 = Inr s2" "bc_at a p n F s2" "locked_blocks s2 = {}"
      "log_lists hs s2" "dirty s2 = set hs" "on_disk hs (disk s2 1 st)" "\<forall>i<length hs. disk s2 1 (lblk st i) = view s (hs ! i)"
      "\<forall>x. x \<notin> log_area st \<longrightarrow> disk s2 1 x = disk s 1 x \<and> view s2 x = view s x" "log s1 = log s" "log s2 = log s" unfolding st_def by blast
  from install_blocks_spec[OF s2(3-5) disjI1[OF s2(6)] k] obtain s3 where
    s3: "foldR (install_block a) [0..<k] s2 = Inr s3" "bc_at a p n F s3" "locked_blocks s3 = {}" "dirty s3 = dirty s2 - set (take k hs)"
      "\<forall>i<k. disk s3 1 (hs ! i) = disk s2 1 (lblk st i) \<and> view s3 (hs ! i) = disk s2 1 (lblk st i)"
      "\<forall>x. x \<notin> set (take k hs) \<longrightarrow> disk s3 1 x = disk s2 1 x \<and> view s3 x = view s2 x" "bio_state.more s3 = bio_state.more s2"
    unfolding s2(11) st_def by blast
  have tk: "x \<in> set hs" if "x \<in> set (take k hs)" for x using that by (rule in_set_takeD)
  have home: "x \<notin> log_area st" if "x \<in> set hs" for x using r(3) that by (simp add: log_lists_def st_def)
  have hl: "length hs < LOGSIZE" using r(3) by (simp add: log_lists_def)
  have ar: "st \<notin> set (take k hs)" using tk home f(6) unfolding st_def by blast
  have ar2: "lblk st i \<notin> set (take k hs)" if "i < length hs" for i
    using tk home f(5)[OF less_trans[OF that hl]] unfolding st_def by blast
  have "on_disk hs (disk s3 1 st)" using s3(6) ar s2(7) by simp
  moreover have "\<forall>i<length hs. disk s3 1 (lblk st i) = view s (hs ! i)" using s3(6) ar2 s2(8) by simp
  moreover have "\<forall>i<k. disk s3 1 (hs ! i) = view s (hs ! i)" using s3(5) s2(8) k by simp
  moreover have "\<forall>x. x \<notin> log_area st \<longrightarrow> x \<notin> set hs \<longrightarrow> disk s3 1 x = disk s 1 x" using s3(6) s2(9) tk by metis
  moreover have "\<forall>x. x \<notin> log_area st \<longrightarrow> view s3 x = view s x"
  proof (intro allI impI)
    fix x assume x: "x \<notin> log_area st"
    show "view s3 x = view s x"
    proof (cases "x \<in> set (take k hs)")
      case True
      then obtain i where "i < k" "x = hs ! i" using k by (auto simp: in_set_conv_nth)
      then show ?thesis using s3(5) s2(8) k by simp
    qed (use s3(6) s2(9) x in simp)
  qed
  ultimately show ?thesis using s2(1,2,6,10,11) s3(1-4) log_more_eq(1)[OF s3(7)]
    by (intro exI[of _ s1] exI[of _ s2] exI[of _ s3]) simp
qed

lemma commit_after:
  assumes "ready a p n F hs s"
  defines "st \<equiv> log_start (log s)"
  shows "\<exists>s4. commit_upto a (2 * length hs + 2) s = Inr s4 \<and> commit a s = Inr s4 \<and> bc_at a p n F s4 \<and> locked_blocks s4 = {} \<and> dirty s4 = {} \<and>
    log s4 = (log s)\<lparr>log_lh := (log_lh (log s))\<lparr>lh_n := 0\<rparr>\<rparr> \<and> on_disk [] (disk s4 1 st) \<and> (\<forall>x. x \<notin> log_area st \<longrightarrow> disk s4 1 x = view s x \<and> view s4 x = view s x)"
proof -
  note r = readyD[OF assms(1)] and f = lblk_facts[OF readyD(5)[OF assms(1)]]
  from install_part[OF assms(1) order_refl] obtain s1 s2 s3 where
    s3: "foldR (write_block a) [0..<length hs] s = Inr s1" "write_head a s1 = Inr s2" "log s1 = log s" "log s2 = log s"
      "foldR (install_block a) [0..<length hs] s2 = Inr s3" "bc_at a p n F s3" "locked_blocks s3 = {}" "dirty s3 = {}" "log s3 = log s"
      "on_disk hs (disk s3 1 st)" "\<forall>i<length hs. disk s3 1 (hs ! i) = view s (hs ! i)"
      "\<forall>x. x \<notin> log_area st \<longrightarrow> x \<notin> set hs \<longrightarrow> disk s3 1 x = disk s 1 x" "\<forall>x. x \<notin> log_area st \<longrightarrow> view s3 x = view s x"
    unfolding st_def by auto
  let ?u = "set_lh (\<lambda>lh. lh\<lparr>lh_n := 0\<rparr>) s3"
  have u: "bc_at a p n F ?u" "locked_blocks ?u = {}" "log_start (log ?u) \<notin> dirty ?u" "card (dirty ?u) < NBUF" "log_dev (log ?u) = 1"
    "log_start (log ?u) < FSSIZE" "sint (lhn ?u) \<le> int LOGSIZE" "log_start (log ?u) = st"
    using s3(6-9) f(1) r(10) by (simp_all add: NBUF_def st_def)
  from write_head_spec[OF u(1-7), unfolded u(8)] obtain s4 where
    s4: "write_head a ?u = Inr s4" "bc_at a p n F s4" "locked_blocks s4 = {}" "dirty s4 = dirty ?u"
      "view s4 = (view ?u)(st := put_header (log_lh (log ?u)) (disk ?u 1 st))"
      "disk s4 = (disk ?u)(1 := (disk ?u 1)(st := put_header (log_lh (log ?u)) (disk ?u 1 st)))" "bio_state.more s4 = bio_state.more ?u" by blast
  have "0 < sint (lhn s)" using r(6) assms(1) by (cases "0 < sint (lhn s)") (simp_all add: ready_def)
  then have "commit a s = Inr s4"
    using s3(1,2,5) s4(1) s3(3,4) r(6) by (simp add: commit_def write_log_def install_trans_def)
  moreover have "commit_upto a (2 * length hs + 2) s = Inr s4"
    using s3(1,2,5) s4(1) r(6) by (simp add: commit_upto_def Let_def min_def)
  moreover have "on_disk [] (disk s4 1 st)" using s4(6) s3(10) put_header_empty by (simp add: on_disk_def)
  moreover have "\<forall>x. x \<notin> log_area st \<longrightarrow> disk s4 1 x = view s x \<and> view s4 x = view s x"
  proof (intro allI impI)
    fix x assume x: "x \<notin> log_area st"
    then have "x \<noteq> st" using f(6) by (auto simp: st_def)
    then have e: "disk s4 1 x = disk s3 1 x" "view s4 x = view s3 x" using s4(5,6) by simp_all
    have "disk s3 1 x = view s x"
    proof (cases "x \<in> set hs")
      case True
      then show ?thesis using s3(11) by (metis in_set_conv_nth)
    qed (use s3(12) x r(13) in simp)
    then show "disk s4 1 x = view s x \<and> view s4 x = view s x" using e s3(13) x by simp
  qed
  moreover have "log s4 = (log s)\<lparr>log_lh := (log_lh (log s))\<lparr>lh_n := 0\<rparr>\<rparr>" "dirty s4 = {}"
    using log_more_eq(1)[OF s4(7)] s4(4) s3(8,9) by simp_all
  ultimately show ?thesis using s4(2,3) by blast
qed

lemma commit_during:
  assumes "ready a p n F hs s" and k: "length hs < k" "k \<le> 2 * length hs + 1"
  defines "st \<equiv> log_start (log s)"
  shows "\<exists>s1. commit_upto a k s = Inr s1 \<and> on_disk hs (disk s1 1 st) \<and> (\<forall>i<length hs. disk s1 1 (lblk st i) = view s (hs ! i)) \<and>
    (\<forall>x. x \<notin> log_area st \<longrightarrow> x \<notin> set hs \<longrightarrow> disk s1 1 x = disk s 1 x)"
proof -
  have j: "k - length hs - 1 \<le> length hs" using k by simp
  from install_part[OF assms(1) j] obtain s1 s2 s3 where
    s3: "foldR (write_block a) [0..<length hs] s = Inr s1" "write_head a s1 = Inr s2"
      "foldR (install_block a) [0..<k - length hs - 1] s2 = Inr s3" "on_disk hs (disk s3 1 st)"
      "\<forall>i<length hs. disk s3 1 (lblk st i) = view s (hs ! i)" "\<forall>x. x \<notin> log_area st \<longrightarrow> x \<notin> set hs \<longrightarrow> disk s3 1 x = disk s 1 x"
    unfolding st_def by blast
  have "commit_upto a k s = Inr s3"
    using s3(1-3) k readyD(6)[OF assms(1)] by (simp add: commit_upto_def Let_def min_def)
  then show ?thesis using s3(4-6) by blast
qed

text \<open>
  C2. Transactions are atomic under crashes.  A commit with any number of changed blocks may stop
  after any of its disk writes; it gets that far without a panic, and with the last of them it is
  the whole of \<open>commit\<close>.  The machine then boots with the disk it left, and recovery succeeds.  Outside the log the disk is then exactly what it was
  before the transaction, if the header had not been written, and otherwise every block has
  the contents the transaction gave it.
\<close>

theorem commit_crash_atomic:
  assumes "ready a p n F hs s" and "k \<le> 2 * length hs + 2" and "booted a' p' n' F' (log_start (log s)) t"
  shows "\<exists>s1. commit_upto a k s = Inr s1 \<and> (if k = 2 * length hs + 2 then commit a s = Inr s1 else True) \<and>
    (disk t 1 = disk s1 1 \<longrightarrow> (\<exists>t'. recover_from_log a' t = Inr t' \<and>
      (\<forall>x. x \<notin> log_area (log_start (log s)) \<longrightarrow> disk t' 1 x = (if k \<le> length hs then disk s 1 x else view s x))))"
proof -
  let ?st = "log_start (log s)"
  note r = readyD[OF assms(1)] and rec = recover_spec[OF assms(3) readyD(5)[OF assms(1)]] and f = lblk_facts[OF readyD(5)[OF assms(1)]]
  have hs: "length hs < LOGSIZE" "distinct hs" "\<forall>h\<in>set hs. h < FSSIZE \<and> h \<notin> log_area ?st" using r(3) by (simp_all add: log_lists_def)
  have nst: "x \<noteq> ?st" if "x \<notin> log_area ?st" for x using that f(6) by auto
  consider "k \<le> length hs" | "length hs < k" "k \<le> 2 * length hs + 1" | "k = 2 * length hs + 2" using assms(2) by linarith
  then show ?thesis
  proof cases
    case 1
    from commit_before[OF assms(1) 1] obtain s1 where s1: "commit_upto a k s = Inr s1" "on_disk [] (disk s1 1 ?st)"
      "\<forall>x. x \<notin> log_area ?st \<longrightarrow> disk s1 1 x = disk s 1 x" by blast
    then show ?thesis using rec[of "[]"] 1 nst by (intro exI[of _ s1]) (auto simp: LOGSIZE_def MAXOPBLOCKS_def)
  next
    case 2
    from commit_during[OF assms(1) 2] obtain s1 where s1: "commit_upto a k s = Inr s1" "on_disk hs (disk s1 1 ?st)"
      "\<forall>i<length hs. disk s1 1 (lblk ?st i) = view s (hs ! i)"
      "\<forall>x. x \<notin> log_area ?st \<longrightarrow> x \<notin> set hs \<longrightarrow> disk s1 1 x = disk s 1 x" by blast
    have "\<exists>t'. recover_from_log a' t = Inr t' \<and> (\<forall>x. x \<notin> log_area ?st \<longrightarrow> disk t' 1 x = view s x)" if d: "disk t 1 = disk s1 1"
    proof -
      from rec[of hs] s1(2) d hs obtain t' where t': "recover_from_log a' t = Inr t'"
        "\<forall>i<length hs. disk t' 1 (hs ! i) = disk t 1 (lblk ?st i)" "\<forall>x. x \<notin> set hs \<longrightarrow> x \<noteq> ?st \<longrightarrow> disk t' 1 x = disk t 1 x" by auto
      have "disk t' 1 x = view s x" if x: "x \<notin> log_area ?st" for x
      proof (cases "x \<in> set hs")
        case True
        then obtain i where "i < length hs" "x = hs ! i" by (auto simp: in_set_conv_nth)
        then show ?thesis using t'(2) s1(3) d by simp
      qed (use t'(3) nst[OF x] s1(4) x d r(13) in simp)
      then show ?thesis using t'(1) by blast
    qed
    then show ?thesis using s1(1) 2 by (intro exI[of _ s1]) auto
  next
    case 3
    from commit_after[OF assms(1)] obtain s1 where s1: "commit_upto a (2 * length hs + 2) s = Inr s1" "commit a s = Inr s1" "on_disk [] (disk s1 1 ?st)"
      "\<forall>x. x \<notin> log_area ?st \<longrightarrow> disk s1 1 x = view s x \<and> view s1 x = view s x" by blast
    then show ?thesis using rec[of "[]"] 3 nst by (intro exI[of _ s1]) (auto simp: LOGSIZE_def MAXOPBLOCKS_def)
  qed
qed

subsection \<open>A whole transaction\<close>

definition add_home :: "cuint \<Rightarrow> cuint list \<Rightarrow> cuint list" where
  "add_home bn hs = (if bn \<in> set hs then hs else hs @ [bn])"

lemma log_slot:
  assumes "log_lists hs s" and "length hs < LOGSIZE - 1" and "bn < FSSIZE" and "bn \<notin> log_area (log_start (log s))"
  defines "i \<equiv> (case List.find (\<lambda>i. lhb s ! i = bn) [0..<length hs] of Some i \<Rightarrow> i | None \<Rightarrow> length hs)"
  assumes "log_dev (log s') = 1" and "log_start (log s') = log_start (log s)" and "lhb s' = (lhb s)[i := bn]"
    and "lhn s' = (if i = length hs then lhn s + 1 else lhn s)"
  shows "log_lists (add_home bn hs) s'"
proof -
  have l: "take (length hs) (lhb s) = hs" "length (lhb s) = LOGSIZE" "lhn s = of_nat (length hs)" "log_fits (log_start (log s))" "distinct hs"
    "\<forall>h\<in>set hs. h < FSSIZE \<and> h \<notin> log_area (log_start (log s))" using assms(1) by (simp_all add: log_lists_def)
  have n: "lhb s ! j = hs ! j" if "j < length hs" for j using log_listsD(7)[OF assms(1) that] .
  show ?thesis
  proof (cases "bn \<in> set hs")
    case True
    then obtain j where j: "j < length hs" "hs ! j = bn" by (auto simp: in_set_conv_nth)
    then obtain k where k: "List.find (\<lambda>i. lhb s ! i = bn) [0..<length hs] = Some k"
      using n by (cases "List.find (\<lambda>i. lhb s ! i = bn) [0..<length hs]") (auto simp: find_None_iff)
    have "k < length hs" "lhb s ! k = bn" using find_SomeD[OF k] by simp_all
    moreover have "i = k" by (simp add: i_def k)
    moreover have "(lhb s)[k := bn] = lhb s" using \<open>lhb s ! k = bn\<close> list_update_id by metis
    ultimately show ?thesis using True l assms(2,6-9) by (simp add: log_lists_def add_home_def)
  next
    case False
    have "List.find (\<lambda>i. lhb s ! i = bn) [0..<length hs] = None" using False n by (auto simp: find_None_iff)
    then have "i = length hs" by (simp add: i_def)
    then show ?thesis using False l assms(2-4,6-9) by (simp add: log_lists_def add_home_def take_Suc_conv_app_nth)
  qed
qed

text \<open>The state inside a transaction.\<close>

definition in_tx :: "8 word \<Rightarrow> nat \<Rightarrow> nat \<Rightarrow> lockid set \<Rightarrow> cuint list \<Rightarrow> 'a log_state_scheme \<Rightarrow> bool" where
  "in_tx a p n F hs s \<longleftrightarrow> bc_at a p n F s \<and> L_log \<notin> F \<and> log_lists hs s \<and> dirty s = set hs \<and>
     on_disk [] (disk s 1 (log_start (log s))) \<and> log_outstanding (log s) = 1 \<and> log_committing (log s) = 0 \<and> log_size (log s) = of_nat LOGSIZE"

lemma log_write_spec:
  assumes s: "in_tx a p n F hs s" "holds_buf p b bn s" "length hs < LOGSIZE - 1" "bn \<notin> log_area (log_start (log s))"
  shows "\<exists>s'. log_write a b s = Inr s' \<and> in_tx a p n F (add_home bn hs) s' \<and> holds_buf p b bn s' \<and> view s' = view s \<and> disk s' = disk s \<and>
    locked_blocks s' = locked_blocks s \<and> log_start (log s') = log_start (log s)"
proof -
  from s(1) have k: "calm a p n F s" "n < 70" "bc_free F" "bc_inv s" "L_log \<notin> F" and l: "log_lists hs s" "log_outstanding (log s) = 1"
    "log_size (log s) = of_nat LOGSIZE" "dirty s = set hs" by (simp_all add: in_tx_def bc_at_def)
  note hv = holds_view[OF k(4) s(2)]
  have nl: "nat (sint (lhn s)) = length hs" "sint (lhn s) = int (length hs)" using l(1) by (simp_all add: log_lists_def sint_of_nat32 LOGSIZE_def MAXOPBLOCKS_def)
  have sz: "sint (log_size (log s) - 1) = 29" "int LOGSIZE = 30" using l(3) by (simp_all add: LOGSIZE_def MAXOPBLOCKS_def)
  from acquire_calm[OF k(1) _ k(5)] k(2) obtain s1 where
    s1: "acquire a L_log s = Inr s1" "calm a p (Suc n) (insert L_log F) s1" "machine.more s1 = machine.more s" by auto
  note m1 = machine_bio[OF s1(3)] and lg1 = log_more_eq(1)[OF machine_bio(9)[OF s1(3)]]
  have bnb: "b_blockno (bufs s b) = bn" "b_flags (bufs s b) OR B_DIRTY = 6"
    using s(2) k(4) by (auto simp: holds_buf_def for_block_def bc_inv_def buf_ok_def unlocked_def flag_defs)
  define i where "i = (case List.find (\<lambda>i. lhb s ! i = bn) [0..<length hs] of Some i \<Rightarrow> i | None \<Rightarrow> length hs)"
  let ?g = "\<lambda>lh. lh\<lparr>lh_block := (lh_block lh)[i := bn]\<rparr>"
  define s3 where "s3 = (if i = length hs then set_lh (\<lambda>lh. lh\<lparr>lh_n := lh_n lh + 1\<rparr>) (set_lh ?g s1) else set_lh ?g s1)"
  define s4 where "s4 = b_upd b (\<lambda>B. B\<lparr>b_flags := b_flags B OR B_DIRTY\<rparr>) s3"
  have e3: "bufs s3 = bufs s" "slocks s3 = slocks s" "disk s3 = disk s" "idequeue s3 = idequeue s" "ide_error s3 = ide_error s" "havedisk1 s3 = havedisk1 s"
    "proc_at s3 q = proc_at s q" "calm a p (Suc n) (insert L_log F) s3" for q
    using m1 s1(2) by (simp_all add: s3_def)
  have g3: "log_dev (log s3) = log_dev (log s)" "log_start (log s3) = log_start (log s)" "lhb s3 = (lhb s)[i := bn]"
    "lhn s3 = (if i = length hs then lhn s + 1 else lhn s)" "log_outstanding (log s3) = log_outstanding (log s)"
    "log_committing (log s3) = log_committing (log s)" "log_size (log s3) = log_size (log s)" using lg1 by (simp_all add: s3_def)
  have c4: "calm a p (Suc n) (insert L_log F) s4" using e3(8) by (simp add: s4_def)
  have lg4: "log s4 = log s3" by (simp add: s4_def b_upd_def)
  have fin: "insert L_log F - {L_log} = F" using k(5) by auto
  from release_calm[OF c4, of L_log] k(2) fin obtain s5 where
    s5: "release a L_log s4 = Inr s5" "calm a p n F s5" "machine.more s5 = machine.more s4" by auto
  note m5 = machine_bio[OF s5(3)] and lg5 = log_more_eq(1)[OF machine_bio(9)[OF s5(3)]]
  have bs: "bufs s5 = (bufs s)(b := (bufs s b)\<lparr>b_flags := 6\<rparr>)" using m5(2) e3(1) bnb(2) by (simp add: s4_def)
  have "log_write a b s = Inr s5"
    using nl sz s(3) l(2) s1(1) s5(1)[unfolded s4_def s3_def] lg1 m1(2) bnb(1)
    by (cases "i = length hs") (simp_all add: log_write_def Let_def i_def[symmetric] LOGSIZE_def MAXOPBLOCKS_def cong: option.case_cong)
  moreover have "bc_inv s5 \<and> (\<forall>c x. holds_buf p c x s \<longrightarrow> holds_buf p c x s5) \<and> view s5 = (view s)(bn := b_data ((bufs s b)\<lparr>b_flags := 6\<rparr>)) \<and> locked_blocks s5 = locked_blocks s \<and>
    dirty s5 = (if b_flags ((bufs s b)\<lparr>b_flags := 6\<rparr>) = 6 then insert bn (dirty s) else dirty s - {bn})"
    by (rule change_spec[OF k(4) s(2) bs]) (use m5 e3 k(4) in \<open>simp_all add: s4_def bc_inv_def\<close>)
  moreover have "log_lists (add_home bn hs) s5"
    using log_slot[OF l(1) s(3) hv(3) s(4), folded i_def, of s5] g3 lg4 lg5 log_listsD(1) l(1) by (simp add: log_lists_def)
  moreover have "insert bn (dirty s) = set (add_home bn hs)" using l(4) by (auto simp: add_home_def)
  moreover have "disk s5 = disk s" using m5(8) e3(3) by (simp add: s4_def)
  ultimately show ?thesis using s(1,2) s5(2) hv(1) k lg4 lg5 g3 by (intro exI[of _ s5]) (simp add: in_tx_def bc_at_def)
qed

text \<open>One change of a block inside a transaction, and a transaction that makes a list of changes.\<close>

definition tx_write :: "8 word \<Rightarrow> cuint \<times> block \<Rightarrow> 'a log_state_scheme \<Rightarrow> 'a log_state_scheme res" where
  "tx_write a w s = bindR (bread a 1 (fst w) s) (\<lambda>(b, s1). bindR (log_write a b (put_data b (snd w) s1)) (brelse a b))"

definition transaction :: "8 word \<Rightarrow> (cuint \<times> block) list \<Rightarrow> 'a log_state_scheme \<Rightarrow> 'a log_state_scheme res" where
  "transaction a ws s = bindR (begin_op a s) (\<lambda>s1. bindR (foldR (tx_write a) ws s1) (end_op a))"

definition apply_writes :: "(cuint \<times> block) list \<Rightarrow> (cuint \<Rightarrow> block) \<Rightarrow> cuint \<Rightarrow> block" where
  "apply_writes ws f = fold (\<lambda>(bn, d) f. f(bn := d)) ws f"

lemma tx_card: "in_tx a p n F hs s \<Longrightarrow> card (dirty s) < NBUF"
  using card_length[of hs] by (simp add: in_tx_def log_lists_def LOGSIZE_def MAXOPBLOCKS_def NBUF_def)

lemma tx_write_spec:
  assumes s: "in_tx a p n F hs s" "locked_blocks s = {}" "length hs < LOGSIZE - 1" "fst w < FSSIZE" "fst w \<notin> log_area (log_start (log s))"
  shows "\<exists>s'. tx_write a w s = Inr s' \<and> in_tx a p n F (add_home (fst w) hs) s' \<and> locked_blocks s' = {} \<and> view s' = (view s)(fst w := snd w) \<and>
    log_start (log s') = log_start (log s)"
proof -
  from s(1) have k: "calm a p n F s" "n < 70" "bc_free F" "bc_inv s" by (simp_all add: in_tx_def bc_at_def)
  from bread_spec[OF k s(4)] s(2) tx_card[OF s(1)] obtain b s1 where
    s1: "bread a 1 (fst w) s = Inr (b, s1)" "calm a p n F s1" "bc_inv s1" "holds_buf p b (fst w) s1" "view s1 = view s" "disk s1 = disk s"
      "locked_blocks s1 = {fst w}" "dirty s1 = dirty s" "bio_state.more s1 = bio_state.more s" by auto
  let ?t = "put_data b (snd w) s1"
  have t: "bc_inv ?t" "holds_buf p b (fst w) ?t" "view ?t = (view s1)(fst w := snd w)" "locked_blocks ?t = locked_blocks s1" "dirty ?t = dirty s1"
    using put_data_spec[OF s1(3,4), of "snd w"] s1(4) by blast+
  have lt: "log ?t = log s" using log_more_eq(1)[of ?t s1] log_more_eq(1)[OF s1(9)] by simp
  have it: "in_tx a p n F hs ?t" using s(1) t(1,5) s1(2,6,8) lt by (simp add: in_tx_def bc_at_def log_lists_def)
  from log_write_spec[OF it t(2) s(3)] s(5) lt obtain s2 where
    s2: "log_write a b ?t = Inr s2" "in_tx a p n F (add_home (fst w) hs) s2" "holds_buf p b (fst w) s2" "view s2 = view ?t" "disk s2 = disk ?t"
      "locked_blocks s2 = locked_blocks ?t" "log_start (log s2) = log_start (log s)" by auto
  have i2: "calm a p n F s2" "bc_inv s2" "dirty s2 = set (add_home (fst w) hs)" using s2(2) by (simp_all add: in_tx_def bc_at_def)
  have "fst w \<in> dirty s2 \<or> view s2 (fst w) = disk s2 1 (fst w)" using i2(3) by (simp add: add_home_def)
  from brelse_spec[OF i2(1) k(2,3) i2(2) s2(3) this] obtain s3 where
    s3: "brelse a b s2 = Inr s3" "calm a p n F s3" "bc_inv s3" "view s3 = view s2" "disk s3 = disk s2" "locked_blocks s3 = locked_blocks s2 - {fst w}"
      "dirty s3 = dirty s2" "bio_state.more s3 = bio_state.more s2" by blast
  have "tx_write a w s = Inr s3" using s1(1) s2(1) s3(1) by (simp add: tx_write_def)
  moreover have "in_tx a p n F (add_home (fst w) hs) s3"
    using s2(2) s3(2,3,5,7) log_more_eq(1)[OF s3(8)] by (simp add: in_tx_def bc_at_def log_lists_def)
  moreover have "locked_blocks s3 = {}" "view s3 = (view s)(fst w := snd w)" using s3(4,6) s2(4,6) t(3,4) s1(5,7) by simp_all
  ultimately show ?thesis using s2(7) log_more_eq(1)[OF s3(8)] by (intro exI[of _ s3]) simp
qed

lemma length_add_home: "length (add_home x hs) \<le> Suc (length hs)"
  by (simp add: add_home_def)

lemma tx_writes_spec:
  assumes "in_tx a p n F hs s" "locked_blocks s = {}" "length hs + length ws < LOGSIZE" "\<forall>w\<in>set ws. fst w < FSSIZE \<and> fst w \<notin> log_area (log_start (log s))"
  shows "\<exists>s' hs'. foldR (tx_write a) ws s = Inr s' \<and> in_tx a p n F hs' s' \<and> locked_blocks s' = {} \<and> view s' = apply_writes ws (view s) \<and>
    log_start (log s') = log_start (log s)"
  using assms
proof (induction ws arbitrary: s hs)
  case Nil
  then show ?case by (auto simp: apply_writes_def)
next
  case (Cons w ws)
  have "length hs < LOGSIZE - 1" using Cons.prems(3) by simp
  from tx_write_spec[OF Cons.prems(1,2) this, of w] Cons.prems(4) obtain s1 where
    s1: "tx_write a w s = Inr s1" "in_tx a p n F (add_home (fst w) hs) s1" "locked_blocks s1 = {}" "view s1 = (view s)(fst w := snd w)"
      "log_start (log s1) = log_start (log s)" by auto
  have "length (add_home (fst w) hs) + length ws < LOGSIZE" using Cons.prems(3) length_add_home[of "fst w" hs] by simp
  from Cons.IH[OF s1(2,3) this] Cons.prems(4) s1(5) obtain s2 hs' where
    s2: "foldR (tx_write a) ws s1 = Inr s2" "in_tx a p n F hs' s2" "locked_blocks s2 = {}" "view s2 = apply_writes ws (view s1)"
      "log_start (log s2) = log_start (log s1)" by auto
  then show ?case using s1(1,4,5) by (intro exI[of _ s2] exI[of _ hs']) (simp add: apply_writes_def case_prod_beta)
qed

text \<open>Taking and releasing the lock of the log, and waking waiters, leaves the blocks alone.\<close>

lemma machine_at:
  assumes "machine.more s' = machine.more (s :: 'a log_state_scheme)" and "calm a p n F s'" and "bc_free F" and "n < 70"
  shows "bc_at a p n F s' \<longleftrightarrow> bc_inv s" "locked_blocks s' = locked_blocks s" "dirty s' = dirty s" "view s' = view s" "disk s' = disk s" "log s' = log s" "bc_inv s' = bc_inv s"
proof -
  note m = machine_bio[OF assms(1)]
  note c = bc_cong[OF m(2,1,8,3,7,4)]
  show "bc_at a p n F s' \<longleftrightarrow> bc_inv s" using assms(2-4) c(1) by (simp add: bc_at_def)
  show "locked_blocks s' = locked_blocks s" "dirty s' = dirty s" "view s' = view s" "disk s' = disk s" "log s' = log s" "bc_inv s' = bc_inv s"
    using c m(8) log_more_eq(1)[OF m(9)] by simp_all
qed

definition log_idle :: "8 word \<Rightarrow> nat \<Rightarrow> nat \<Rightarrow> lockid set \<Rightarrow> 'a log_state_scheme \<Rightarrow> bool" where
  "log_idle a p n F s \<longleftrightarrow> bc_at a p n F s \<and> n < 69 \<and> L_log \<notin> F \<and> locked_blocks s = {} \<and> dirty s = {} \<and> log_lists [] s \<and>
     on_disk [] (disk s 1 (log_start (log s))) \<and> log_outstanding (log s) = 0 \<and> log_committing (log s) = 0 \<and> log_size (log s) = of_nat LOGSIZE"

lemma begin_op_spec:
  assumes s: "log_idle a p n F s"
  shows "\<exists>s'. begin_op a s = Inr s' \<and> in_tx a p n F [] s' \<and> locked_blocks s' = {} \<and> view s' = view s \<and> disk s' = disk s \<and>
    log_start (log s') = log_start (log s)"
proof -
  have k: "calm a p n F s" "n < 69" "bc_free F" "bc_inv s" "L_log \<notin> F" "locked_blocks s = {}" "dirty s = {}" using s by (simp_all add: log_idle_def bc_at_def)
  from acquire_calm[OF k(1) _ k(5)] k(2) obtain s1 where
    s1: "acquire a L_log s = Inr s1" "calm a p (Suc n) (insert L_log F) s1" "machine.more s1 = machine.more s" by auto
  have f1: "bc_free (insert L_log F)" using k(3) by (simp add: bc_free_def)
  note m1 = machine_at[OF s1(3,2) f1]
  let ?t = "upd_log (\<lambda>l. l\<lparr>log_outstanding := log_outstanding l + 1\<rparr>) s1"
  have ct: "calm a p (Suc n) (insert L_log F) ?t" using s1(2) by simp
  have fin: "insert L_log F - {L_log} = F" using k(5) by auto
  from release_calm[OF ct, of L_log] k(2) fin obtain s2 where
    s2: "release a L_log ?t = Inr s2" "calm a p n F s2" "machine.more s2 = machine.more ?t" by auto
  note m2 = machine_at[OF s2(3,2) k(3)]
  have lh: "lhn s = 0" "log_outstanding (log s) = 0" "log_committing (log s) = 0" using s by (simp_all add: log_idle_def log_lists_def)
  have "begin_op a s = Inr s2"
    using s1(1) s2(1) lh m1(6) k(2) by (simp add: begin_op_def LOGSIZE_def MAXOPBLOCKS_def)
  moreover have "in_tx a p n F [] s2"
    using s m1 m2 k by (simp add: in_tx_def log_idle_def log_lists_def bc_at_def)
  ultimately show ?thesis using m1 m2 k by (intro exI[of _ s2]) simp
qed

lemma commit_any:
  assumes s: "bc_at a p n F s" "locked_blocks s = {}" "log_lists hs s" "dirty s = set hs" "on_disk [] (disk s 1 (log_start (log s)))"
  shows "\<exists>s'. commit a s = Inr s' \<and> bc_at a p n F s' \<and> locked_blocks s' = {} \<and> dirty s' = {} \<and> log s' = (log s)\<lparr>log_lh := (log_lh (log s))\<lparr>lh_n := 0\<rparr>\<rparr> \<and>
    on_disk [] (disk s' 1 (log_start (log s))) \<and> (\<forall>x. x \<notin> log_area (log_start (log s)) \<longrightarrow> disk s' 1 x = view s x)"
proof (cases "hs = []")
  case True
  then have "lhn s = 0" using s(3) by (simp add: log_lists_def)
  then show ?thesis using s True view_eq_disk[of s] by (intro exI[of _ s]) (simp add: commit_def bc_at_def)
next
  case False
  then have "ready a p n F hs s" using s by (simp add: ready_def)
  from commit_after[OF this] show ?thesis by blast
qed

text \<open>The end of \<open>end_op\<close>, after the commit.\<close>

lemma end_op_finish:
  assumes s: "calm a p n F s" "bc_inv s" "locked_blocks s = {}" "dirty s = {}" and k: "bc_free F" "L_log \<notin> F" "n < 69"
  defines "g \<equiv> \<lambda>l. l\<lparr>log_committing := 0\<rparr>"
  shows "\<exists>s'. bindR (acquire a L_log s) (\<lambda>s5. bindR (wakeup a Ch_log (upd_log g s5)) (release a L_log)) = Inr s' \<and>
    bc_at a p n F s' \<and> locked_blocks s' = {} \<and> dirty s' = {} \<and> disk s' = disk s \<and> log s' = g (log s)"
proof -
  have fr: "bc_free (insert L_log F)" "insert L_log F - {L_log} = F" "L_ptable \<notin> insert L_log F" "Suc n < 70" "n < 70" using k by (auto simp: bc_free_def)
  from acquire_calm[OF s(1) _ k(2)] k(3) obtain s4 where
    s4: "acquire a L_log s = Inr s4" "calm a p (Suc n) (insert L_log F) s4" "machine.more s4 = machine.more s" by auto
  note m4 = machine_at[OF s4(3,2) fr(1,4)]
  have cu: "calm a p (Suc n) (insert L_log F) (upd_log g s4)" using s4(2) by simp
  from wakeup_calm[OF cu _ fr(3), of Ch_log] k(3) obtain s5 where
    s5: "wakeup a Ch_log (upd_log g s4) = Inr s5" "calm a p (Suc n) (insert L_log F) s5" "sched_state.more s5 = sched_state.more (upd_log g s4)" by auto
  note b5 = sl_more_eq(1)[OF s5(3)] and c5 = bio_more_eq[OF sl_more_eq(2)[OF s5(3)]]
  note d5 = bc_cong[OF c5(1) b5 c5(7,2,6,3)] and l5 = log_more_eq(1)[OF c5(8)]
  from release_calm[OF s5(2), of L_log] k(3) fr(2) obtain s6 where
    s6: "release a L_log s5 = Inr s6" "calm a p n F s6" "machine.more s6 = machine.more s5" by auto
  note m6 = machine_at[OF s6(3,2) k(1) fr(5)]
  show ?thesis using s4(1) s5(1) s6(1) m6 d5 l5 c5(7) m4 s(2-4) by (intro exI[of _ s6]) simp
qed

lemma end_op_spec:
  assumes s: "in_tx a p n F hs s" "locked_blocks s = {}" and n: "n < 69"
  shows "\<exists>s'. end_op a s = Inr s' \<and> log_idle a p n F s' \<and> log_start (log s') = log_start (log s) \<and>
    (\<forall>x. x \<notin> log_area (log_start (log s)) \<longrightarrow> disk s' 1 x = view s x)"
proof -
  have k: "calm a p n F s" "bc_free F" "bc_inv s" "L_log \<notin> F" "log_outstanding (log s) = 1" "log_committing (log s) = 0" "n < 70"
    using s(1) by (simp_all add: in_tx_def bc_at_def)
  have fr: "bc_free (insert L_log F)" "insert L_log F - {L_log} = F" "Suc n < 70" using k(2,4) n by (auto simp: bc_free_def)
  from acquire_calm[OF k(1) _ k(4)] n obtain s1 where
    s1: "acquire a L_log s = Inr s1" "calm a p (Suc n) (insert L_log F) s1" "machine.more s1 = machine.more s" by auto
  note m1 = machine_at[OF s1(3,2) fr(1,3)]
  let ?f = "\<lambda>l. l\<lparr>log_outstanding := log_outstanding l - 1\<rparr>" and ?g = "\<lambda>l. l\<lparr>log_committing := 1\<rparr>"
  let ?t = "upd_log ?g (upd_log ?f s1)"
  have ct: "calm a p (Suc n) (insert L_log F) ?t" using s1(2) by simp
  from release_calm[OF ct, of L_log] n fr(2) obtain s2 where
    s2: "release a L_log ?t = Inr s2" "calm a p n F s2" "machine.more s2 = machine.more ?t" by auto
  note m2 = machine_at[OF s2(3,2) k(2,7)]
  have l2: "log s2 = ?g (?f (log s))" using m1(6) m2(6) by simp
  have v2: "view s2 = view s" and c2: "bc_at a p n F s2" "locked_blocks s2 = {}" "dirty s2 = set hs" "disk s2 = disk s"
    using m1 m2 s k by (simp_all add: in_tx_def)
  have ll: "log_lists hs s2" "on_disk [] (disk s2 1 (log_start (log s2)))" using s(1) l2 c2(4) by (simp_all add: in_tx_def log_lists_def)
  from commit_any[OF c2(1,2) ll(1) c2(3) ll(2)] obtain s3 where
    s3: "commit a s2 = Inr s3" "bc_at a p n F s3" "locked_blocks s3 = {}" "dirty s3 = {}"
      "log s3 = (log s2)\<lparr>log_lh := (log_lh (log s2))\<lparr>lh_n := 0\<rparr>\<rparr>" "on_disk [] (disk s3 1 (log_start (log s2)))"
      "\<forall>x. x \<notin> log_area (log_start (log s2)) \<longrightarrow> disk s3 1 x = view s2 x" by blast
  have k3: "calm a p n F s3" "bc_inv s3" using s3(2) by (simp_all add: bc_at_def)
  from end_op_finish[OF k3 s3(3,4) k(2,4) n] obtain s6 where
    s6: "bindR (acquire a L_log s3) (\<lambda>s5. bindR (wakeup a Ch_log (upd_log (\<lambda>l. l\<lparr>log_committing := 0\<rparr>) s5)) (release a L_log)) = Inr s6"
      "bc_at a p n F s6" "locked_blocks s6 = {}" "dirty s6 = {}" "disk s6 = disk s3" "log s6 = (log s3)\<lparr>log_committing := 0\<rparr>" by blast
  have "end_op a s = Inr s6" using s1(1) s2(1) s3(1) s6(1) m1(6) k(5,6) by (simp add: end_op_def Let_def)
  moreover have "log s6 = (log s)\<lparr>log_outstanding := 0, log_lh := (log_lh (log s))\<lparr>lh_n := 0\<rparr>, log_committing := 0\<rparr>"
    using s6(6) s3(5) l2 k(5) by simp
  ultimately show ?thesis using s(1) s3(6,7) s6(2-5) l2 v2 n k(4)
    by (intro exI[of _ s6]) (simp add: log_idle_def in_tx_def log_lists_def)
qed


text \<open>The log of the example state, over any contents of the disk whose header block is empty.\<close>

lemma log0_sel: "bufs log0 = buf0" "idequeue log0 = None" "\<not> ide_error log0" "havedisk1 log0 = 1" "disk log0 = (\<lambda>_ _. replicate BSIZE 0)"
  "sl_locked (slocks log0 L) = 0" "log log0 = \<lparr>log_start = 2, log_size = 30, log_outstanding = 0, log_committing = 0, log_dev = 1,
      log_lh = \<lparr>lh_n = 0, lh_block = replicate LOGSIZE 0\<rparr>\<rparr>"
  by (simp_all add: log0_def bio0_def sl0_def state0_defs)

lemma log0_idle_cache:
  "bc_at 0 5 0 {} (log0\<lparr>disk := D\<rparr>)" "locked_blocks (log0\<lparr>disk := D\<rparr>) = {}" "dirty (log0\<lparr>disk := D\<rparr>) = {}"
proof -
  have c: "calm 0 5 0 {} (log0\<lparr>disk := D\<rparr>)" by (rule iffD2[OF calm_cong calm0(3)]) simp_all
  have "bc_inv (log0\<lparr>disk := D\<rparr>)"
    unfolding bc_inv_def using ring0 by (auto simp: log0_sel for_block_def buf_ok_def unlocked_def buf0_def)
  then show "bc_at 0 5 0 {} (log0\<lparr>disk := D\<rparr>)" using c by (simp add: bc_at_def bc_free_def)
  show "locked_blocks (log0\<lparr>disk := D\<rparr>) = {}" "dirty (log0\<lparr>disk := D\<rparr>) = {}"
    by (auto simp: locked_blocks_def dirty_def log0_sel unlocked_def buf0_def)
qed

lemma log0_same: "log0\<lparr>disk := \<lambda>_ _. replicate BSIZE 0\<rparr> = log0"
  using log0_sel(5) by simp

lemma zero_header: "on_disk [] (replicate BSIZE 0)"
  by (simp add: on_disk_def get32_def word32_def slice_def BSIZE_def)

lemma log0_fits: "log_fits 2" "100 \<notin> log_area 2" "200 \<notin> log_area 2"
proof -
  show f: "log_fits 2" by (simp add: log_fits_def FSSIZE_def LOGSIZE_def MAXOPBLOCKS_def)
  have out: "x \<notin> log_area 2" if "33 \<le> unat x" for x
  proof
    assume "x \<in> log_area 2"
    then consider "x = 2" | i where "i < LOGSIZE" "x = lblk 2 i" by (auto simp: log_area_def)
    then show False using that unat_lblk[OF f] by cases (auto simp: LOGSIZE_def MAXOPBLOCKS_def)
  qed
  show "100 \<notin> log_area 2" "200 \<notin> log_area 2" by (rule out, simp)+
qed

lemma log0_idle: "log_idle 0 5 0 {} log0"
  using log0_idle_cache[of "\<lambda>_ _. replicate BSIZE 0", unfolded log0_same] zero_header log0_fits(1)
  by (simp add: log_idle_def log_lists_def log0_sel LOGSIZE_def MAXOPBLOCKS_def)


text \<open>
  For the example of a crash: after the log block and the header have been written, before the
  block itself is, recovery finds the transaction.
\<close>

theorem commit_crash_atomic_witness:
  "\<exists>s s1 t'. bindR (begin_op 0 log0) (tx_write 0 (100, [1])) = Inr s \<and> commit_upto 0 2 s = Inr s1 \<and>
    recover_from_log 0 (log0\<lparr>disk := disk s1\<rparr>) = Inr t' \<and> disk t' 1 100 = [1]"
proof -
  from begin_op_spec[OF log0_idle] obtain r where
    r: "begin_op 0 log0 = Inr r" "in_tx 0 5 0 {} [] r" "locked_blocks r = {}" "log_start (log r) = 2" by (auto simp: log0_sel)
  from tx_write_spec[OF r(2,3), of "(100, [1])"] r(4) log0_fits(2) obtain s where
    s: "tx_write 0 (100, [1]) r = Inr s" "in_tx 0 5 0 {} (add_home 100 []) s" "locked_blocks s = {}" "view s 100 = [1]" "log_start (log s) = 2"
    by (auto simp: LOGSIZE_def MAXOPBLOCKS_def FSSIZE_def)
  have rd: "ready 0 5 0 {} [100] s" using s(2,3) by (simp add: ready_def in_tx_def add_home_def)
  have bt: "booted 0 5 0 {} (log_start (log s)) (log0\<lparr>disk := D\<rparr>)" for D
    using log0_idle_cache s(5) by (simp add: booted_def log0_sel)
  obtain s1 where s1: "commit_upto 0 2 s = Inr s1" using commit_crash_atomic[OF rd _ bt, of 2] by auto
  then show ?thesis
    using commit_crash_atomic[OF rd _ bt, of 2 "disk s1"] r(1) s log0_fits(2) by auto
qed

end
