(* ===== verification/Umalloc.thy ===== *)
theory Umalloc
  imports Ulib
begin

section \<open>The user memory allocator (umalloc.c)\<close>

text \<open>
  The allocator of Kernighan and Ritchie.  Free blocks form a circular list in the order of
  their addresses; every block starts with a header of two words, the pointer to the next free
  block and its size in units of a header, 8 bytes.  The headers are kept in two maps from
  addresses, apart from the bytes of the blocks; \<open>base\<close> is the address of the static header
  that starts the list.  Loops over the list may run forever if the list is damaged, hence
  \<open>option\<close>.
\<close>

subsection \<open>Operations\<close>

record umem =
  hptr :: "cuint \<Rightarrow> cuint"
  hsize :: "cuint \<Rightarrow> cuint"
  freep :: cuint

text \<open>The search of \<^verbatim>\<open>free\<close> for the free block after which the block belongs.\<close>

partial_function (option) free_find :: "umem \<Rightarrow> cuint \<Rightarrow> cuint \<Rightarrow> cuint option" where
  "free_find m bp p =
     (if p < bp \<and> bp < hptr m p then Some p
      else if hptr m p \<le> p \<and> (p < bp \<or> bp < hptr m p) then Some p
      else free_find m bp (hptr m p))"

definition free_link :: "cuint \<Rightarrow> cuint \<Rightarrow> umem \<Rightarrow> umem" where
  "free_link bp p m =
     (let m1 = (if bp + 8 * hsize m bp = hptr m p
                then m\<lparr>hptr := (hptr m)(bp := hptr m (hptr m p)), hsize := (hsize m)(bp := hsize m bp + hsize m (hptr m p))\<rparr>
                else m\<lparr>hptr := (hptr m)(bp := hptr m p)\<rparr>);
          m2 = (if p + 8 * hsize m1 p = bp
                then m1\<lparr>hptr := (hptr m1)(p := hptr m1 bp), hsize := (hsize m1)(p := hsize m1 p + hsize m1 bp)\<rparr>
                else m1\<lparr>hptr := (hptr m1)(p := bp)\<rparr>)
      in m2\<lparr>freep := p\<rparr>)"

definition u_free :: "cuint \<Rightarrow> umem \<Rightarrow> umem option" where
  "u_free ap m = (let bp = ap - 8 in map_option (\<lambda>p. free_link bp p m) (free_find m bp (freep m)))"

definition morecore :: "'w calls \<Rightarrow> cuint \<Rightarrow> umem \<Rightarrow> (cuint \<times> umem, 'w) act" where
  "morecore C nu0 m =
     (let nu = (if nu0 < 4096 then 4096 else nu0) in
      bindU (sysU (u_sbrk C (nu * 8))) (\<lambda>p.
        if p = -1 then retU (0, m)
        else (\<lambda>w. map_option (\<lambda>m1. Inr ((freep m1, m1), w)) (u_free (p + 8) (m\<lparr>hsize := (hsize m)(p := nu)\<rparr>)))))"

text \<open>Taking \<open>nunits\<close> from the free block \<open>p\<close>: the whole block, or its end.\<close>

definition take_block :: "cuint \<Rightarrow> cuint \<Rightarrow> cuint \<Rightarrow> umem \<Rightarrow> cuint \<times> umem" where
  "take_block nunits prevp p m =
     (if hsize m p = nunits then (p + 8, m\<lparr>hptr := (hptr m)(prevp := hptr m p), freep := prevp\<rparr>)
      else
        let rest = hsize m p - nunits; q = p + 8 * rest
        in (q + 8, m\<lparr>hsize := (hsize m)(p := rest, q := nunits), freep := prevp\<rparr>))"

partial_function (option) malloc_loop ::
  "'w calls \<Rightarrow> cuint \<Rightarrow> umem \<Rightarrow> cuint \<Rightarrow> cuint \<Rightarrow> 'w \<Rightarrow> ('w uend + (cuint \<times> umem) \<times> 'w) option" where
  "malloc_loop C nunits m prevp p w =
     (if nunits \<le> hsize m p then retU (take_block nunits prevp p m) w
      else if p = freep m then
        bindU (morecore C nunits m) (\<lambda>r w1.
          if fst r = 0 then retU (0, snd r) w1
          else malloc_loop C nunits (snd r) (fst r) (hptr (snd r) (fst r)) w1) w
      else malloc_loop C nunits m p (hptr m p) w)"

definition u_malloc :: "'w calls \<Rightarrow> cuint \<Rightarrow> cuint \<Rightarrow> umem \<Rightarrow> (cuint \<times> umem, 'w) act" where
  "u_malloc C base nbytes m =
     (let nunits = (nbytes + 8 - 1) div 8 + 1;
          m1 = (if freep m = 0 then m\<lparr>hptr := (hptr m)(base := base), hsize := (hsize m)(base := 0), freep := base\<rparr> else m)
      in malloc_loop C nunits m1 (freep m1) (hptr m1 (freep m1)))"

end
