(* ===== verification/Spec2Isabelle.thy ===== *)
theory Spec2Isabelle
  imports Syscall Grep ShellRound PipeInv LogInv Umalloc
begin

text \<open>
  \<^bold>\<open>A verification of xv6 with a multi-level feedback queue scheduler\<close>

  \<^bold>\<open>The program.\<close>  The sources under src/srcs are the teaching kernel xv6 for 32-bit x86 machines
  with several CPUs, in which the round-robin scheduler has been replaced by a multi-level
  feedback queue (MLFQ), together with its user library and user programs.  This development
  translates the C code into HOL functions and proves what the parts promise.

  \<^bold>\<open>Conventions.\<close>  \<^verbatim>\<open>int\<close> and \<^verbatim>\<open>uint\<close> are 32-bit words and \<^verbatim>\<open>char\<close> an 8-bit word; arithmetic
  wraps.  A function that may not return is of type \<open>'a res\<close> (Prelude): \<open>Inr\<close> of its result, or
  \<open>Inl\<close> of why it does not return -- a panic, an undefined access, spinning on a held lock,
  going to sleep, or a walk over a linked structure that does not end.  Kernel code is run by
  the CPU with the APIC id \<open>a\<close>, its first argument.  The kernel's state is one record, extended
  from component to component: machine (CPUs, locks, interrupt flags), kmem_state (memory,
  free list), vm_state (page-table registers), sched_state (process table, ticks), sl_state
  (sleep locks), bio_state (buffers, disk), log_state, fs_state (inodes), cons_state (console),
  pipe_state, file_state, life_state, trap_state.  An operation works on every extension of the
  record it needs.  A call that switches context is two functions, \<open>_pre\<close> up to the switch and
  \<open>_post\<close> from it on; in code above the scheduler a call that has to sleep is \<open>Inl Blocks\<close>.

  \<^bold>\<open>Kernel theories.\<close>
  \<^item> Spinlock (spinlock.c, part of x86.h and proc.h): CPUs, nesting of disabled interrupts, spin
    locks; mutual exclusion over all interleavings, result of every branch.
  \<^item> KString (string.c): memory routines on byte-addressed memory; copying, comparison,
    termination of strings.
  \<^item> Memlayout, Kalloc (memlayout.h, mmu.h, kalloc.c): the page allocator over the list kept in
    the free pages themselves; pages handed out are distinct, freeing and allocating round trip.
  \<^item> Vm (vm.c): page directories and tables in memory, mapping, copying and freeing of user
    memory, switching.
  \<^item> ProcTable, Mlfq (proc.c, proc.h): the process table with its four linked queues, insertion
    by rank, removal; timers, quanta, demotion, aging.  The linked lists are shown to refine
    plain lists.
  \<^item> Sched, SchedInv (proc.c, part of trap.c): scheduler, yield, sleep, wakeup, kill and the timer
    tick, and a step relation of all CPUs running them in any order with its invariant.
  \<^item> Sleeplock, Bio, Log, Inode, Fs (sleeplock.c, ide.c, bio.c, log.c, fs.c): sleep locks, disk
    requests, buffer cache, write-ahead log, inodes, blocks, directories and paths; Bytes has
    the structures laid over byte arrays.
  \<^item> Console, Kbd, Digits (console.c, uart.c, kbd.c): output, line editing, scan codes.
  \<^item> Pipe, File, Uaccess, Lifecycle, Exec, Sysfile, Syscall (pipe.c, file.c, syscall.c, the rest of
    proc.c, exec.c, sysfile.c, sys_lseek.c, sysproc.c, trap.c): open files, user-memory access
    through the page table, process creation and exit, program loading, system calls, traps.
  \<^item> Ring, Calm: libraries for proofs -- rings with free-running counters and the contract of a
    bounded queue; what kernel code does when no other CPU is in its way.
  \<^item> State0, PipeInv, BioInv, LogInv: concrete kernel states the examples run on; a pipe is a
    first-in first-out queue of at most 512 bytes; the buffer cache behaves as a plain array of
    blocks; a commit that crashes after any of its disk writes is recovered to the state before
    or after the transaction.

  \<^bold>\<open>User theories.\<close>
  \<^item> Ulib (user.h, ulib.c, printf.c): the system calls as a record of functions over an arbitrary
    world, and the library on top of it; printing and reading numbers round trips.
  \<^item> Progs (cat.c, echo.c, wc.c, ls.c, rm.c, mkdir.c, ln.c, kill.c, init.c, small tests): programs as
    functions of the calls; a program that never stops has the value \<open>None\<close>.
  \<^item> Umalloc (umalloc.c): malloc and free over a store of block headers.
  \<^item> Grep (grep.c): the matcher equals a declarative semantics of patterns; the line loop prints
    exactly the matching lines.
  \<^item> Shell, ShellRound (sh.c): tokenizer, parser and execution; the parser is total and undoes
    printing.

  \<^bold>\<open>Bounds.\<close>  Walks over the queues of the process table take at most as many turns as there are
  processes, which the queue invariant makes enough.  The shell's recursive parser gets a call
  depth of four times the length of the line plus four: each round through its four functions
  consumes a character.  Loops that may really run forever are partial functions whose value is
  then \<open>None\<close>.

  \<^bold>\<open>Not modelled.\<close>  Boot code, context-switch and trap entry assembly, interrupt controllers and
  processor discovery (bootasm.S, bootmain.c, entry.S, swtch.S, trapasm.S, lapic.c, ioapic.c,
  picirq.c, mp.c, main.c) program devices or are assembly.  Segment and gate descriptors
  (seginit, tvinit), device initialisation (uartinit, ideinit) and messages printed for
  diagnosis are left out.  usertests.c is a test suite, not an implementation; mkfs.c runs on
  the host; memide.c is not linked by default.
\<close>

end
